(* ===== verification/Prelude.thy ===== *)
theory Prelude
  imports Main "HOL-Library.Word"
begin

text \<open>
  Shared vocabulary of the development: the machine types of the C++ code, the result of an
  operation (a value, a null pointer, an abort, a run that does not return), the state monad
  the decoder and the encoder are written in, unsigned 64-bit subtraction, and generic lemmas
  on byte lists and integers.

  \<^item> \<open>uint8_t\<close>, \<open>uint16_t\<close>, \<open>uint32_t\<close>, \<open>uint64_t\<close> and their signed counterparts are words of
    that width; \<open>uint\<close> reads a word as unsigned, \<open>sint\<close> as two's complement. An arithmetic
    expression of the code that is computed in C++ \<open>int\<close> without overflow is computed in HOL
    \<open>int\<close>, and \<open>word_of_int\<close> is the conversion to the destination type.
  \<^item> \<open>size_t\<close> and \<open>uint64_t\<close> positions are natural numbers below \<open>2 ^ 64\<close>; the wrap-around of an
    unsigned subtraction is written out (\<open>u64_sub\<close>).
  \<^item> \<open>std::string\<close>, \<open>absl::string_view\<close> and \<open>std::vector<uint8_t>\<close> are lists of bytes.
\<close>

section \<open>Machine types\<close>

type_synonym u8 = "8 word"
type_synonym u16 = "16 word"
type_synonym u32 = "32 word"
type_synonym u64 = "64 word"
type_synonym i8 = "8 word"
type_synonym i16 = "16 word"
type_synonym i32 = "32 word"
type_synonym i64 = "64 word"
type_synonym bytes = "u8 list"

named_theorems dec_simps \<open>evaluation of decoder steps\<close>
named_theorems enc_simps \<open>evaluation of encoder steps\<close>

text \<open>Unsigned 64-bit subtraction: \<open>a - b\<close> on \<open>uint64_t\<close> operands.\<close>

definition u64_sub :: "nat \<Rightarrow> nat \<Rightarrow> nat" where
  "u64_sub a b = (if b \<le> a then a - b else (a + 2 ^ 64 - b) mod 2 ^ 64)"

lemma u64_sub_le [simp]: "b \<le> a \<Longrightarrow> u64_sub a b = a - b"
  by (simp add: u64_sub_def)

lemma u64_sub_wraps:
  "a < b \<Longrightarrow> b < 2 ^ 64 \<Longrightarrow> u64_sub a b = 2 ^ 64 - (b - a)"
  by (simp add: u64_sub_def)

section \<open>Results and the state monad\<close>

text \<open>
  How an operation of the library ends: with a value; with a null pointer (a \<open>decode\<close> that
  rejects its input); with an abort (a failed \<open>ABSL_ASSERT\<close>, an exception nobody catches, or
  undefined behaviour); or not at all.
\<close>

datatype 'a result = Ret 'a | Null | Abort | Hang

type_synonym ('s, 'a) comp = "'s \<Rightarrow> 'a result \<times> 's"

definition ret :: "'a \<Rightarrow> ('s, 'a) comp" where
  "ret x = (\<lambda>s. (Ret x, s))"

definition nullptr :: "('s, 'a) comp" where
  "nullptr = (\<lambda>s. (Null, s))"

definition abort :: "('s, 'a) comp" where
  "abort = (\<lambda>s. (Abort, s))"

definition hang :: "('s, 'a) comp" where
  "hang = (\<lambda>s. (Hang, s))"

text \<open>Sequencing: the rest of a function body runs only after a value.\<close>

definition and_then :: "('s, 'a) comp \<Rightarrow> ('a \<Rightarrow> ('s, 'b) comp) \<Rightarrow> ('s, 'b) comp" where
  "and_then m f = (\<lambda>s. case m s of
     (Ret x, s') \<Rightarrow> f x s'
   | (Null, s') \<Rightarrow> (Null, s')
   | (Abort, s') \<Rightarrow> (Abort, s')
   | (Hang, s') \<Rightarrow> (Hang, s'))"

text \<open>Reading and replacing the state.\<close>

definition gets :: "('s \<Rightarrow> 'a) \<Rightarrow> ('s, 'a) comp" where
  "gets f = (\<lambda>s. (Ret (f s), s))"

definition modify :: "('s \<Rightarrow> 's) \<Rightarrow> ('s, unit) comp" where
  "modify f = (\<lambda>s. (Ret (), f s))"

lemma ret_run [simp]: "ret x s = (Ret x, s)"
  by (simp add: ret_def)

lemma nullptr_run [simp]: "nullptr s = (Null, s)"
  by (simp add: nullptr_def)

lemma abort_run [simp]: "abort s = (Abort, s)"
  by (simp add: abort_def)

lemma hang_run [simp]: "hang s = (Hang, s)"
  by (simp add: hang_def)

lemma gets_run [simp]: "gets f s = (Ret (f s), s)"
  by (simp add: gets_def)

lemma modify_run [simp]: "modify f s = (Ret (), f s)"
  by (simp add: modify_def)

text \<open>Running a sequence once the first step's outcome is known.\<close>

lemma and_then_Ret: "m s = (Ret x, s') \<Longrightarrow> and_then m f s = f x s'"
  by (simp add: and_then_def)

lemma and_then_Null: "m s = (Null, s') \<Longrightarrow> and_then m f s = (Null, s')"
  by (simp add: and_then_def)

lemma and_then_Abort: "m s = (Abort, s') \<Longrightarrow> and_then m f s = (Abort, s')"
  by (simp add: and_then_def)

lemma and_then_Hang: "m s = (Hang, s') \<Longrightarrow> and_then m f s = (Hang, s')"
  by (simp add: and_then_def)

lemma and_then_simps [simp]:
  "and_then (ret x) f = f x"
  "and_then nullptr f' = nullptr"
  "and_then (gets g) f s = f (g s) s"
  "and_then (modify h) f'' s = f'' () (h s)"
  by (simp_all add: and_then_def fun_eq_iff)

lemma and_then_assoc: "and_then (and_then m f) g = and_then m (\<lambda>x. and_then (f x) g)"
  by (auto simp add: and_then_def fun_eq_iff split: prod.splits result.splits)

lemma and_then_eq_Ret_iff:
  "and_then m f s = (Ret y, s'') \<longleftrightarrow> (\<exists>x s'. m s = (Ret x, s') \<and> f x s' = (Ret y, s''))"
  by (auto simp add: and_then_def split: prod.splits result.splits)

lemma and_then_RetE:
  assumes "and_then m f s = (Ret y, s'')"
  obtains x s' where "m s = (Ret x, s')" and "f x s' = (Ret y, s'')"
  using assms by (auto simp: and_then_eq_Ret_iff)

section \<open>Bytes as integers\<close>

lemma uint_byte_of_int: "uint (word_of_int x :: u8) = x mod 256"
  by (simp add: uint_word_of_int)

lemma uint_byte_bounds: "0 \<le> uint (b :: u8)" "uint (b :: u8) < 256"
  using uint_lt2p [of b] by simp_all

lemma unat_byte_lt: "unat (b :: u8) < 256"
proof -
  have "int (unat b) < 256" using uint_byte_bounds(2) [of b] by simp
  then show ?thesis by linarith
qed

lemma sint_of_int_in_range:
  assumes "- (2 ^ (LENGTH('a) - 1)) \<le> x" and "x < 2 ^ (LENGTH('a) - 1)"
  shows "sint (word_of_int x :: 'a::len word) = x"
  using assms by (simp add: sint_sbintrunc' signed_take_bit_int_eq_self)

lemma sint_i8_bounds: "- 128 \<le> sint (w :: i8)" "sint (w :: i8) \<le> 127"
  using sint_ge [of w] sint_lt [of w] by simp_all

lemma sint_i16_bounds: "- 32768 \<le> sint (w :: i16)" "sint (w :: i16) \<le> 32767"
  using sint_ge [of w] sint_lt [of w] by simp_all

lemma sint_i32_bounds: "- 2147483648 \<le> sint (w :: i32)" "sint (w :: i32) \<le> 2147483647"
  using sint_ge [of w] sint_lt [of w] by simp_all

lemma sint_i64_bounds:
  "- 9223372036854775808 \<le> sint (w :: i64)" "sint (w :: i64) \<le> 9223372036854775807"
  using sint_ge [of w] sint_lt [of w] by simp_all

lemma word_of_sint [simp]: "word_of_int (sint w) = (w :: 'a::len word)"
  by simp

lemma unat_of_nat_u8: "n < 256 \<Longrightarrow> unat (of_nat n :: u8) = n"
  by (simp add: unat_of_nat)

text \<open>Comparisons of bytes as comparisons of naturals.\<close>

lemma byte_compare:
  "(b :: u8) = c \<longleftrightarrow> unat b = unat c" "b \<le> c \<longleftrightarrow> unat b \<le> unat c" "b < c \<longleftrightarrow> unat b < unat c"
  by (simp_all add: word_unat_eq_iff word_le_nat_alt word_less_nat_alt)

section \<open>Lists\<close>

lemma drop_eq_append_iff:
  "drop n xs = ys @ zs \<Longrightarrow> drop (n + length ys) xs = zs"
  by (metis add.commute append_eq_conv_conj drop_drop)

lemma drop_eq_Cons_nth: "drop n xs = y # ys \<Longrightarrow> n < length xs \<and> xs ! n = y"
  by (metis drop_eq_Nil2 leI list.distinct(1) nth_via_drop)

end
