(* ===== verification/Byte_Order.thy ===== *)
theory Byte_Order
  imports Prelude
begin

text \<open>
  Byte order (src/hessian2/byte_order.h): the object representation of an integer on a little-
  or big-endian host, the \<open>ByteOrderConverter\<close> templates, and the fact the reader and the
  writer rest on: going through the converter, what is stored or loaded does not depend on the
  host.
\<close>

unbundle bit_operations_syntax

section \<open>Little- and big-endian byte lists of a number\<close>

fun le_bytes :: "nat \<Rightarrow> nat \<Rightarrow> bytes" where
  "le_bytes 0 x = []"
| "le_bytes (Suc n) x = of_nat (x mod 256) # le_bytes n (x div 256)"

fun le_val :: "bytes \<Rightarrow> nat" where
  "le_val [] = 0"
| "le_val (b # bs) = unat b + 256 * le_val bs"

definition be_bytes :: "nat \<Rightarrow> nat \<Rightarrow> bytes" where
  "be_bytes n x = rev (le_bytes n x)"

definition be_val :: "bytes \<Rightarrow> nat" where
  "be_val bs = le_val (rev bs)"

lemma le_bytes_numeral [simp]:
  "le_bytes (numeral k) x = of_nat (x mod 256) # le_bytes (pred_numeral k) (x div 256)"
  by (subst numeral_eq_Suc) (rule le_bytes.simps)

lemma unat_byte_of_nat: "unat (of_nat (x mod 256) :: u8) = x mod 256"
  by (simp add: unat_of_nat)

lemma length_le_bytes [simp]: "length (le_bytes n x) = n"
  by (induction n arbitrary: x) auto

lemma length_be_bytes [simp]: "length (be_bytes n x) = n"
  by (simp add: be_bytes_def)

lemma le_val_le_bytes: "le_val (le_bytes n x) = x mod 256 ^ n"
  by (induction n arbitrary: x) (simp_all add: unat_byte_of_nat mod_mult2_eq)

lemma be_val_be_bytes: "be_val (be_bytes n x) = x mod 256 ^ n"
  by (simp add: be_val_def be_bytes_def le_val_le_bytes)

lemma le_val_lt: "le_val bs < 256 ^ length bs"
proof (induction bs)
  case (Cons b bs)
  then have "le_val bs + 1 \<le> 256 ^ length bs" by simp
  then have "256 * (le_val bs + 1) \<le> 256 * 256 ^ length bs" by (rule mult_le_mono2)
  with unat_byte_lt [of b] show ?case by simp
qed simp

lemma be_val_lt: "be_val bs < 256 ^ length bs"
  using le_val_lt [of "rev bs"] by (simp add: be_val_def)

lemma be_bytes_u8 [simp]: "be_bytes 1 (unat (b :: u8)) = [b]" "be_bytes (Suc 0) (unat b) = [b]"
  by (simp_all add: be_bytes_def unat_byte_lt)

lemma le_bytes_le_val: "le_bytes (length bs) (le_val bs) = bs"
proof (induction bs)
  case (Cons b bs)
  have "(unat b + 256 * le_val bs) mod 256 = unat b"
    using unat_byte_lt [of b] by simp
  moreover have "(unat b + 256 * le_val bs) div 256 = le_val bs"
    using unat_byte_lt [of b] by simp
  ultimately show ?case using Cons by simp
qed simp

lemma be_bytes_be_val: "be_bytes (length bs) (be_val bs) = bs"
  using le_bytes_le_val [of "rev bs"] by (simp add: be_bytes_def be_val_def)

section \<open>Object representation and the converter\<close>

text \<open>The machine the code runs on stores integers in one of two orders.\<close>

datatype host = Little_Host | Big_Host

datatype byte_order_type = Host | LittleEndian | BigEndian

text \<open>\<open>sizeof\<close> of an integer type of the given width.\<close>

definition size_of :: "'a::len itself \<Rightarrow> nat" where
  "size_of _ = LENGTH('a) div 8"

definition mem_of :: "host \<Rightarrow> 'a::len word \<Rightarrow> bytes" where
  "mem_of h w = (case h of
     Little_Host \<Rightarrow> le_bytes (size_of TYPE('a)) (unat w)
   | Big_Host \<Rightarrow> be_bytes (size_of TYPE('a)) (unat w))"

definition of_mem :: "host \<Rightarrow> bytes \<Rightarrow> 'a::len word" where
  "of_mem h bs = (case h of Little_Host \<Rightarrow> of_nat (le_val bs) | Big_Host \<Rightarrow> of_nat (be_val bs))"

definition swap_bytes :: "'a::len word \<Rightarrow> 'a word" where
  "swap_bytes w = of_nat (be_val (le_bytes (size_of TYPE('a)) (unat w)))"

text \<open>
  The \<open>htoleNN\<close>/\<open>leNNtoh\<close> and \<open>htobeNN\<close>/\<open>beNNtoh\<close> macros of the C library swap the bytes when
  the host order differs from the requested one.
\<close>

definition htole :: "host \<Rightarrow> 'a::len word \<Rightarrow> 'a word" where
  "htole h w = (case h of Little_Host \<Rightarrow> w | Big_Host \<Rightarrow> swap_bytes w)"

definition htobe :: "host \<Rightarrow> 'a::len word \<Rightarrow> 'a word" where
  "htobe h w = (case h of Little_Host \<Rightarrow> swap_bytes w | Big_Host \<Rightarrow> w)"

text \<open>
  The specialisations of \<open>ByteOrderConverter\<close>: host order and one-byte types are the identity,
  the others go through the macro of their width.
\<close>

definition converter_to :: "host \<Rightarrow> byte_order_type \<Rightarrow> 'a::len word \<Rightarrow> 'a word" where
  "converter_to h e w =
     (if size_of TYPE('a) = 1 then w
      else case e of Host \<Rightarrow> w | LittleEndian \<Rightarrow> htole h w | BigEndian \<Rightarrow> htobe h w)"

definition converter_from :: "host \<Rightarrow> byte_order_type \<Rightarrow> 'a::len word \<Rightarrow> 'a word" where
  "converter_from h e w =
     (if size_of TYPE('a) = 1 then w
      else case e of Host \<Rightarrow> w | LittleEndian \<Rightarrow> htole h w | BigEndian \<Rightarrow> htobe h w)"

definition to_endian :: "host \<Rightarrow> byte_order_type \<Rightarrow> 'a::len word \<Rightarrow> 'a word" where
  "to_endian h e w = converter_to h e w"

definition from_endian :: "host \<Rightarrow> byte_order_type \<Rightarrow> 'a::len word \<Rightarrow> 'a word" where
  "from_endian h e w = converter_from h e w"

text \<open>The integer types of the code have a whole number of bytes.\<close>

definition byte_sized :: "'a::len itself \<Rightarrow> bool" where
  "byte_sized _ \<longleftrightarrow> LENGTH('a) = 8 * (LENGTH('a) div 8)"

lemma byte_sized_simps [simp]:
  "byte_sized TYPE(8)" "byte_sized TYPE(16)" "byte_sized TYPE(32)" "byte_sized TYPE(64)"
  by (simp_all add: byte_sized_def)

lemma size_of_simps [simp]:
  "size_of TYPE(8) = 1" "size_of TYPE(16) = 2" "size_of TYPE(32) = 4" "size_of TYPE(64) = 8"
  by (simp_all add: size_of_def)

lemma exp_size_of: "byte_sized TYPE('a::len) \<Longrightarrow> 256 ^ size_of TYPE('a) = (2::nat) ^ LENGTH('a)"
proof -
  assume "byte_sized TYPE('a)"
  then have len: "LENGTH('a) = 8 * size_of TYPE('a)" by (simp add: byte_sized_def size_of_def)
  have "(256::nat) ^ size_of TYPE('a) = (2 ^ 8) ^ size_of TYPE('a)" by simp
  also have "\<dots> = 2 ^ (8 * size_of TYPE('a))" by (simp only: power_mult)
  finally show ?thesis by (simp only: len)
qed

section \<open>What is stored and loaded does not depend on the host\<close>

lemma unat_word_lt_size_of:
  "byte_sized TYPE('a::len) \<Longrightarrow> unat (w :: 'a word) < 256 ^ size_of TYPE('a)"
  by (simp add: exp_size_of unsigned_less)

lemma unat_of_nat_bytes:
  assumes "byte_sized TYPE('a::len)" and "x < 256 ^ size_of TYPE('a)"
  shows "unat (of_nat x :: 'a word) = x"
  using assms by (simp add: unat_of_nat exp_size_of)

lemma unat_swap_bytes:
  assumes "byte_sized TYPE('a::len)"
  shows "unat (swap_bytes (w :: 'a word)) = be_val (le_bytes (size_of TYPE('a)) (unat w))"
  unfolding swap_bytes_def using assms be_val_lt [of "le_bytes (size_of TYPE('a)) (unat w)"]
  by (intro unat_of_nat_bytes) simp_all

lemma le_bytes_be_val: "le_bytes (length bs) (be_val bs) = rev bs"
  using le_bytes_le_val [of "rev bs"] by (simp add: be_val_def)

lemma be_bytes_le_val: "be_bytes (length bs) (le_val bs) = rev bs"
  using le_bytes_le_val [of bs] by (simp add: be_bytes_def)

lemma le_bytes_swap_bytes:
  assumes "byte_sized TYPE('a::len)"
  shows "le_bytes (size_of TYPE('a)) (unat (swap_bytes (w :: 'a word))) = be_bytes (size_of TYPE('a)) (unat w)"
  using le_bytes_be_val [of "le_bytes (size_of TYPE('a)) (unat w)"] assms
  by (simp add: unat_swap_bytes be_bytes_def)

lemma be_bytes_swap_bytes:
  assumes "byte_sized TYPE('a::len)"
  shows "be_bytes (size_of TYPE('a)) (unat (swap_bytes (w :: 'a word))) = le_bytes (size_of TYPE('a)) (unat w)"
  using le_bytes_swap_bytes [OF assms, of w] by (simp add: be_bytes_def)

lemma swap_bytes_of_mem:
  assumes "byte_sized TYPE('a::len)" and "length bs = size_of TYPE('a)"
  shows "swap_bytes (of_nat (le_val bs) :: 'a word) = of_nat (be_val bs)"
    and "swap_bytes (of_nat (be_val bs) :: 'a word) = of_nat (le_val bs)"
proof -
  have le: "unat (of_nat (le_val bs) :: 'a word) = le_val bs"
    using assms le_val_lt [of bs] by (intro unat_of_nat_bytes) simp_all
  have be: "unat (of_nat (be_val bs) :: 'a word) = be_val bs"
    using assms be_val_lt [of bs] by (intro unat_of_nat_bytes) simp_all
  show "swap_bytes (of_nat (le_val bs) :: 'a word) = of_nat (be_val bs)"
    using le_bytes_le_val [of bs] assms by (simp add: swap_bytes_def le)
  show "swap_bytes (of_nat (be_val bs) :: 'a word) = of_nat (le_val bs)"
    using le_bytes_be_val [of bs] assms by (simp add: swap_bytes_def be) (simp add: be_val_def)
qed

lemma one_byte_lists: "length bs = Suc 0 \<Longrightarrow> rev bs = bs"
  by (cases bs) auto

lemma one_byte_orders:
  assumes "size_of TYPE('a::len) = 1"
  shows "be_bytes (size_of TYPE('a)) x = le_bytes (size_of TYPE('a)) x"
  using assms by (simp add: be_bytes_def one_byte_lists)

text \<open>Storing through the converter: big-endian bytes on either host, and little-endian bytes.\<close>

lemma mem_of_to_endian_BE:
  assumes "byte_sized TYPE('a::len)"
  shows "mem_of h (to_endian h BigEndian (w :: 'a word)) = be_bytes (size_of TYPE('a)) (unat w)"
  using assms one_byte_orders [where 'a = 'a]
  by (cases h) (simp_all add: mem_of_def to_endian_def converter_to_def htobe_def le_bytes_swap_bytes)

lemma mem_of_to_endian_LE:
  assumes "byte_sized TYPE('a::len)"
  shows "mem_of h (to_endian h LittleEndian (w :: 'a word)) = le_bytes (size_of TYPE('a)) (unat w)"
  using assms one_byte_orders [where 'a = 'a]
  by (cases h) (simp_all add: mem_of_def to_endian_def converter_to_def htole_def be_bytes_swap_bytes)

text \<open>Loading through the converter.\<close>

lemma from_endian_of_mem_BE:
  assumes "byte_sized TYPE('a::len)" and "length bs = size_of TYPE('a)"
  shows "from_endian h BigEndian (of_mem h bs :: 'a word) = of_nat (be_val bs)"
  using assms
  by (cases h) (auto simp add: of_mem_def from_endian_def converter_from_def htobe_def
      swap_bytes_of_mem be_val_def one_byte_lists)

lemma from_endian_of_mem_LE:
  assumes "byte_sized TYPE('a::len)" and "length bs = size_of TYPE('a)"
  shows "from_endian h LittleEndian (of_mem h bs :: 'a word) = of_nat (le_val bs)"
  using assms
  by (cases h) (auto simp add: of_mem_def from_endian_def converter_from_def htole_def
      swap_bytes_of_mem be_val_def one_byte_lists)

lemma of_nat_be_val_be_bytes:
  assumes "byte_sized TYPE('a::len)"
  shows "of_nat (be_val (be_bytes (size_of TYPE('a)) (unat (w :: 'a word)))) = w"
  using unat_word_lt_size_of [OF assms, of w] by (simp add: be_val_be_bytes)

lemma of_nat_le_val_le_bytes:
  assumes "byte_sized TYPE('a::len)"
  shows "of_nat (le_val (le_bytes (size_of TYPE('a)) (unat (w :: 'a word)))) = w"
  using unat_word_lt_size_of [OF assms, of w] by (simp add: le_val_le_bytes)

section \<open>Properties\<close>



end
