(* ===== verification/Reader.thy ===== *)
theory Reader
  imports Byte_Order
begin

text \<open>
  The reader (src/hessian2/reader.hpp, reader.cc, string_reader.hpp): a position in a buffer,
  the \<open>peek\<close> and \<open>read\<close> templates over the two virtual functions \<open>length\<close> and
  \<open>rawReadNBytes\<close>, and two implementations of them, \<open>StringReader\<close> and the \<open>SliceReader\<close> of
  src/example/reader_writer.cc. What the templates rely on is the locale \<open>reader_impl\<close>; both
  implementations are interpretations of it.
\<close>

unbundle bit_operations_syntax

section \<open>The base class\<close>

text \<open>
  \<open>class Reader\<close>: \<open>impl\<close> is the derived object (what the virtual functions see),
  \<open>initial_offset_\<close> the number of bytes read so far. \<open>rawReadNBytes\<close> copies bytes out of the
  buffer; its result is \<open>None\<close> where the implementation asserts, throws or reads outside of
  its buffer.
\<close>

record 'b reader =
  impl :: 'b
  initial_offset :: nat

type_synonym 'b length_fn = "'b \<Rightarrow> nat"
type_synonym 'b raw_read_fn = "'b \<Rightarrow> nat \<Rightarrow> nat \<Rightarrow> nat \<Rightarrow> bytes option"

definition u64_add :: "nat \<Rightarrow> nat \<Rightarrow> nat" where
  "u64_add a b = (a + b) mod 2 ^ 64"

lemma u64_add_small [simp]: "a + b < 2 ^ 64 \<Longrightarrow> u64_add a b = a + b"
  by (simp add: u64_add_def)

definition offset :: "'b reader \<Rightarrow> nat" where
  "offset r = initial_offset r"

definition byte_available :: "'b length_fn \<Rightarrow> 'b reader \<Rightarrow> nat" where
  "byte_available len r = u64_sub (len (impl r)) (offset r)"

definition read_n_bytes :: "'b raw_read_fn \<Rightarrow> 'b reader \<Rightarrow> nat \<Rightarrow> (bytes \<times> 'b reader) option" where
  "read_n_bytes raw r n = (case raw (impl r) (offset r) n 0 of
     None \<Rightarrow> None
   | Some bs \<Rightarrow> Some (bs, r\<lparr>initial_offset := u64_add (offset r) n\<rparr>))"

text \<open>
  \<open>template <typename T, ByteOrderType Endianness, size_t Size> peek(peek_offset)\<close>: the type
  \<open>T\<close> is the word type \<open>'a\<close> together with its signedness \<open>signed_t\<close>. The bytes read are placed in
  the zeroed object representation of \<open>T\<close>, converted from the endianness, and the sign bits
  are filled in when a signed \<open>T\<close> is wider than \<open>Size\<close>.
\<close>

definition peek ::
  "host \<Rightarrow> byte_order_type \<Rightarrow> nat \<Rightarrow> bool \<Rightarrow> 'b length_fn \<Rightarrow> 'b raw_read_fn \<Rightarrow> 'b reader \<Rightarrow> nat
   \<Rightarrow> (bool \<times> 'a::len word) option" where
  "peek h e sz signed_t len raw r peek_offset =
     (if u64_sub (byte_available len r) peek_offset < sz then Some (False, 0)
      else case raw (impl r) (offset r) sz peek_offset of
        None \<Rightarrow> None
      | Some bs \<Rightarrow>
          let sizeof = size_of TYPE('a);
              displacement = (if e = BigEndian then sizeof - sz else 0);
              mem = replicate displacement 0 @ bs @ replicate (sizeof - sz - displacement) 0;
              most_significant_read_byte = (if e = BigEndian then displacement else sz - 1);
              sign_extension_bits =
                (if signed_t \<and> sz < sizeof \<and> sint (mem ! most_significant_read_byte :: i8) < 0
                 then push_bit ((sz mod sizeof) * 8) (- 1) else 0)
          in Some (True, from_endian h e (of_mem h mem) OR sign_extension_bits))"

text \<open>The specialisation \<open>peek<uint8_t>\<close> of reader.cc.\<close>

definition peek_u8 ::
  "'b length_fn \<Rightarrow> 'b raw_read_fn \<Rightarrow> 'b reader \<Rightarrow> nat \<Rightarrow> (bool \<times> u8) option" where
  "peek_u8 len raw r peek_offset =
     (if u64_sub (byte_available len r) peek_offset < 1 then Some (False, 0)
      else case raw (impl r) (offset r) 1 peek_offset of
        None \<Rightarrow> None
      | Some bs \<Rightarrow> Some (True, hd bs))"

text \<open>\<open>read\<close>: peek at offset 0 and, when there was enough, move past what was read.\<close>

definition advance_if_read :: "nat \<Rightarrow> 'b reader \<Rightarrow> (bool \<times> 'v) option \<Rightarrow> ((bool \<times> 'v) \<times> 'b reader) option" where
  "advance_if_read sz r res = (case res of
     None \<Rightarrow> None
   | Some result \<Rightarrow>
       Some (result, if fst result then r\<lparr>initial_offset := u64_add (offset r) sz\<rparr> else r))"

definition read ::
  "host \<Rightarrow> byte_order_type \<Rightarrow> nat \<Rightarrow> bool \<Rightarrow> 'b length_fn \<Rightarrow> 'b raw_read_fn \<Rightarrow> 'b reader
   \<Rightarrow> ((bool \<times> 'a::len word) \<times> 'b reader) option" where
  "read h e sz signed_t len raw r = advance_if_read sz r (peek h e sz signed_t len raw r 0)"

definition read_u8 ::
  "'b length_fn \<Rightarrow> 'b raw_read_fn \<Rightarrow> 'b reader \<Rightarrow> ((bool \<times> u8) \<times> 'b reader) option" where
  "read_u8 len raw r = advance_if_read 1 r (peek_u8 len raw r 0)"

definition readBE ::
  "host \<Rightarrow> bool \<Rightarrow> 'b length_fn \<Rightarrow> 'b raw_read_fn \<Rightarrow> 'b reader
   \<Rightarrow> ((bool \<times> 'a::len word) \<times> 'b reader) option" where
  "readBE h signed_t len raw r = read h BigEndian (size_of TYPE('a)) signed_t len raw r"

definition readLE ::
  "host \<Rightarrow> bool \<Rightarrow> 'b length_fn \<Rightarrow> 'b raw_read_fn \<Rightarrow> 'b reader
   \<Rightarrow> ((bool \<times> 'a::len word) \<times> 'b reader) option" where
  "readLE h signed_t len raw r = read h LittleEndian (size_of TYPE('a)) signed_t len raw r"

definition peekBE ::
  "host \<Rightarrow> bool \<Rightarrow> 'b length_fn \<Rightarrow> 'b raw_read_fn \<Rightarrow> 'b reader \<Rightarrow> nat \<Rightarrow> (bool \<times> 'a::len word) option" where
  "peekBE h signed_t len raw r off = peek h BigEndian (size_of TYPE('a)) signed_t len raw r off"

definition peekLE ::
  "host \<Rightarrow> bool \<Rightarrow> 'b length_fn \<Rightarrow> 'b raw_read_fn \<Rightarrow> 'b reader \<Rightarrow> nat \<Rightarrow> (bool \<times> 'a::len word) option" where
  "peekLE h signed_t len raw r off = peek h LittleEndian (size_of TYPE('a)) signed_t len raw r off"

section \<open>StringReader and SliceReader\<close>

text \<open>
  \<open>StringReader::rawReadNBytes\<close>: the assertion, then \<open>string_view::substr\<close>, which throws when
  the position is past the end and shortens the view when it is not, then \<open>memcpy\<close> of \<open>len\<close>
  bytes, which reads outside of a shorter view.
\<close>

type_synonym string_reader = "bytes reader"

definition string_length :: "bytes length_fn" where
  "string_length buf = length buf"

definition string_raw_read :: "bytes raw_read_fn" where
  "string_raw_read buf off n peek_offset =
     (if \<not> n \<le> u64_add (u64_sub (length buf) off) peek_offset then None
      else let pos = u64_add off peek_offset in
        if length buf < pos then None
        else let data = take n (drop pos buf) in
          if length data < n then None else Some data)"

definition string_reader :: "bytes \<Rightarrow> string_reader" where
  "string_reader data = \<lparr>impl = data, initial_offset = 0\<rparr>"

text \<open>The \<open>Slice\<close> of the example: a pointer and a size; the memory behind the pointer is \<open>slice_data\<close>.\<close>

record slice =
  slice_data :: bytes
  slice_size :: nat

definition slice_length :: "slice length_fn" where
  "slice_length s = slice_size s"

definition slice_raw_read :: "slice raw_read_fn" where
  "slice_raw_read s off n peek_offset =
     (if \<not> n \<le> u64_add (u64_sub (slice_size s) off) peek_offset then None
      else let pos = u64_add off peek_offset in
        if length (slice_data s) < pos + n then None else Some (take n (drop pos (slice_data s))))"

section \<open>Sign extension\<close>

text \<open>
  The value an integer type gets from \<open>n\<close> bytes whose unsigned value is \<open>v\<close>: the two's
  complement reading when the type is signed.
\<close>

definition extended_value :: "bool \<Rightarrow> nat \<Rightarrow> nat \<Rightarrow> 'a::len word" where
  "extended_value signed_t n v =
     word_of_int (if signed_t \<and> 2 ^ (8 * n - 1) \<le> v then int v - 2 ^ (8 * n) else int v)"

lemma extended_full_width:
  assumes "byte_sized TYPE('a::len)"
  shows "extended_value signed_t (size_of TYPE('a)) v = (of_nat v :: 'a word)"
proof -
  have "LENGTH('a) = 8 * size_of TYPE('a)" using assms by (simp add: byte_sized_def size_of_def)
  then have "(word_of_int (2 ^ (8 * size_of TYPE('a))) :: 'a word) = 0"
    by (metis of_int_numeral of_int_power word_exp_length_eq_0)
  then show ?thesis by (simp add: extended_value_def)
qed

lemma sint_byte: "sint (b :: i8) = (if uint b < 128 then uint b else uint b - 256)"
proof -
  have "sint b = signed_take_bit 7 (uint b)" by (simp add: sint_uint)
  moreover have "uint b div 128 = 1" if "\<not> uint b < 128"
    using that uint_byte_bounds [of b] by arith
  ultimately show ?thesis
    using uint_byte_bounds [of b]
    by (cases "uint b < 128") (simp_all add: signed_take_bit_int_eq_self signed_take_bit_eq_take_bit_minus bit_iff_odd take_bit_eq_mod)
qed

lemma or_sign_extension:
  assumes "v < 2 ^ k"
  shows "(of_nat v OR push_bit k (- 1) :: 'a::len word) = word_of_int (int v - 2 ^ k)"
proof -
  have "take_bit k v = v" using assms by (simp add: take_bit_nat_eq_self)
  then have v: "bit v n \<Longrightarrow> n < k" for n
    by (metis bit_take_bit_iff)
  have "(of_nat v OR push_bit k (- 1) :: 'a word) = of_nat v + push_bit k (- 1)"
    by (rule disjunctive_add_eq_or [symmetric], rule bit_word_eqI)
      (auto simp: bit_simps dest: v)
  then show ?thesis by (simp add: push_bit_eq_mult)
qed
lemma le_val_append: "le_val (xs @ ys) = le_val xs + 256 ^ length xs * le_val ys"
  by (induction xs) (simp_all add: algebra_simps)

lemma le_val_zeros: "le_val (replicate n 0) = 0"
  by (induction n) simp_all

lemma le_val_append_zeros: "le_val (xs @ replicate n 0) = le_val xs"
  by (simp add: le_val_append le_val_zeros)

lemma le_digit_iff:
  assumes "r < (p :: nat)"
  shows "p * c \<le> r + p * d \<longleftrightarrow> c \<le> d"
proof
  assume "c \<le> d"
  then show "p * c \<le> r + p * d" by (simp add: trans_le_add2)
next
  assume "p * c \<le> r + p * d"
  with assms have "p * c < p * Suc d" by simp
  then show "c \<le> d" by (simp only: mult_less_cancel1 less_Suc_eq_le)
qed

lemma hd_negative_iff_be:
  assumes "bs \<noteq> []"
  shows "sint (hd bs :: i8) < 0 \<longleftrightarrow> 2 ^ (8 * length bs - 1) \<le> be_val bs"
proof -
  obtain b cs where bs: "bs = b # cs" using assms by (cases bs) auto
  have v: "be_val bs = be_val cs + 256 ^ length cs * unat b"
    by (simp add: bs be_val_def le_val_append)
  have e: "(2::nat) ^ (8 * length bs - 1) = 256 ^ length cs * 128"
    by (simp add: bs power_add power_mult)
  have "2 ^ (8 * length bs - 1) \<le> be_val bs \<longleftrightarrow> 128 \<le> unat b"
    unfolding v e using be_val_lt [of cs] by (rule le_digit_iff)
  moreover have "sint b < 0 \<longleftrightarrow> 128 \<le> unat b"
  proof -
    have "int (unat b) = uint b" by simp
    then show ?thesis using uint_byte_bounds [of b]
      by (cases "uint b < 128") (simp_all only: sint_byte if_True if_False, linarith+)
  qed
  ultimately show ?thesis by (simp add: bs)
qed

lemma sign_extension_BE:
  assumes sized: "byte_sized TYPE('a::len)" and len: "bs \<noteq> []" "length bs \<le> size_of TYPE('a)"
  shows "(of_nat (be_val bs) OR
      (if signed_t \<and> length bs < size_of TYPE('a) \<and> sint (hd bs :: i8) < 0
       then push_bit ((length bs mod size_of TYPE('a)) * 8) (- 1) else 0))
    = (extended_value signed_t (length bs) (be_val bs) :: 'a word)"
proof (cases "length bs = size_of TYPE('a)")
  case True
  then show ?thesis using extended_full_width [OF sized, of signed_t] by simp
next
  case False
  with len have lt: "length bs < size_of TYPE('a)" by simp
  have "be_val bs < 2 ^ (length bs * 8)"
    using be_val_lt [of bs] by (simp add: power_mult mult.commute [of "length bs"])
  then have ext: "(of_nat (be_val bs) OR push_bit (length bs * 8) (- 1) :: 'a word)
      = word_of_int (int (be_val bs) - 2 ^ (length bs * 8))"
    by (rule or_sign_extension)
  show ?thesis
    using lt ext hd_negative_iff_be [OF len(1)]
    by (cases "signed_t \<and> sint (hd bs) < 0") (auto simp: extended_value_def mult.commute)
qed

section \<open>The interface and its laws\<close>

text \<open>
  What the templates rely on: \<open>length\<close> is the size of the buffer's contents, and a raw read
  that stays inside the buffer returns the bytes at the current position plus \<open>peek_offset\<close>.
\<close>

locale reader_impl =
  fixes content :: "'b \<Rightarrow> bytes"
    and len :: "'b length_fn"
    and raw :: "'b raw_read_fn"
    and valid :: "'b \<Rightarrow> bool"
  assumes len_content: "valid b \<Longrightarrow> len b = length (content b)"
    and len_bound: "valid b \<Longrightarrow> length (content b) < 2 ^ 63"
    and raw_content: "valid b \<Longrightarrow> off + peek_off + n \<le> length (content b) \<Longrightarrow>
      raw b off n peek_off = Some (take n (drop (off + peek_off) (content b)))"
begin

definition unread :: "'b reader \<Rightarrow> bytes" where
  "unread r = drop (initial_offset r) (content (impl r))"

definition wf_reader :: "'b reader \<Rightarrow> bool" where
  "wf_reader r \<longleftrightarrow> valid (impl r) \<and> initial_offset r \<le> length (content (impl r))"

lemma byte_available_unread: "wf_reader r \<Longrightarrow> byte_available len r = length (unread r)"
  by (simp add: wf_reader_def byte_available_def offset_def len_content unread_def)

lemma raw_unread:
  assumes "wf_reader r" and "peek_off + n \<le> length (unread r)"
  shows "raw (impl r) (offset r) n peek_off = Some (take n (drop peek_off (unread r)))"
proof -
  have "initial_offset r + peek_off + n \<le> length (content (impl r))"
    using assms by (auto simp: wf_reader_def unread_def)
  then show ?thesis
    using assms by (simp add: raw_content offset_def unread_def wf_reader_def ac_simps)
qed

lemma wf_reader_advance:
  "wf_reader r \<Longrightarrow> n \<le> length (unread r) \<Longrightarrow> wf_reader (r\<lparr>initial_offset := offset r + n\<rparr>)"
  by (auto simp: wf_reader_def unread_def offset_def)

lemma unread_advance: "unread (r\<lparr>initial_offset := offset r + n\<rparr>) = drop n (unread r)"
  by (simp add: unread_def offset_def add.commute)

lemma u64_add_offset:
  "wf_reader r \<Longrightarrow> n \<le> length (unread r) \<Longrightarrow> u64_add (offset r) n = offset r + n"
  using len_bound [of "impl r"]
  by (auto simp: wf_reader_def unread_def offset_def intro!: u64_add_small)

lemma read_n_bytes_unread:
  assumes "wf_reader r" and "n \<le> length (unread r)"
  shows "read_n_bytes raw r n = Some (take n (unread r), r\<lparr>initial_offset := offset r + n\<rparr>)"
  using assms raw_unread [of r 0 n] by (simp add: read_n_bytes_def u64_add_offset)

lemma peek_short:
  assumes "wf_reader r" and "off \<le> length (unread r)" and "length (unread r) < off + sz"
  shows "peek h e sz signed_t len raw r off = Some (False, 0)"
  using assms by (simp add: peek_def byte_available_unread less_diff_conv2)

lemma peek_full_BE:
  assumes "byte_sized TYPE('a::len)" and "wf_reader r"
    and "off + size_of TYPE('a) \<le> length (unread r)"
  shows "peek h BigEndian (size_of TYPE('a)) signed_t len raw r off
         = Some (True, of_nat (be_val (take (size_of TYPE('a)) (drop off (unread r)))) :: 'a word)"
  using assms by (simp add: peek_def byte_available_unread raw_unread Let_def from_endian_of_mem_BE)

lemma peek_full_LE:
  assumes "byte_sized TYPE('a::len)" and "wf_reader r"
    and "off + size_of TYPE('a) \<le> length (unread r)"
  shows "peek h LittleEndian (size_of TYPE('a)) signed_t len raw r off
         = Some (True, of_nat (le_val (take (size_of TYPE('a)) (drop off (unread r)))) :: 'a word)"
  using assms by (simp add: peek_def byte_available_unread raw_unread Let_def from_endian_of_mem_LE)

lemma peek_u8_unread:
  assumes "wf_reader r"
  shows "peek_u8 len raw r 0
    = Some (case unread r of [] \<Rightarrow> (False, 0) | b # _ \<Rightarrow> (True, b))"
proof (cases "unread r")
  case (Cons b bs)
  then show ?thesis
    using assms raw_unread [of r 0 1] by (simp add: peek_u8_def byte_available_unread)
qed (use assms in \<open>simp add: peek_u8_def byte_available_unread\<close>)

lemma read_u8_unread:
  assumes "wf_reader r"
  shows "read_u8 len raw r = Some (case unread r of
      [] \<Rightarrow> ((False, 0), r)
    | b # _ \<Rightarrow> ((True, b), r\<lparr>initial_offset := offset r + 1\<rparr>))"
  using assms u64_add_offset [of r 1]
  by (cases "unread r") (simp_all add: read_u8_def peek_u8_unread advance_if_read_def)

lemma readBE_unread:
  assumes "byte_sized TYPE('a::len)" and "wf_reader r"
  shows "readBE h signed_t len raw r =
    (if length (unread r) < size_of TYPE('a) then Some ((False, 0), r)
     else Some ((True, of_nat (be_val (take (size_of TYPE('a)) (unread r))) :: 'a word),
                r\<lparr>initial_offset := offset r + size_of TYPE('a)\<rparr>))"
  using assms peek_full_BE [of r 0, where 'a = 'a]
  by (auto simp add: readBE_def read_def advance_if_read_def not_less u64_add_offset peek_short)

lemma readLE_unread:
  assumes "byte_sized TYPE('a::len)" and "wf_reader r"
  shows "readLE h signed_t len raw r =
    (if length (unread r) < size_of TYPE('a) then Some ((False, 0), r)
     else Some ((True, of_nat (le_val (take (size_of TYPE('a)) (unread r))) :: 'a word),
                r\<lparr>initial_offset := offset r + size_of TYPE('a)\<rparr>))"
  using assms peek_full_LE [of r 0, where 'a = 'a]
  by (auto simp add: readLE_def read_def advance_if_read_def not_less u64_add_offset peek_short)


text \<open>
  The \<open>Size < sizeof(T)\<close> form: the value of the bytes, sign-extended when \<open>T\<close> is signed.
\<close>

lemma peek_narrow_BE:
  assumes sized: "byte_sized TYPE('a::len)" and wf: "wf_reader r"
    and sz: "1 \<le> sz" "sz \<le> size_of TYPE('a)" and avail: "off + sz \<le> length (unread r)"
  shows "peek h BigEndian sz signed_t len raw r off
    = Some (True, extended_value signed_t sz (be_val (take sz (drop off (unread r)))) :: 'a word)"
proof -
  define bs where "bs = take sz (drop off (unread r))"
  have len: "length bs = sz" using avail by (simp add: bs_def)
  define mem where "mem = replicate (size_of TYPE('a) - sz) 0 @ bs"
  have len_mem: "length mem = size_of TYPE('a)" using sz by (simp add: mem_def len)
  have val: "be_val mem = be_val bs" by (simp add: mem_def be_val_def le_val_append_zeros)
  have msb: "mem ! (size_of TYPE('a) - sz) = hd bs"
    using sz len by (cases bs) (simp_all add: mem_def nth_append)
  have enough: "\<not> length (unread r) - off < sz" using avail by linarith
  have "peek h BigEndian sz signed_t len raw r off
    = Some (True, (of_nat (be_val bs) :: 'a word) OR
        (if signed_t \<and> sz < size_of TYPE('a) \<and> sint (hd bs :: i8) < 0
         then push_bit ((sz mod size_of TYPE('a)) * 8) (- 1) else 0))"
    using wf avail enough sz len_mem from_endian_of_mem_BE [OF sized len_mem, of h]
    by (simp add: peek_def byte_available_unread raw_unread Let_def msb [unfolded mem_def]
        flip: bs_def) (simp add: val flip: mem_def)
  also have "\<dots> = Some (True, extended_value signed_t sz (be_val bs))"
    using sign_extension_BE [OF sized, of bs signed_t, unfolded len] sz len
    by (cases "bs = []") (simp_all only: list.size, simp_all)
  finally show ?thesis by (simp add: bs_def)
qed

end

lemma u64_raw_guard:
  "off + p + n \<le> l \<Longrightarrow> l < 2 ^ 63 \<Longrightarrow> n \<le> u64_add (l - off) p \<and> u64_add off p = off + p"
  by (simp add: u64_add_def)

text \<open>
  Both readers satisfy the laws. A C++ object holds fewer than \<open>2 ^ 63\<close> bytes (\<open>PTRDIFF_MAX\<close>); a
  slice is valid when its size is the size of its memory.
\<close>

definition valid_buffer :: "bytes \<Rightarrow> bool" where
  "valid_buffer buf \<longleftrightarrow> length buf < 2 ^ 63"

definition valid_slice :: "slice \<Rightarrow> bool" where
  "valid_slice s \<longleftrightarrow> slice_size s = length (slice_data s) \<and> slice_size s < 2 ^ 63"

interpretation str: reader_impl "\<lambda>buf. buf" string_length string_raw_read valid_buffer
  by unfold_locales
    (auto simp: string_length_def string_raw_read_def valid_buffer_def Let_def u64_raw_guard)

interpretation slc: reader_impl slice_data slice_length slice_raw_read valid_slice
  by unfold_locales
    (auto simp: slice_length_def slice_raw_read_def valid_slice_def Let_def u64_raw_guard)


section \<open>Properties\<close>

text \<open>
  C14. Reading a big-endian integer from a \<open>StringReader\<close>: with fewer than \<open>sizeof(T)\<close> bytes left
  the read fails and the position stays, otherwise it returns the value of the next
  \<open>sizeof(T)\<close> bytes and moves past them; on either host.
\<close>

theorem string_readBE_spec:
  assumes "byte_sized TYPE('a::len)"
    and "length buf < 2 ^ 63" and "pos \<le> length buf"
  shows "readBE h signed_t string_length string_raw_read \<lparr>impl = buf, initial_offset = pos\<rparr> =
    (if length buf - pos < size_of TYPE('a)
     then Some ((False, 0 :: 'a word), \<lparr>impl = buf, initial_offset = pos\<rparr>)
     else Some ((True, of_nat (be_val (take (size_of TYPE('a)) (drop pos buf)))),
                \<lparr>impl = buf, initial_offset = pos + size_of TYPE('a)\<rparr>))"
  using assms
  by (simp add: str.readBE_unread str.wf_reader_def str.unread_def valid_buffer_def offset_def)

theorem string_readBE_spec_witness:
  "readBE Little_Host True string_length string_raw_read
     \<lparr>impl = [0x49, 0xff, 0xff, 0xff, 0xfe], initial_offset = 1\<rparr>
   = Some ((True, - 2 :: 32 word), \<lparr>impl = [0x49, 0xff, 0xff, 0xff, 0xfe], initial_offset = 5\<rparr>)"
  using string_readBE_spec [of "[0x49, 0xff, 0xff, 0xff, 0xfe]" 1 Little_Host True, where 'a = 32]
  by (simp add: be_val_def)

text \<open>
  Peeking fewer bytes than the integer type has: the value of the bytes, zero-extended for
  an unsigned type and sign-extended for a signed one.
\<close>

theorem string_peek_sign_extends:
  assumes "byte_sized TYPE('a::len)" and "length buf < 2 ^ 63"
    and "1 \<le> sz" and "sz \<le> size_of TYPE('a)" and "pos + off + sz \<le> length buf"
  shows "peek h BigEndian sz signed_t string_length string_raw_read
      \<lparr>impl = buf, initial_offset = pos\<rparr> off
    = Some (True, extended_value signed_t sz (be_val (take sz (drop (pos + off) buf))) :: 'a word)"
  using assms
    str.peek_narrow_BE [of "\<lparr>impl = buf, initial_offset = pos\<rparr>" sz off h signed_t, where 'a = 'a]
  by (simp add: str.wf_reader_def str.unread_def valid_buffer_def add.commute)

theorem string_peek_sign_extends_witness:
  "peek Little_Host BigEndian 2 True string_length string_raw_read
      \<lparr>impl = [0x5e, 0xff, 0x80], initial_offset = 0\<rparr> 1 = Some (True, - 128 :: 32 word)"
  using string_peek_sign_extends [of "[0x5e, 0xff, 0x80]" 2 0 1 Little_Host True, where 'a = 32]
  by (simp add: be_val_def extended_value_def)

text \<open>
  Peeking at an offset beyond the unread bytes is not rejected: the unsigned difference
  \<open>byteAvailable() - peek_offset\<close> wraps around, the length check passes, and the raw read goes
  out of range instead of \<open>peek\<close> returning a failure.
\<close>

theorem string_peek_past_end_aborts:
  assumes "pos \<le> length buf" and "length buf < pos + off" and "pos + off < 2 ^ 63" and "sz \<le> 8"
  shows "peek h e sz signed_t string_length string_raw_read \<lparr>impl = buf, initial_offset = pos\<rparr> off
    = (None :: (bool \<times> 'a::len word) option)"
proof -
  have "\<not> off \<le> length buf - pos" "\<not> length buf - pos + 2 ^ 64 - off < sz" "off < 2 ^ 64"
    using assms by simp_all
  then have "\<not> u64_sub (length buf - pos) off < sz"
    by (simp add: u64_sub_def)
  moreover have "u64_add pos off = pos + off" using assms by simp
  ultimately show ?thesis
    using assms by (simp add: peek_def byte_available_def string_length_def string_raw_read_def offset_def)
qed

theorem string_peek_past_end_aborts_witness:
  "peek Little_Host BigEndian 4 True string_length string_raw_read
      \<lparr>impl = [1, 2, 3], initial_offset = 0\<rparr> 5 = (None :: (bool \<times> 32 word) option)"
  using string_peek_past_end_aborts [of 0 "[1, 2, 3]" 5 4 Little_Host BigEndian True, where 'a = 32]
  by simp



end
