(* ===== verification/Writer.thy ===== *)
theory Writer
  imports Byte_Order
begin

text \<open>
  The writer (src/hessian2/writer.hpp, string_writer.hpp): the \<open>writeByte\<close> and \<open>write\<close> (here \<open>write_int\<close>) templates
  over the virtual \<open>rawWrite\<close>, and two implementations, \<open>StringWriter\<close> and the \<open>VectorWriter\<close>
  of src/example/reader_writer.cc. What the templates rely on is the locale \<open>writer_impl\<close>.
\<close>

section \<open>The base class\<close>

type_synonym 'w raw_write_fn = "'w \<Rightarrow> bytes \<Rightarrow> 'w"

definition write_byte :: "'w raw_write_fn \<Rightarrow> u8 \<Rightarrow> 'w \<Rightarrow> 'w" where
  "write_byte raw value w = raw w [value]"

text \<open>\<open>writeByte(T value)\<close>: the argument converted to \<open>uint8_t\<close>.\<close>

definition write_byte_of :: "'w raw_write_fn \<Rightarrow> int \<Rightarrow> 'w \<Rightarrow> 'w" where
  "write_byte_of raw value w = write_byte raw (word_of_int value) w"

definition write_int :: "host \<Rightarrow> byte_order_type \<Rightarrow> 'w raw_write_fn \<Rightarrow> 'a::len word \<Rightarrow> 'w \<Rightarrow> 'w" where
  "write_int h e raw value w = raw w (mem_of h (to_endian h e value))"

definition writeLE :: "host \<Rightarrow> 'w raw_write_fn \<Rightarrow> 'a::len word \<Rightarrow> 'w \<Rightarrow> 'w" where
  "writeLE h raw value w = write_int h LittleEndian raw value w"

definition writeBE :: "host \<Rightarrow> 'w raw_write_fn \<Rightarrow> 'a::len word \<Rightarrow> 'w \<Rightarrow> 'w" where
  "writeBE h raw value w = write_int h BigEndian raw value w"

section \<open>StringWriter and VectorWriter\<close>

text \<open>\<open>StringWriter::rawWrite\<close> appends to the string, \<open>VectorWriter::rawWrite\<close> pushes byte by byte.\<close>

definition string_raw_write :: "bytes raw_write_fn" where
  "string_raw_write data src = data @ src"

fun vector_raw_write :: "bytes raw_write_fn" where
  "vector_raw_write data [] = data"
| "vector_raw_write data (ch # src) = vector_raw_write (data @ [ch]) src"

section \<open>The interface and its laws\<close>

locale writer_impl =
  fixes written :: "'w \<Rightarrow> bytes"
    and raw :: "'w raw_write_fn"
  assumes raw_appends: "written (raw w bs) = written w @ bs"
begin

lemma written_write_byte: "written (write_byte raw b w) = written w @ [b]"
  by (simp add: write_byte_def raw_appends)

lemma written_writeBE:
  "byte_sized TYPE('a::len) \<Longrightarrow>
    written (writeBE h raw (v :: 'a word) w) = written w @ be_bytes (size_of TYPE('a)) (unat v)"
  by (simp add: writeBE_def write_int_def raw_appends mem_of_to_endian_BE)

lemma written_writeLE:
  "byte_sized TYPE('a::len) \<Longrightarrow>
    written (writeLE h raw (v :: 'a word) w) = written w @ le_bytes (size_of TYPE('a)) (unat v)"
  by (simp add: writeLE_def write_int_def raw_appends mem_of_to_endian_LE)

end

lemma vector_raw_write_appends: "vector_raw_write data src = data @ src"
  by (induction data src rule: vector_raw_write.induct) simp_all

interpretation strw: writer_impl "\<lambda>data. data" string_raw_write
  by unfold_locales (simp add: string_raw_write_def)

interpretation vecw: writer_impl "\<lambda>data. data" vector_raw_write
  by unfold_locales (simp add: vector_raw_write_appends)

end
