(* ===== verification/Codec.thy ===== *)
theory Codec
  imports Reader Writer
begin

text \<open>
  The state of a \<open>Decoder\<close> and of an \<open>Encoder\<close> (src/hessian2/codec.hpp), their accessors and
  error messages, the reader and writer calls as steps on that state, and the two notions the
  codecs are specified with: \<open>encodes m bs\<close> (running \<open>m\<close> appends \<open>bs\<close> and returns true) and
  \<open>decodes m bs v\<close> (on unread input that starts with \<open>bs\<close>, \<open>m\<close> returns \<open>v\<close> and moves past
  \<open>bs\<close>). The locale \<open>value_codec\<close> is the contract of an encoder and a decoder of one type.
\<close>

section \<open>Class definitions and addresses\<close>

text \<open>
  \<open>Object::RawDefinition\<close>: a type name and field names. \<open>addr\<close> stands for the address of an
  object (\<open>Object*\<close>); a decoder allocates addresses from the counter \<open>d_next\<close>, and \<open>d_dead\<close> holds
  those whose object cannot be hashed (yet, or any more).
\<close>

record raw_definition =
  def_type :: bytes
  field_names :: "bytes list"

type_synonym addr = nat

section \<open>Decoder\<close>

datatype decode_error_code = NO_DECODE_ERROR | NOT_ENOUGH_BUFFER | UNEXPECTED_TYPE

record decoder =
  d_reader :: string_reader
  d_types :: "bytes list"
  d_defs :: "raw_definition list"
  d_values :: "addr list"
  d_error_code :: decode_error_code
  d_error_pos :: i32
  d_next :: addr
  d_dead :: "addr list"

definition new_decoder :: "bytes \<Rightarrow> decoder" where
  "new_decoder input = \<lparr>d_reader = string_reader input, d_types = [], d_defs = [], d_values = [],
     d_error_code = NO_DECODE_ERROR, d_error_pos = 0, d_next = 0, d_dead = []\<rparr>"

definition d_offset :: "decoder \<Rightarrow> nat" where
  "d_offset d = offset (d_reader d)"

definition d_getTypeRefSize :: "decoder \<Rightarrow> u16" where
  "d_getTypeRefSize d = of_nat (length (d_types d))"

definition d_getDefRefSize :: "decoder \<Rightarrow> u16" where
  "d_getDefRefSize d = of_nat (length (d_defs d))"

definition d_errorCodeToString :: "decoder \<Rightarrow> string" where
  "d_errorCodeToString d = (case d_error_code d of
     NO_DECODE_ERROR \<Rightarrow> ''''
   | NOT_ENOUGH_BUFFER \<Rightarrow> ''There is not enough buffer''
   | UNEXPECTED_TYPE \<Rightarrow> ''Unexpected type'')"

text \<open>
  \<open>getErrorMessage\<close>; \<open>StrFormat\<close> of the abseil library is the parameter \<open>str_format\<close> (format,
  position, message).
\<close>

definition d_getErrorMessage :: "(string \<Rightarrow> i32 \<Rightarrow> string \<Rightarrow> string) \<Rightarrow> decoder \<Rightarrow> string" where
  "d_getErrorMessage str_format d =
     (if d_error_pos d = 0
      then str_format ''pos: %d, %s'' (d_error_pos d) (d_errorCodeToString d)
      else d_errorCodeToString d)"

text \<open>The reader's operations on the decoder's reader. An out-of-range raw read aborts.\<close>

definition lift_read :: "(string_reader \<Rightarrow> ('v \<times> string_reader) option) \<Rightarrow> (decoder, 'v) comp" where
  "lift_read f = (\<lambda>d. case f (d_reader d) of
     None \<Rightarrow> (Abort, d)
   | Some (v, r) \<Rightarrow> (Ret v, d\<lparr>d_reader := r\<rparr>))"

definition dec_read_u8 :: "(decoder, bool \<times> u8) comp" where
  "dec_read_u8 = lift_read (read_u8 string_length string_raw_read)"

definition dec_peek_u8 :: "(decoder, bool \<times> u8) comp" where
  "dec_peek_u8 = lift_read (\<lambda>r. map_option (\<lambda>v. (v, r)) (peek_u8 string_length string_raw_read r 0))"

text \<open>
  \<open>readBE<T>\<close> on a little-endian host (\<open>string_readBE_spec\<close> shows that the host does not matter);
  at \<open>Size = sizeof(T)\<close> the signedness of \<open>T\<close> does not matter either.
\<close>

definition dec_readBE :: "(decoder, bool \<times> 'a::len word) comp" where
  "dec_readBE = lift_read (readBE Little_Host True string_length string_raw_read)"

definition dec_read_n_bytes :: "nat \<Rightarrow> (decoder, bytes) comp" where
  "dec_read_n_bytes n = lift_read (\<lambda>r. read_n_bytes string_raw_read r n)"

definition dec_byte_available :: "(decoder, nat) comp" where
  "dec_byte_available = gets (\<lambda>d. byte_available string_length (d_reader d))"

section \<open>Encoder\<close>

datatype encode_error_code = NO_ENCODE_ERROR

text \<open>
  \<open>e_out\<close> is the string behind the \<open>StringWriter\<close>. The unordered maps \<open>types_ref_\<close> and
  \<open>values_ref_\<close> are association lists in insertion order with distinct keys.
\<close>

record encoder =
  e_out :: bytes
  e_types :: "(bytes \<times> u16) list"
  e_defs :: "raw_definition list"
  e_values :: "(addr \<times> u16) list"
  e_error_code :: encode_error_code

definition new_encoder :: "bytes \<Rightarrow> encoder" where
  "new_encoder output = \<lparr>e_out = output, e_types = [], e_defs = [], e_values = [],
     e_error_code = NO_ENCODE_ERROR\<rparr>"

definition e_getTypeRefSize :: "encoder \<Rightarrow> u16" where
  "e_getTypeRefSize e = of_nat (length (e_types e))"

definition e_getDefRefSize :: "encoder \<Rightarrow> u16" where
  "e_getDefRefSize e = of_nat (length (e_defs e))"

definition e_getValueRefSize :: "encoder \<Rightarrow> u16" where
  "e_getValueRefSize e = of_nat (length (e_values e))"

definition e_errorCodeToString :: "encoder \<Rightarrow> string" where
  "e_errorCodeToString e = (case e_error_code e of NO_ENCODE_ERROR \<Rightarrow> '''')"

text \<open>\<open>unordered_map::emplace\<close>: no effect when the key is present.\<close>

definition emplace :: "'k \<Rightarrow> u16 \<Rightarrow> ('k \<times> u16) list \<Rightarrow> ('k \<times> u16) list" where
  "emplace k v m = (case map_of m k of Some _ \<Rightarrow> m | None \<Rightarrow> m @ [(k, v)])"

text \<open>The three lookups return \<open>int16_t\<close>: the index converted from \<open>uint16_t\<close>, or \<open>-1\<close>.\<close>

definition getTypeRef :: "bytes \<Rightarrow> encoder \<Rightarrow> i16" where
  "getTypeRef search e = (case map_of (e_types e) search of Some r \<Rightarrow> r | None \<Rightarrow> - 1)"

definition getValueRef :: "addr \<Rightarrow> encoder \<Rightarrow> i16" where
  "getValueRef o_addr e = (case map_of (e_values e) o_addr of Some r \<Rightarrow> r | None \<Rightarrow> - 1)"

fun def_index :: "raw_definition list \<Rightarrow> raw_definition \<Rightarrow> nat option" where
  "def_index [] x = None"
| "def_index (y # ys) x =
     (if def_type y = def_type x \<and> field_names y = field_names x then Some 0
      else map_option Suc (def_index ys x))"

text \<open>
  \<open>getDefRef\<close> counts with a \<open>uint16_t\<close>: with more than 65535 definitions and no match among the
  first 65536 the counter wraps around and the loop does not end.
\<close>

definition getDefRef :: "raw_definition \<Rightarrow> (encoder, i16) comp" where
  "getDefRef x = (\<lambda>e. case def_index (take 65536 (e_defs e)) x of
     Some i \<Rightarrow> (Ret (of_nat i), e)
   | None \<Rightarrow> if 65535 < length (e_defs e) then (Hang, e) else (Ret (- 1), e))"

text \<open>The writer's operations on the encoder's writer.\<close>

definition lift_write :: "(bytes \<Rightarrow> bytes) \<Rightarrow> (encoder, unit) comp" where
  "lift_write f = modify (\<lambda>e. e\<lparr>e_out := f (e_out e)\<rparr>)"

definition enc_write_byte :: "int \<Rightarrow> (encoder, unit) comp" where
  "enc_write_byte v = lift_write (write_byte_of string_raw_write v)"

definition enc_writeBE :: "'a::len word \<Rightarrow> (encoder, unit) comp" where
  "enc_writeBE v = lift_write (writeBE Little_Host string_raw_write v)"

definition enc_raw_write :: "bytes \<Rightarrow> (encoder, unit) comp" where
  "enc_raw_write bs = lift_write (\<lambda>w. string_raw_write w bs)"

section \<open>Steps on the encoder\<close>

text \<open>Appending to the output; \<open>emit\<close> is the only effect of the primitive encoders.\<close>

definition emit :: "bytes \<Rightarrow> encoder \<Rightarrow> encoder" where
  "emit bs e = e\<lparr>e_out := e_out e @ bs\<rparr>"

lemma emit_simps [simp]:
  "e_out (emit bs e) = e_out e @ bs" "e_types (emit bs e) = e_types e"
  "e_defs (emit bs e) = e_defs e" "e_values (emit bs e) = e_values e"
  "emit [] e = e" "emit cs (emit bs e) = emit (bs @ cs) e"
  by (simp_all add: emit_def)

lemma enc_write_byte_run [simp]: "enc_write_byte v e = (Ret (), emit [word_of_int v] e)"
  by (simp add: enc_write_byte_def lift_write_def write_byte_of_def strw.written_write_byte emit_def)

lemma enc_raw_write_run [simp]: "enc_raw_write bs e = (Ret (), emit bs e)"
  by (simp add: enc_raw_write_def lift_write_def strw.raw_appends emit_def)

lemma enc_writeBE_run [simp]:
  "byte_sized TYPE('a::len) \<Longrightarrow>
    enc_writeBE (v :: 'a word) e = (Ret (), emit (be_bytes (size_of TYPE('a)) (unat v)) e)"
  by (simp add: enc_writeBE_def lift_write_def strw.written_writeBE emit_def)

definition encodes :: "(encoder, bool) comp \<Rightarrow> bytes \<Rightarrow> bool" where
  "encodes m bs \<longleftrightarrow> (\<forall>e. m e = (Ret True, emit bs e))"

lemma encodesD: "encodes m bs \<Longrightarrow> m e = (Ret True, emit bs e)"
  by (simp add: encodes_def)

lemma and_then_write_run [simp]:
  "and_then (enc_write_byte v) f e = f () (emit [word_of_int v] e)"
  "and_then (enc_raw_write bs) f e = f () (emit bs e)"
  by (simp_all add: and_then_def)

lemma and_then_writeBE_run [simp]:
  "byte_sized TYPE('a::len) \<Longrightarrow>
    and_then (enc_writeBE (v :: 'a word)) f e = f () (emit (be_bytes (size_of TYPE('a)) (unat v)) e)"
  by (simp add: and_then_def)

section \<open>Steps on the decoder\<close>

definition wf_decoder :: "decoder \<Rightarrow> bool" where
  "wf_decoder d \<longleftrightarrow> str.wf_reader (d_reader d)"

definition unread :: "decoder \<Rightarrow> bytes" where
  "unread d = str.unread (d_reader d)"

definition advance :: "nat \<Rightarrow> decoder \<Rightarrow> decoder" where
  "advance n d = d\<lparr>d_reader := (d_reader d)\<lparr>initial_offset := offset (d_reader d) + n\<rparr>\<rparr>"

lemma advance_simps [simp]:
  "d_types (advance n d) = d_types d" "d_defs (advance n d) = d_defs d"
  "d_values (advance n d) = d_values d" "d_next (advance n d) = d_next d" "d_dead (advance n d) = d_dead d"
  "d_error_code (advance n d) = d_error_code d" "d_error_pos (advance n d) = d_error_pos d"
  "d_offset (advance n d) = d_offset d + n"
  "advance m (advance n d) = advance (n + m) d" "advance 0 d = d"
  by (simp_all add: advance_def d_offset_def offset_def)

lemma unread_after_advance [simp]: "unread (advance n d) = drop n (unread d)"
  by (simp add: unread_def advance_def str.unread_advance)

lemma wf_decoder_advance [simp]:
  "wf_decoder d \<Longrightarrow> n \<le> length (unread d) \<Longrightarrow> wf_decoder (advance n d)"
  by (simp add: wf_decoder_def unread_def advance_def str.wf_reader_advance)

lemma unread_new_decoder [simp]: "unread (new_decoder bs) = bs"
  by (simp add: unread_def new_decoder_def string_reader_def str.unread_def)

lemma wf_new_decoder [simp]: "length bs < 2 ^ 63 \<Longrightarrow> wf_decoder (new_decoder bs)"
  by (simp add: wf_decoder_def new_decoder_def string_reader_def str.wf_reader_def valid_buffer_def)

lemma new_decoder_simps [simp]:
  "d_offset (new_decoder bs) = 0" "d_types (new_decoder bs) = []" "d_defs (new_decoder bs) = []"
  "d_values (new_decoder bs) = []" "d_next (new_decoder bs) = 0" "d_dead (new_decoder bs) = []" "d_error_pos (new_decoder bs) = 0"
  "d_error_code (new_decoder bs) = NO_DECODE_ERROR"
  by (simp_all add: new_decoder_def d_offset_def offset_def string_reader_def)

lemma dec_byte_available_run [simp]:
  "wf_decoder d \<Longrightarrow> dec_byte_available d = (Ret (length (unread d)), d)"
  by (simp add: dec_byte_available_def wf_decoder_def unread_def str.byte_available_unread)

lemma dec_read_u8_run:
  "wf_decoder d \<Longrightarrow> dec_read_u8 d = (case unread d of
     [] \<Rightarrow> (Ret (False, 0), d) | b # _ \<Rightarrow> (Ret (True, b), advance 1 d))"
  by (simp add: dec_read_u8_def lift_read_def wf_decoder_def unread_def str.read_u8_unread
      advance_def split: list.splits)

lemma dec_peek_u8_run:
  "wf_decoder d \<Longrightarrow> dec_peek_u8 d = (case unread d of
     [] \<Rightarrow> (Ret (False, 0), d) | b # _ \<Rightarrow> (Ret (True, b), d))"
  by (simp add: dec_peek_u8_def lift_read_def wf_decoder_def unread_def str.peek_u8_unread
      split: list.splits)

lemma dec_readBE_run:
  assumes "byte_sized TYPE('a::len)" and "wf_decoder d"
  shows "dec_readBE d = (if length (unread d) < size_of TYPE('a) then (Ret (False, 0), d)
    else (Ret (True, of_nat (be_val (take (size_of TYPE('a)) (unread d))) :: 'a word),
          advance (size_of TYPE('a)) d))"
  using assms by (simp add: dec_readBE_def lift_read_def wf_decoder_def unread_def
      str.readBE_unread advance_def)

lemma dec_read_n_bytes_run:
  "wf_decoder d \<Longrightarrow> n \<le> length (unread d) \<Longrightarrow>
    dec_read_n_bytes n d = (Ret (take n (unread d)), advance n d)"
  by (simp add: dec_read_n_bytes_def lift_read_def wf_decoder_def unread_def
      str.read_n_bytes_unread advance_def)

text \<open>
  \<open>decodes m bs v\<close>: whatever follows \<open>bs\<close> in the buffer, \<open>m\<close> returns \<open>v\<close>, moves past exactly
  \<open>bs\<close> and changes nothing else.
\<close>

definition decodes :: "(decoder, 'v) comp \<Rightarrow> bytes \<Rightarrow> 'v \<Rightarrow> bool" where
  "decodes m bs v \<longleftrightarrow> (\<forall>d rest. wf_decoder d \<longrightarrow> unread d = bs @ rest \<longrightarrow>
     m d = (Ret v, advance (length bs) d))"

lemma decodesI:
  "(\<And>d rest. wf_decoder d \<Longrightarrow> unread d = bs @ rest \<Longrightarrow> m d = (Ret v, advance (length bs) d))
   \<Longrightarrow> decodes m bs v"
  by (simp add: decodes_def)

lemma decodesD:
  "decodes m bs v \<Longrightarrow> wf_decoder d \<Longrightarrow> unread d = bs @ rest \<Longrightarrow> m d = (Ret v, advance (length bs) d)"
  by (simp add: decodes_def)

named_theorems decodes_intros \<open>introduction rules for decodes\<close>

lemma decodes_ret [decodes_intros]: "decodes (ret v) [] v"
  by (simp add: decodes_def)

lemma decodes_and_then:
  assumes m: "decodes m bs v" and f: "decodes (f v) cs w"
  shows "decodes (and_then m f) (bs @ cs) w"
proof (rule decodesI)
  fix d rest assume d: "wf_decoder d" "unread d = (bs @ cs) @ rest"
  then have "m d = (Ret v, advance (length bs) d)" by (auto intro: decodesD [OF m])
  moreover have "f v (advance (length bs) d) = (Ret w, advance (length cs) (advance (length bs) d))"
    using d by (intro decodesD [OF f, where rest = rest]) auto
  ultimately show "and_then m f d = (Ret w, advance (length (bs @ cs)) d)"
    by (simp add: and_then_def)
qed

lemma decodes_then_pure:
  "decodes m bs v \<Longrightarrow> decodes (f v) [] w \<Longrightarrow> decodes (and_then m f) bs w"
  using decodes_and_then [of m bs v f "[]" w] by simp

lemma decodes_read_u8 [decodes_intros]: "decodes dec_read_u8 [b] (True, b)"
  by (auto simp: decodes_def dec_read_u8_run)

lemma decodes_read_u8_then:
  "decodes (f (True, b)) bs w \<Longrightarrow> decodes (and_then dec_read_u8 f) (b # bs) w"
  using decodes_and_then [OF decodes_read_u8, of f b bs w] by simp

lemma decodes_peek_u8_then:
  "decodes (f (True, b)) (b # bs) w \<Longrightarrow> decodes (and_then dec_peek_u8 f) (b # bs) w"
  by (auto simp: decodes_def and_then_def dec_peek_u8_run)

lemma decodes_readBE:
  "byte_sized TYPE('a::len) \<Longrightarrow> length bs = size_of TYPE('a) \<Longrightarrow>
    decodes dec_readBE bs (True, of_nat (be_val bs) :: 'a word)"
  by (auto simp: decodes_def dec_readBE_run)

lemma decodes_readBE_be_bytes:
  "byte_sized TYPE('a::len) \<Longrightarrow>
    decodes dec_readBE (be_bytes (size_of TYPE('a)) (unat w)) (True, w :: 'a word)"
  using decodes_readBE [of "be_bytes (size_of TYPE('a)) (unat w)", where 'a = 'a]
  by (simp add: of_nat_be_val_be_bytes)

lemma decodes_readBE_then:
  "byte_sized TYPE('a::len) \<Longrightarrow> decodes (f (True, w :: 'a word)) bs x \<Longrightarrow>
    decodes (and_then dec_readBE f) (be_bytes (size_of TYPE('a)) (unat w) @ bs) x"
  by (rule decodes_and_then [OF decodes_readBE_be_bytes])

lemma decodes_readBE_u8_then:
  "decodes (f (True, b :: u8)) bs w \<Longrightarrow> decodes (and_then dec_readBE f) (b # bs) w"
  using decodes_readBE_then [of f b bs w] by (simp add: be_bytes_def unat_byte_lt)

lemma decodes_available_then:
  "(\<And>k. length bs \<le> k \<Longrightarrow> decodes (f k) bs w) \<Longrightarrow> decodes (and_then dec_byte_available f) bs w"
  by (auto simp: decodes_def and_then_def)

lemma decodes_read_n_bytes_then:
  "decodes (f bs) cs w \<Longrightarrow> decodes (and_then (dec_read_n_bytes (length bs)) f) (bs @ cs) w"
  by (rule decodes_and_then) (auto simp: decodes_def dec_read_n_bytes_run)

section \<open>Safety of decoders\<close>

text \<open>
  \<open>well_run ab n m\<close>: from any well-formed state with at most \<open>n\<close> unread bytes, \<open>m\<close> returns,
  aborts only where \<open>ab\<close> allows it, keeps the state well-formed and never moves backwards.
  \<open>safe m\<close>: on any input \<open>m\<close> returns, with no failed assertion and no read outside the buffer.
\<close>

definition well_run :: "bool \<Rightarrow> nat \<Rightarrow> (decoder, 'v) comp \<Rightarrow> bool" where
  "well_run ab n m \<longleftrightarrow> (\<forall>d r d'. wf_decoder d \<longrightarrow> length (unread d) \<le> n \<longrightarrow> m d = (r, d') \<longrightarrow>
     r \<noteq> Hang \<and> (r = Abort \<longrightarrow> ab) \<and> wf_decoder d' \<and> (\<exists>j. unread d' = drop j (unread d)))"

definition safe :: "(decoder, 'v) comp \<Rightarrow> bool" where
  "safe m \<longleftrightarrow> (\<forall>d r d'. wf_decoder d \<longrightarrow> m d = (r, d') \<longrightarrow>
     r \<noteq> Abort \<and> r \<noteq> Hang \<and> wf_decoder d' \<and> (\<exists>j. unread d' = drop j (unread d)))"

named_theorems safe_intros \<open>introduction rules for safe\<close>
named_theorems well_run_intros \<open>introduction rules for well_run\<close>

lemma safeD:
  assumes "safe m" "wf_decoder d" "m d = (r, d')"
  shows "r \<noteq> Abort" "r \<noteq> Hang" "wf_decoder d'" "\<exists>j. unread d' = drop j (unread d)"
  using assms by (auto simp: safe_def)

lemma well_runD:
  assumes "well_run ab n m" "wf_decoder d" "length (unread d) \<le> n" "m d = (r, d')"
  shows "r \<noteq> Hang" "r = Abort \<Longrightarrow> ab" "wf_decoder d'" "\<exists>j. unread d' = drop j (unread d)"
    "length (unread d') \<le> length (unread d)"
proof -
  show "r \<noteq> Hang" "r = Abort \<Longrightarrow> ab" "wf_decoder d'" and j: "\<exists>j. unread d' = drop j (unread d)"
    using assms by (auto simp: well_run_def)
  show "length (unread d') \<le> length (unread d)" using j by auto
qed

lemma well_run_safe: "safe m \<Longrightarrow> well_run ab n m"
  by (auto simp: safe_def well_run_def)

lemma safe_iff_well_run: "safe m \<longleftrightarrow> (\<forall>n. well_run False n m)"
  by (auto simp: safe_def well_run_def) blast+

lemma safeI: "(\<And>n. well_run False n m) \<Longrightarrow> safe m"
  by (simp add: safe_iff_well_run)

lemma well_run_mono: "well_run ab n m \<Longrightarrow> k \<le> n \<Longrightarrow> well_run ab k m"
  by (auto simp: well_run_def)

lemma well_run_abort [well_run_intros]: "well_run True n abort"
  by (auto simp: well_run_def intro: exI [of _ 0])

lemma well_run_and_then [well_run_intros]:
  assumes m: "well_run ab n m" and f: "\<And>x. well_run ab n (f x)"
  shows "well_run ab n (and_then m f)"
  unfolding well_run_def
proof (intro allI impI)
  fix d r d' assume d: "wf_decoder d" "length (unread d) \<le> n" and run: "and_then m f d = (r, d')"
  obtain r1 d1 where m1: "m d = (r1, d1)" by (cases "m d")
  note s1 = well_runD [OF m d m1]
  show "r \<noteq> Hang \<and> (r = Abort \<longrightarrow> ab) \<and> wf_decoder d' \<and> (\<exists>j. unread d' = drop j (unread d))"
  proof (cases r1)
    case (Ret x)
    with run m1 have "f x d1 = (r, d')" by (simp add: and_then_def)
    from well_runD [OF f s1(3) _ this] s1(4,5) d(2) show ?thesis by (auto simp: drop_drop)
  qed (use run m1 s1 in \<open>auto simp: and_then_def\<close>)
qed

lemma well_run_if [well_run_intros]:
  "(b \<Longrightarrow> well_run ab n m) \<Longrightarrow> (\<not> b \<Longrightarrow> well_run ab n m') \<Longrightarrow> well_run ab n (if b then m else m')"
  by simp

lemma well_run_Let [well_run_intros]: "(\<And>x. well_run ab n (f x)) \<Longrightarrow> well_run ab n (let x = v in f x)"
  by simp

text \<open>After a byte has been read, one byte less is left.\<close>

lemma well_run_read_u8_then:
  assumes "well_run ab n (f (False, 0))" and "\<And>b. 0 < n \<Longrightarrow> well_run ab (n - 1) (f (True, b))"
  shows "well_run ab n (and_then dec_read_u8 f)"
  unfolding well_run_def
proof (intro allI impI)
  fix d r d' assume d: "wf_decoder d" "length (unread d) \<le> n" and run: "and_then dec_read_u8 f d = (r, d')"
  show "r \<noteq> Hang \<and> (r = Abort \<longrightarrow> ab) \<and> wf_decoder d' \<and> (\<exists>j. unread d' = drop j (unread d))"
  proof (cases "unread d")
    case Nil
    with run d have "f (False, 0) d = (r, d')" by (simp add: and_then_def dec_read_u8_run)
    then show ?thesis using well_runD [OF assms(1) d] by auto
  next
    case (Cons b bs)
    with run d have "f (True, b) (advance 1 d) = (r, d')" by (simp add: and_then_def dec_read_u8_run)
    moreover have "wf_decoder (advance 1 d)" "length (unread (advance 1 d)) \<le> n - 1" "0 < n"
      using Cons d by auto
    ultimately show ?thesis using well_runD [OF assms(2)] by (fastforce simp: drop_drop)
  qed
qed

lemma safe_basic [safe_intros]: "safe (ret x)" "safe nullptr"
  by (auto simp: safe_def intro: exI [of _ 0])

lemma safe_gets [safe_intros]: "safe (gets f)"
  by (auto simp: safe_def intro: exI [of _ 0])

lemma safe_and_then [safe_intros]: "safe m \<Longrightarrow> (\<And>x. safe (f x)) \<Longrightarrow> safe (and_then m f)"
  by (auto simp: safe_iff_well_run intro: well_run_and_then)

lemma safe_if [safe_intros]: "(b \<Longrightarrow> safe m) \<Longrightarrow> (\<not> b \<Longrightarrow> safe n) \<Longrightarrow> safe (if b then m else n)"
  by simp

lemma safe_case_prod [safe_intros]: "(\<And>a b. safe (f a b)) \<Longrightarrow> safe (case p of (a, b) \<Rightarrow> f a b)"
  by (cases p) simp

lemma safe_modify [safe_intros]:
  "(\<And>d. d_reader (f d) = d_reader d) \<Longrightarrow> safe (modify f)"
  by (auto simp: safe_def wf_decoder_def unread_def intro: exI [of _ 0])

lemma safe_Let [safe_intros]: "(\<And>x. safe (f x)) \<Longrightarrow> safe (let x = v in f x)"
  by simp

lemma safe_read_u8 [safe_intros]: "safe dec_read_u8"
  by (auto simp: safe_def dec_read_u8_run split: list.splits intro: exI [of _ 0] exI [of _ 1])

lemma safe_peek_u8 [safe_intros]: "safe dec_peek_u8"
  by (auto simp: safe_def dec_peek_u8_run split: list.splits intro: exI [of _ 0])

lemma safe_readBE [safe_intros]:
  "byte_sized TYPE('a::len) \<Longrightarrow> safe (dec_readBE :: (decoder, bool \<times> 'a word) comp)"
  by (auto simp: safe_def dec_readBE_run split: if_splits intro: exI [of _ 0])

lemma safe_available [safe_intros]: "safe dec_byte_available"
  by (auto simp: safe_def intro: exI [of _ 0])

text \<open>A read of \<open>n\<close> bytes is safe after the check that \<open>n\<close> bytes are available.\<close>

lemma well_run_checked_read:
  assumes "\<And>x. well_run ab n (f x)" and "\<And>x. well_run ab n (g x)"
  shows "well_run ab n (and_then dec_byte_available (\<lambda>k.
    if k < len then g k else and_then (dec_read_n_bytes len) f))"
  unfolding well_run_def
proof (intro allI impI)
  fix d r d' assume d: "wf_decoder d" "length (unread d) \<le> n"
    and run: "and_then dec_byte_available (\<lambda>k.
      if k < len then g k else and_then (dec_read_n_bytes len) f) d = (r, d')"
  show "r \<noteq> Hang \<and> (r = Abort \<longrightarrow> ab) \<and> wf_decoder d' \<and> (\<exists>j. unread d' = drop j (unread d))"
  proof (cases "length (unread d) < len")
    case True
    then show ?thesis using run d well_runD [OF assms(2) d] by (auto simp: and_then_def)
  next
    case False
    then have "f (take len (unread d)) (advance len d) = (r, d')"
      using run d by (simp add: and_then_def dec_read_n_bytes_run)
    moreover have "wf_decoder (advance len d)" "length (unread (advance len d)) \<le> n"
      using False d by auto
    ultimately show ?thesis using well_runD [OF assms(1)] by (fastforce simp: drop_drop)
  qed
qed

section \<open>The contract of a codec\<close>

text \<open>The bytes an encoder writes into a fresh string, the result a decoder gets from one.\<close>

definition encoded :: "(encoder, bool) comp \<Rightarrow> bytes" where
  "encoded m = e_out (snd (m (new_encoder [])))"

definition decoded :: "(decoder, 'v) comp \<Rightarrow> bytes \<Rightarrow> 'v result" where
  "decoded m bs = fst (m (new_decoder bs))"

fun encode_seq :: "('v \<Rightarrow> (encoder, bool) comp) \<Rightarrow> 'v list \<Rightarrow> (encoder, bool) comp" where
  "encode_seq enc [] = ret True"
| "encode_seq enc (v # vs) = and_then (enc v) (\<lambda>_. encode_seq enc vs)"

fun decode_seq :: "(decoder, 'v) comp \<Rightarrow> nat \<Rightarrow> (decoder, 'v list) comp" where
  "decode_seq dec 0 = ret []"
| "decode_seq dec (Suc n) = and_then dec (\<lambda>v. and_then (decode_seq dec n) (\<lambda>vs. ret (v # vs)))"

text \<open>
  An encoder and a decoder of one type: on the values in \<open>ok\<close> the encoder appends \<open>repr v\<close>, and
  the decoder reads \<open>v\<close> back from it, whatever follows.
\<close>

locale value_codec =
  fixes enc :: "'v \<Rightarrow> (encoder, bool) comp"
    and dec :: "(decoder, 'v) comp"
    and repr :: "'v \<Rightarrow> bytes"
    and ok :: "'v \<Rightarrow> bool"
  assumes enc_repr: "ok v \<Longrightarrow> encodes (enc v) (repr v)"
    and dec_repr: "ok v \<Longrightarrow> decodes dec (repr v) v"
begin

lemma encoded_repr: "ok v \<Longrightarrow> encoded (enc v) = repr v"
  by (simp add: encoded_def encodesD [OF enc_repr] new_encoder_def)

lemma round_trip:
  assumes "ok v" and "length (encoded (enc v) @ rest) < 2 ^ 63"
  shows "dec (new_decoder (encoded (enc v) @ rest))
    = (Ret v, advance (length (encoded (enc v))) (new_decoder (encoded (enc v) @ rest)))"
  using assms by (intro decodesD [OF _ _ unread_new_decoder]) (simp_all add: encoded_repr dec_repr)

lemma encode_seq_repr:
  "\<forall>v \<in> set vs. ok v \<Longrightarrow> encodes (encode_seq enc vs) (concat (map repr vs))"
proof (induction vs)
  case (Cons v vs)
  then show ?case by (auto simp: encodes_def and_then_def encodesD [OF enc_repr])
qed (simp add: encodes_def)

lemma decode_seq_repr:
  "\<forall>v \<in> set vs. ok v \<Longrightarrow> decodes (decode_seq dec (length vs)) (concat (map repr vs)) vs"
proof (induction vs)
  case (Cons v vs)
  have "decodes (and_then (decode_seq dec (length vs)) (\<lambda>vs. ret (v # vs)))
      (concat (map repr vs) @ []) (v # vs)"
    by (rule decodes_and_then [OF Cons.IH]) (use Cons.prems in \<open>auto intro: decodes_ret\<close>)
  then show ?case
    using Cons.prems decodes_and_then [OF dec_repr [of v]] by simp
qed (simp add: decodes_ret)

text \<open>Values written one after the other are read back in order.\<close>

lemma stream_round_trip:
  assumes "\<forall>v \<in> set vs. ok v" and "length (encoded (encode_seq enc vs)) < 2 ^ 63"
  shows "decoded (decode_seq dec (length vs)) (encoded (encode_seq enc vs)) = Ret vs"
proof -
  have "encoded (encode_seq enc vs) = concat (map repr vs)"
    by (simp add: encoded_def encodesD [OF encode_seq_repr [OF assms(1)]] new_encoder_def)
  then show ?thesis
    using assms(2) decodesD [OF decode_seq_repr [OF assms(1)], of _ "[]"] by (simp add: decoded_def)
qed

end

section \<open>Evaluation\<close>

lemma unread_updates [simp]:
  "unread (d\<lparr>d_types := x\<rparr>) = unread d" "unread (d\<lparr>d_defs := y\<rparr>) = unread d"
  "unread (d\<lparr>d_values := z\<rparr>) = unread d" "unread (d\<lparr>d_next := n\<rparr>) = unread d"
  "unread (d\<lparr>d_dead := w\<rparr>) = unread d"
  by (simp_all add: unread_def)

lemma wf_decoder_updates [simp]:
  "wf_decoder (d\<lparr>d_types := x\<rparr>) = wf_decoder d" "wf_decoder (d\<lparr>d_defs := y\<rparr>) = wf_decoder d"
  "wf_decoder (d\<lparr>d_values := z\<rparr>) = wf_decoder d" "wf_decoder (d\<lparr>d_next := n\<rparr>) = wf_decoder d"
  "wf_decoder (d\<lparr>d_dead := w\<rparr>) = wf_decoder d"
  by (simp_all add: wf_decoder_def)

lemma offset_updates [simp]:
  "d_offset (d\<lparr>d_types := x\<rparr>) = d_offset d" "d_offset (d\<lparr>d_defs := y\<rparr>) = d_offset d"
  "d_offset (d\<lparr>d_values := z\<rparr>) = d_offset d" "d_offset (d\<lparr>d_next := n\<rparr>) = d_offset d"
  "d_offset (d\<lparr>d_dead := w\<rparr>) = d_offset d"
  by (simp_all add: d_offset_def)

lemma offset_new_decoder [simp]: "d_offset (new_decoder bs) = 0"
  by (simp add: d_offset_def new_decoder_def string_reader_def offset_def)

lemma and_then_run:
  "and_then m f s = (case m s of (Ret x, s') \<Rightarrow> f x s' | (Null, s') \<Rightarrow> (Null, s')
    | (Abort, s') \<Rightarrow> (Abort, s') | (Hang, s') \<Rightarrow> (Hang, s'))"
  by (simp add: and_then_def)

end
