(* ===== verification/Bool_Codec.thy ===== *)
theory Bool_Codec
  imports Codec
begin

text \<open>
  Booleans (src/hessian2/basic_codec/bool_codec.cc): one byte, \<open>F\<close> or \<open>T\<close>. This is the only
  decoder that records an error.
\<close>

section \<open>Operations\<close>

definition set_error :: "decode_error_code \<Rightarrow> (decoder, unit) comp" where
  "set_error c = modify (\<lambda>d. d\<lparr>d_error_pos := of_nat (d_offset d), d_error_code := c\<rparr>)"

definition decode_bool :: "(decoder, bool) comp" where
  "decode_bool = and_then dec_read_u8 (\<lambda>res.
     let code = snd res in
     if code = 0x46 then ret False
     else if code = 0x54 then ret True
     else and_then (set_error UNEXPECTED_TYPE) (\<lambda>_. nullptr))"

definition encode_bool :: "bool \<Rightarrow> (encoder, bool) comp" where
  "encode_bool v = (if v then and_then (enc_write_byte 0x54) (\<lambda>_. ret True)
     else and_then (enc_write_byte 0x46) (\<lambda>_. ret True))"

section \<open>The codec contract\<close>

definition bool_repr :: "bool \<Rightarrow> bytes" where
  "bool_repr v = [if v then 0x54 else 0x46]"

interpretation bool_codec: value_codec encode_bool decode_bool bool_repr "\<lambda>_. True"
proof unfold_locales
  show "encodes (encode_bool v) (bool_repr v)" for v
    by (simp add: encodes_def encode_bool_def bool_repr_def)
  show "decodes decode_bool (bool_repr v) v" for v
    unfolding decode_bool_def bool_repr_def
    by (rule decodes_read_u8_then) (simp add: decodes_ret)
qed

lemma safe_decode_bool [safe_intros]: "safe decode_bool"
  unfolding decode_bool_def set_error_def by (intro safe_intros) simp

section \<open>Properties\<close>

text \<open>
  Decoding a boolean on every input: \<open>F\<close> and \<open>T\<close> give the value, any other byte and an
  empty buffer give a null pointer and record \<open>UNEXPECTED_TYPE\<close> at the position reached; an
  exhausted buffer is never reported as \<open>NOT_ENOUGH_BUFFER\<close>.
\<close>

theorem decode_bool_spec:
  assumes "length buf < 2 ^ 63"
  shows "decode_bool (new_decoder buf) = (case buf of
      [] \<Rightarrow> (Null, (new_decoder [])\<lparr>d_error_code := UNEXPECTED_TYPE\<rparr>)
    | b # _ \<Rightarrow>
        if b = 0x46 then (Ret False, advance 1 (new_decoder buf))
        else if b = 0x54 then (Ret True, advance 1 (new_decoder buf))
        else (Null, (advance 1 (new_decoder buf))
               \<lparr>d_error_pos := 1, d_error_code := UNEXPECTED_TYPE\<rparr>))"
proof (cases buf)
  case Nil
  then show ?thesis
    by (simp add: decode_bool_def and_then_def dec_read_u8_run set_error_def)
next
  case (Cons b bs)
  then show ?thesis using assms
    by (auto simp: decode_bool_def and_then_def dec_read_u8_run set_error_def)
qed

theorem decode_bool_spec_witness:
  "fst (decode_bool (new_decoder [0x54, 0x46])) = Ret True"
  using decode_bool_spec [of "[0x54, 0x46]"] by simp

text \<open>
  After a failed boolean the error message of the decoder says where the input was
  rejected only when nothing had been read: for a non-empty buffer, where the position is not
  zero, the message is the bare text, whatever the formatter would print.
\<close>

theorem error_message_drops_position:
  assumes "length (b # buf) < 2 ^ 63" and "b \<noteq> 0x46" and "b \<noteq> 0x54"
  shows "d_error_pos (snd (decode_bool (new_decoder (b # buf)))) = 1
    \<and> d_getErrorMessage str_format (snd (decode_bool (new_decoder (b # buf)))) = ''Unexpected type''
    \<and> d_getErrorMessage str_format (snd (decode_bool (new_decoder [])))
      = str_format ''pos: %d, %s'' 0 ''Unexpected type''"
  using decode_bool_spec [OF assms(1)] decode_bool_spec [of "[]"] assms(2,3)
  by (simp add: d_getErrorMessage_def d_errorCodeToString_def)

theorem error_message_drops_position_witness:
  "d_getErrorMessage (\<lambda>f p m. ''pos: 0, '' @ m) (snd (decode_bool (new_decoder [0x4e])))
    = ''Unexpected type''
   \<and> d_getErrorMessage (\<lambda>f p m. ''pos: 0, '' @ m) (snd (decode_bool (new_decoder [])))
    = ''pos: 0, Unexpected type''"
  using error_message_drops_position [of "0x4e" "[]" "\<lambda>f p m. ''pos: 0, '' @ m"] by simp

end
