(* ===== verification/Number_Codec.thy ===== *)
theory Number_Codec
  imports Codec
begin

text \<open>
  Integers (src/hessian2/basic_codec/number_codec.hpp, number_codec.cc): \<open>LeftShift\<close>, and the
  compact encodings of \<open>int32_t\<close> and \<open>int64_t\<close> with the conversions of the narrower types.
  Doubles are in the theory \<open>Double_Codec\<close>.
\<close>

section \<open>Operations\<close>

text \<open>
  \<open>LeftShift<T>(int8_t left, uint16_t bit_number)\<close>: the shift of the magnitude, with the sign put
  back; \<open>left * -1\<close> is stored back into the \<open>int8_t\<close>.
\<close>

definition left_shift :: "i8 \<Rightarrow> nat \<Rightarrow> 'a::len word" where
  "left_shift left bit_number =
     (if sint left < 0
      then let left' = (word_of_int (sint left * - 1) :: i8)
           in word_of_int (- 1 * (sint left' * 2 ^ bit_number))
      else word_of_int (sint left * 2 ^ bit_number))"

definition decode_i32 :: "(decoder, i32) comp" where
  "decode_i32 = and_then dec_readBE (\<lambda>res :: bool \<times> u8.
     let code = snd res in
     if 0x80 \<le> code \<and> code \<le> 0xbf then ret (word_of_int (uint code - 0x90))
     else if 0xc0 \<le> code \<and> code \<le> 0xcf then
       and_then dec_byte_available (\<lambda>n. if n < 1 then nullptr else
       and_then dec_readBE (\<lambda>b :: bool \<times> u8.
         ret (word_of_int (sint (left_shift (word_of_int (uint code - 0xc8)) 8 :: i16) + uint (snd b)))))
     else if 0xd0 \<le> code \<and> code \<le> 0xd7 then
       and_then dec_byte_available (\<lambda>n. if n < 2 then nullptr else
       and_then dec_readBE (\<lambda>b :: bool \<times> u16.
         ret (word_of_int (sint (left_shift (word_of_int (uint code - 0xd4)) 16 :: i32) + uint (snd b)))))
     else if code = 0x49 then
       and_then dec_byte_available (\<lambda>n. if n < 4 then nullptr else
       and_then dec_readBE (\<lambda>b :: bool \<times> i32. ret (snd b)))
     else nullptr)"

definition encode_i32 :: "i32 \<Rightarrow> (encoder, bool) comp" where
  "encode_i32 data =
     (if - 0x10 \<le> sint data \<and> sint data \<le> 0x2f then
        and_then (enc_write_byte (sint data + 0x90)) (\<lambda>_. ret True)
      else if - 0x800 \<le> sint data \<and> sint data \<le> 0x7ff then
        and_then (enc_write_byte (0xc8 + drop_bit 8 (sint data))) (\<lambda>_.
        and_then (enc_write_byte (sint data)) (\<lambda>_. ret True))
      else if - 0x40000 \<le> sint data \<and> sint data \<le> 0x3ffff then
        and_then (enc_write_byte (0xd4 + drop_bit 16 (sint data))) (\<lambda>_.
        and_then (enc_write_byte (drop_bit 8 (sint data))) (\<lambda>_.
        and_then (enc_write_byte (sint data)) (\<lambda>_. ret True)))
      else
        and_then (enc_write_byte 0x49) (\<lambda>_.
        and_then (enc_writeBE data) (\<lambda>_. ret True)))"

definition decode_i64 :: "(decoder, i64) comp" where
  "decode_i64 = and_then dec_readBE (\<lambda>res :: bool \<times> u8.
     let code = snd res in
     if 0xd8 \<le> code \<and> code \<le> 0xef then ret (word_of_int (uint code - 0xe0))
     else if 0xf0 \<le> code then
       and_then dec_byte_available (\<lambda>n. if n < 1 then nullptr else
       and_then dec_readBE (\<lambda>b :: bool \<times> u8.
         ret (word_of_int (sint (left_shift (word_of_int (uint code - 0xf8)) 8 :: i16) + uint (snd b)))))
     else if 0x38 \<le> code \<and> code \<le> 0x3f then
       and_then dec_byte_available (\<lambda>n. if n < 2 then nullptr else
       and_then dec_readBE (\<lambda>b :: bool \<times> u16.
         ret (word_of_int (sint (left_shift (word_of_int (uint code - 0x3c)) 16 :: i32) + uint (snd b)))))
     else if code = 0x59 then
       and_then dec_byte_available (\<lambda>n. if n < 4 then nullptr else
       and_then dec_readBE (\<lambda>b :: bool \<times> i32. ret (word_of_int (sint (snd b)))))
     else if code = 0x4c then
       and_then dec_byte_available (\<lambda>n. if n < 8 then nullptr else
       and_then dec_readBE (\<lambda>b :: bool \<times> i64. ret (snd b)))
     else nullptr)"

definition encode_i64 :: "i64 \<Rightarrow> (encoder, bool) comp" where
  "encode_i64 data =
     (if - 0x08 \<le> sint data \<and> sint data \<le> 0x0f then
        and_then (enc_write_byte (sint data + 0xe0)) (\<lambda>_. ret True)
      else if - 0x800 \<le> sint data \<and> sint data \<le> 0x7ff then
        and_then (enc_write_byte (0xf8 + drop_bit 8 (sint data))) (\<lambda>_.
        and_then (enc_write_byte (sint data)) (\<lambda>_. ret True))
      else if - 0x40000 \<le> sint data \<and> sint data \<le> 0x3ffff then
        and_then (enc_write_byte (0x3c + drop_bit 16 (sint data))) (\<lambda>_.
        and_then (enc_write_byte (drop_bit 8 (sint data))) (\<lambda>_.
        and_then (enc_write_byte (sint data)) (\<lambda>_. ret True)))
      else if - 0x80000000 \<le> sint data \<and> sint data \<le> 0x7fffffff then
        and_then (enc_write_byte 0x59) (\<lambda>_.
        and_then (enc_writeBE (word_of_int (sint data) :: i32)) (\<lambda>_. ret True))
      else
        and_then (enc_write_byte 0x4c) (\<lambda>_.
        and_then (enc_writeBE data) (\<lambda>_. ret True)))"

text \<open>The narrower types are converted to \<open>int32_t\<close>, \<open>uint32_t\<close> to \<open>int64_t\<close>.\<close>

definition encode_i8 :: "i8 \<Rightarrow> (encoder, bool) comp" where
  "encode_i8 data = encode_i32 (word_of_int (sint data))"

definition encode_i16 :: "i16 \<Rightarrow> (encoder, bool) comp" where
  "encode_i16 data = encode_i32 (word_of_int (sint data))"

definition encode_u8 :: "u8 \<Rightarrow> (encoder, bool) comp" where
  "encode_u8 data = encode_i32 (word_of_int (uint data))"

definition encode_u16 :: "u16 \<Rightarrow> (encoder, bool) comp" where
  "encode_u16 data = encode_i32 (word_of_int (uint data))"

definition encode_u32 :: "u32 \<Rightarrow> (encoder, bool) comp" where
  "encode_u32 data = encode_i64 (word_of_int (uint data))"

section \<open>What the encoders write\<close>

definition i32_repr :: "i32 \<Rightarrow> bytes" where
  "i32_repr v = (let x = sint v in
     if - 0x10 \<le> x \<and> x \<le> 0x2f then [word_of_int (x + 0x90)]
     else if - 0x800 \<le> x \<and> x \<le> 0x7ff then [word_of_int (0xc8 + x div 256), word_of_int x]
     else if - 0x40000 \<le> x \<and> x \<le> 0x3ffff
       then [word_of_int (0xd4 + x div 65536), word_of_int (x div 256), word_of_int x]
     else 0x49 # be_bytes 4 (unat v))"

definition i64_repr :: "i64 \<Rightarrow> bytes" where
  "i64_repr v = (let x = sint v in
     if - 0x08 \<le> x \<and> x \<le> 0x0f then [word_of_int (x + 0xe0)]
     else if - 0x800 \<le> x \<and> x \<le> 0x7ff then [word_of_int (0xf8 + x div 256), word_of_int x]
     else if - 0x40000 \<le> x \<and> x \<le> 0x3ffff
       then [word_of_int (0x3c + x div 65536), word_of_int (x div 256), word_of_int x]
     else if - 0x80000000 \<le> x \<and> x \<le> 0x7fffffff
       then 0x59 # be_bytes 4 (unat (word_of_int x :: i32))
     else 0x4c # be_bytes 8 (unat v))"

lemma encode_i32_encodes: "encodes (encode_i32 v) (i32_repr v)"
  by (simp add: encodes_def encode_i32_def i32_repr_def Let_def drop_bit_eq_div)

lemma encode_i64_encodes: "encodes (encode_i64 v) (i64_repr v)"
  by (simp add: encodes_def encode_i64_def i64_repr_def Let_def drop_bit_eq_div)

section \<open>Reading them back\<close>

lemma left_shift_small:
  assumes "- 8 \<le> k" and "k < 8"
  shows "left_shift (word_of_int k) n = word_of_int (k * 2 ^ n)"
proof -
  have k1: "sint (word_of_int k :: i8) = k"
    by (rule sint_of_int_in_range) (use assms in simp_all)
  have k2: "sint (word_of_int (k * - 1) :: i8) = - k"
    by (subst sint_of_int_in_range) (use assms in simp_all)
  show ?thesis
    unfolding left_shift_def k1 Let_def k2 by simp
qed

lemma left_shift_sint:
  assumes "- 8 \<le> k" and "k < 8"
  shows "sint (left_shift (word_of_int k) 8 :: i16) = k * 256"
    and "sint (left_shift (word_of_int k) 16 :: i32) = k * 65536"
  unfolding left_shift_small [OF assms]
  by ((rule trans [OF sint_of_int_in_range], use assms in simp, use assms in simp, simp)+)

text \<open>The two- and three-octet forms: high part in the code byte, low part in the payload.\<close>

lemma code_byte:
  assumes "0 \<le> x" and "x < 256"
  shows "uint (word_of_int x :: u8) = x"
  using assms by (simp add: uint_byte_of_int)

lemma two_octet_value:
  assumes "- 0x800 \<le> x" and "x \<le> 0x7ff"
  shows "sint (left_shift (word_of_int (x div 256)) 8 :: i16) + uint (word_of_int x :: u8) = x"
  using assms by (subst left_shift_sint(1)) (auto simp: uint_byte_of_int)

lemma three_octet_value:
  assumes "- 0x40000 \<le> x" and "x \<le> 0x3ffff"
  shows "sint (left_shift (word_of_int (x div 65536)) 16 :: i32) + uint (word_of_int x :: u16) = x"
  using assms by (subst left_shift_sint(2)) (auto simp: uint_word_of_int)

lemma int_unat_byte: "int (unat (word_of_int y :: u8)) = y mod 256"
  by (simp add: uint_byte_of_int)

lemma be_val_two: "be_val [a, b] = unat b + 256 * unat a"
  by (simp add: be_val_def)

lemma be_bytes_u16:
  "be_bytes 2 (unat (word_of_int x :: u16)) = [word_of_int (x div 256), word_of_int x]"
proof -
  let ?bs = "[word_of_int (x div 256), word_of_int x] :: bytes"
  have "int (be_val ?bs) = int (unat (word_of_int x :: u16))"
  proof -
    have "int (be_val ?bs) = x mod 256 + 256 * (x div 256 mod 256)"
      by (simp only: be_val_two of_nat_add of_nat_mult of_nat_numeral int_unat_byte)
    also have "\<dots> = x mod 65536" using zmod_zmult2_eq [of 256 x 256] by simp
    finally show ?thesis by (simp add: uint_word_of_int)
  qed
  then have "be_val ?bs = unat (word_of_int x :: u16)" by (simp only: of_nat_eq_iff)
  then show ?thesis using be_bytes_be_val [of ?bs] by (simp add: numeral_2_eq_2)
qed

lemma decodes_two_octets:
  assumes "h = x div 256" and "- 0x800 \<le> x" and "x \<le> 0x7ff"
  shows "decodes (and_then dec_byte_available (\<lambda>n. if n < 1 then nullptr else
       and_then dec_readBE (\<lambda>b :: bool \<times> u8.
         ret (word_of_int (sint (left_shift (word_of_int h) 8 :: i16) + uint (snd b)) :: 'a::len word))))
    [word_of_int x] (word_of_int x)"
proof (rule decodes_available_then)
  fix k assume "length [word_of_int x :: u8] \<le> k"
  then show "decodes (if k < 1 then nullptr else and_then dec_readBE (\<lambda>b :: bool \<times> u8.
      ret (word_of_int (sint (left_shift (word_of_int h) 8 :: i16) + uint (snd b)) :: 'a word)))
    [word_of_int x] (word_of_int x)"
    using two_octet_value [OF assms(2,3)] assms(1)
    by (auto intro!: decodes_readBE_u8_then decodes_intros simp del: of_int_add)
qed

lemma decodes_three_octets:
  assumes "h = x div 65536" and "- 0x40000 \<le> x" and "x \<le> 0x3ffff"
  shows "decodes (and_then dec_byte_available (\<lambda>n. if n < 2 then nullptr else
       and_then dec_readBE (\<lambda>b :: bool \<times> u16.
         ret (word_of_int (sint (left_shift (word_of_int h) 16 :: i32) + uint (snd b)) :: 'a::len word))))
    [word_of_int (x div 256), word_of_int x] (word_of_int x)"
proof (rule decodes_available_then)
  fix k assume "length [word_of_int (x div 256), word_of_int x :: u8] \<le> k"
  moreover have "decodes (and_then dec_readBE (\<lambda>b :: bool \<times> u16.
      ret (word_of_int (sint (left_shift (word_of_int h) 16 :: i32) + uint (snd b)) :: 'a word)))
    (be_bytes (size_of TYPE(16)) (unat (word_of_int x :: u16)) @ []) (word_of_int x)"
    using three_octet_value [OF assms(2,3)] assms(1)
    by (intro decodes_readBE_then) (auto intro: decodes_intros simp del: of_int_add)
  ultimately show "decodes (if k < 2 then nullptr else and_then dec_readBE (\<lambda>b :: bool \<times> u16.
      ret (word_of_int (sint (left_shift (word_of_int h) 16 :: i32) + uint (snd b)) :: 'a word)))
    [word_of_int (x div 256), word_of_int x] (word_of_int x)"
    by (simp add: be_bytes_u16)
qed

section \<open>The codec contracts\<close>

text \<open>
  Each compact form is one code byte \<open>base + high part\<close> in a range of its own, so the code's
  range tests pick the same form that the encoder chose.
\<close>

lemma i32_decodes_one_octet:
  assumes "uint b = x + 0x90" and "- 0x10 \<le> x" and "x \<le> 0x2f"
  shows "decodes decode_i32 [b] (word_of_int x)"
  unfolding decode_i32_def
  by (rule decodes_readBE_u8_then)
    (use assms in \<open>simp add: Let_def word_le_def word_uint_eq_iff decodes_ret del: of_int_add\<close>)

lemma i32_decodes_two_octets:
  assumes "uint b = 0xc8 + x div 256" and "- 0x800 \<le> x" and "x \<le> 0x7ff"
  shows "decodes decode_i32 [b, word_of_int x] (word_of_int x)"
proof -
  have hi: "- 8 \<le> x div 256" "x div 256 < 8" using assms by auto
  show ?thesis
    unfolding decode_i32_def
    by (rule decodes_readBE_u8_then)
      (use assms(1) hi decodes_two_octets [OF _ assms(2,3), of "uint b - 0xc8", where 'a = 32] in
        \<open>simp add: Let_def word_le_def word_uint_eq_iff del: of_int_add\<close>)
qed

lemma i32_decodes_three_octets:
  assumes "uint b = 0xd4 + x div 65536" and "- 0x40000 \<le> x" and "x \<le> 0x3ffff"
  shows "decodes decode_i32 [b, word_of_int (x div 256), word_of_int x] (word_of_int x)"
proof -
  have hi: "- 4 \<le> x div 65536" "x div 65536 < 4" using assms by auto
  show ?thesis
    unfolding decode_i32_def
    by (rule decodes_readBE_u8_then)
      (use assms(1) hi decodes_three_octets [OF _ assms(2,3), of "uint b - 0xd4", where 'a = 32] in
        \<open>simp add: Let_def word_le_def word_uint_eq_iff del: of_int_add\<close>)
qed

lemma decodes_fixed:
  assumes "byte_sized TYPE('a::len)" and "size_of TYPE('a) = n" and "decodes (f (True, w :: 'a word)) [] x"
  shows "decodes (and_then dec_byte_available (\<lambda>k. if k < n then nullptr else and_then dec_readBE f))
    (be_bytes n (unat w)) x"
proof (rule decodes_available_then)
  fix k assume "length (be_bytes n (unat w)) \<le> k"
  moreover have "decodes (and_then dec_readBE f) (be_bytes (size_of TYPE('a)) (unat w) @ []) x"
    using assms(1,3) by (rule decodes_readBE_then)
  ultimately show "decodes (if k < n then nullptr else and_then dec_readBE f) (be_bytes n (unat w)) x"
    using assms(2) by simp
qed

lemma i32_decodes_full: "decodes decode_i32 (0x49 # be_bytes 4 (unat v)) v"
  unfolding decode_i32_def
  by (rule decodes_readBE_u8_then)
    (simp add: Let_def word_le_def decodes_fixed decodes_ret)

lemma decode_i32_decodes: "decodes decode_i32 (i32_repr v) v"
proof -
  let ?x = "sint v"
  note code_bytes = code_byte [of "?x + 0x90"] code_byte [of "0xc8 + ?x div 256"]
    code_byte [of "0xd4 + ?x div 65536"]
  consider "- 0x10 \<le> ?x \<and> ?x \<le> 0x2f"
    | "\<not> (- 0x10 \<le> ?x \<and> ?x \<le> 0x2f)" "- 0x800 \<le> ?x \<and> ?x \<le> 0x7ff"
    | "\<not> (- 0x800 \<le> ?x \<and> ?x \<le> 0x7ff)" "- 0x40000 \<le> ?x \<and> ?x \<le> 0x3ffff"
    | "\<not> (- 0x40000 \<le> ?x \<and> ?x \<le> 0x3ffff)"
    by blast
  then show ?thesis
  proof cases
    case 1
    with i32_decodes_one_octet [OF code_bytes(1)] show ?thesis
      by (simp add: i32_repr_def Let_def del: of_int_add)
  next
    case 2
    moreover from this(2) have "- 8 \<le> ?x div 256" "?x div 256 < 8" by auto
    ultimately show ?thesis using i32_decodes_two_octets [OF code_bytes(2)]
      by (auto simp add: i32_repr_def Let_def simp del: of_int_add)
  next
    case 3
    moreover from this(2) have "- 4 \<le> ?x div 65536" "?x div 65536 < 4" by auto
    ultimately show ?thesis using i32_decodes_three_octets [OF code_bytes(3)]
      by (auto simp add: i32_repr_def Let_def simp del: of_int_add)
  next
    case 4
    with i32_decodes_full [of v] show ?thesis
      by (auto simp add: i32_repr_def Let_def)
  qed
qed

interpretation i32_codec: value_codec encode_i32 decode_i32 i32_repr "\<lambda>_. True"
  by unfold_locales (auto simp: encode_i32_encodes decode_i32_decodes)

lemma i64_decodes_one_octet:
  assumes "uint b = x + 0xe0" and "- 0x08 \<le> x" and "x \<le> 0x0f"
  shows "decodes decode_i64 [b] (word_of_int x)"
  unfolding decode_i64_def
  by (rule decodes_readBE_u8_then)
    (use assms in \<open>simp add: Let_def word_le_def word_uint_eq_iff decodes_ret del: of_int_add\<close>)

lemma i64_decodes_two_octets:
  assumes "uint b = 0xf8 + x div 256" and "- 0x800 \<le> x" and "x \<le> 0x7ff"
  shows "decodes decode_i64 [b, word_of_int x] (word_of_int x)"
proof -
  have hi: "- 8 \<le> x div 256" "x div 256 < 8" using assms by auto
  show ?thesis
    unfolding decode_i64_def
    by (rule decodes_readBE_u8_then)
      (use assms(1) hi decodes_two_octets [OF _ assms(2,3), of "uint b - 0xf8", where 'a = 64] in
        \<open>simp add: Let_def word_le_def word_uint_eq_iff del: of_int_add\<close>)
qed

lemma i64_decodes_three_octets:
  assumes "uint b = 0x3c + x div 65536" and "- 0x40000 \<le> x" and "x \<le> 0x3ffff"
  shows "decodes decode_i64 [b, word_of_int (x div 256), word_of_int x] (word_of_int x)"
proof -
  have hi: "- 4 \<le> x div 65536" "x div 65536 < 4" using assms by auto
  show ?thesis
    unfolding decode_i64_def
    by (rule decodes_readBE_u8_then)
      (use assms(1) hi decodes_three_octets [OF _ assms(2,3), of "uint b - 0x3c", where 'a = 64] in
        \<open>simp add: Let_def word_le_def word_uint_eq_iff del: of_int_add\<close>)
qed

lemma i64_decodes_int:
  assumes "- 0x80000000 \<le> x" and "x \<le> 0x7fffffff"
  shows "decodes decode_i64 (0x59 # be_bytes 4 (unat (word_of_int x :: i32))) (word_of_int x)"
proof -
  have "sint (word_of_int x :: i32) = x"
    by (rule sint_of_int_in_range) (use assms in simp_all)
  then show ?thesis
    unfolding decode_i64_def
    by (intro decodes_readBE_u8_then)
      (simp add: Let_def word_le_def decodes_fixed decodes_ret)
qed

lemma i64_decodes_full: "decodes decode_i64 (0x4c # be_bytes 8 (unat v)) v"
  unfolding decode_i64_def
  by (rule decodes_readBE_u8_then)
    (simp add: Let_def word_le_def decodes_fixed decodes_ret)

lemma decode_i64_decodes: "decodes decode_i64 (i64_repr v) v"
proof -
  let ?x = "sint v"
  note code_bytes = code_byte [of "?x + 0xe0"] code_byte [of "0xf8 + ?x div 256"]
    code_byte [of "0x3c + ?x div 65536"]
  consider "- 0x08 \<le> ?x \<and> ?x \<le> 0x0f"
    | "\<not> (- 0x08 \<le> ?x \<and> ?x \<le> 0x0f)" "- 0x800 \<le> ?x \<and> ?x \<le> 0x7ff"
    | "\<not> (- 0x800 \<le> ?x \<and> ?x \<le> 0x7ff)" "- 0x40000 \<le> ?x \<and> ?x \<le> 0x3ffff"
    | "\<not> (- 0x40000 \<le> ?x \<and> ?x \<le> 0x3ffff)"
    by blast
  then show ?thesis
  proof cases
    case 1
    with i64_decodes_one_octet [OF code_bytes(1)] show ?thesis
      by (simp add: i64_repr_def Let_def del: of_int_add)
  next
    case 2
    moreover from this(2) have "- 8 \<le> ?x div 256" "?x div 256 < 8" by auto
    ultimately show ?thesis using i64_decodes_two_octets [OF code_bytes(2)]
      by (auto simp add: i64_repr_def Let_def simp del: of_int_add)
  next
    case 3
    moreover from this(2) have "- 4 \<le> ?x div 65536" "?x div 65536 < 4" by auto
    ultimately show ?thesis using i64_decodes_three_octets [OF code_bytes(3)]
      by (auto simp add: i64_repr_def Let_def simp del: of_int_add)
  next
    case 4
    with i64_decodes_full [of v] i64_decodes_int [of ?x] show ?thesis
      by (auto simp add: i64_repr_def Let_def)
  qed
qed

interpretation i64_codec: value_codec encode_i64 decode_i64 i64_repr "\<lambda>_. True"
  by unfold_locales (auto simp: encode_i64_encodes decode_i64_decodes)

lemma safe_decode_i32 [safe_intros]: "safe decode_i32"
  unfolding decode_i32_def by (intro safe_intros; simp)

lemma safe_decode_i64 [safe_intros]: "safe decode_i64"
  unfolding decode_i64_def by (intro safe_intros; simp)

section \<open>Properties\<close>

text \<open>
  C15. An \<open>int32_t\<close> that was encoded is decoded to the same value, and the decoder stops exactly
  behind it, whatever follows in the buffer.
\<close>

theorem i32_round_trip:
  assumes "length (encoded (encode_i32 v) @ rest) < 2 ^ 63"
  shows "decode_i32 (new_decoder (encoded (encode_i32 v) @ rest))
    = (Ret v, advance (length (encoded (encode_i32 v))) (new_decoder (encoded (encode_i32 v) @ rest)))"
  using assms by (rule i32_codec.round_trip [OF TrueI])

lemma encoded_i32: "encoded (encode_i32 v) = i32_repr v"
  by (rule i32_codec.encoded_repr [OF TrueI])

theorem i32_round_trip_witness:
  "encoded (encode_i32 (- 2049)) = [0xd3, 0xf7, 0xff]
   \<and> fst (decode_i32 (new_decoder ([0xd3, 0xf7, 0xff] @ [0x90]))) = Ret (- 2049)"
proof -
  have e: "encoded (encode_i32 (- 2049)) = [0xd3, 0xf7, 0xff]"
    by (simp add: encoded_i32 i32_repr_def Let_def)
  then show ?thesis using i32_round_trip [of "- 2049" "[0x90]"] by simp
qed

text \<open>C23. The same for \<open>int64_t\<close>.\<close>

theorem i64_round_trip:
  assumes "length (encoded (encode_i64 v) @ rest) < 2 ^ 63"
  shows "decode_i64 (new_decoder (encoded (encode_i64 v) @ rest))
    = (Ret v, advance (length (encoded (encode_i64 v))) (new_decoder (encoded (encode_i64 v) @ rest)))"
  using assms by (rule i64_codec.round_trip [OF TrueI])

lemma encoded_i64: "encoded (encode_i64 v) = i64_repr v"
  by (rule i64_codec.encoded_repr [OF TrueI])

theorem i64_round_trip_witness:
  "encoded (encode_i64 0x80000000) = [0x4c, 0, 0, 0, 0, 0x80, 0, 0, 0]
   \<and> fst (decode_i64 (new_decoder [0x4c, 0, 0, 0, 0, 0x80, 0, 0, 0])) = Ret 0x80000000"
proof -
  have e: "encoded (encode_i64 0x80000000) = [0x4c, 0, 0, 0, 0, 0x80, 0, 0, 0]"
    by (simp add: encoded_i64 i64_repr_def Let_def be_bytes_def)
  then show ?thesis using i64_round_trip [of "0x80000000" "[]"] by simp
qed

text \<open>
  A list of integers written one after the other is read back in order: the encoding needs
  no separators.
\<close>

theorem i32_stream_round_trip:
  assumes "length (encoded (encode_seq encode_i32 vs)) < 2 ^ 63"
  shows "decoded (decode_seq decode_i32 (length vs)) (encoded (encode_seq encode_i32 vs)) = Ret vs"
  using assms by (intro i32_codec.stream_round_trip) simp_all

theorem i32_stream_round_trip_witness:
  "decoded (decode_seq decode_i32 2) (encoded (encode_seq encode_i32 [0, 262144])) = Ret [0, 262144]"
proof -
  have "encoded (encode_seq encode_i32 [0, 262144]) = [0x90, 0x49, 0, 4, 0, 0]"
    by (simp add: encoded_def encodesD [OF i32_codec.enc_repr] and_then_def new_encoder_def
        i32_repr_def Let_def be_bytes_def)
  moreover have len: "length [0, 262144 :: i32] = 2" by simp
  ultimately show ?thesis using i32_stream_round_trip [of "[0, 262144]", unfolded len] by simp
qed

text \<open>
  The length of the encoding of an \<open>int32_t\<close> on every value: one byte from -16 to 47, two
  from -2048 to 2047, three from -262144 to 262143, five otherwise. The one-byte form ends at
  47, not at 63 as the grammar comment above the function says.
\<close>

theorem i32_encoded_length:
  "length (encoded (encode_i32 v)) =
    (if - 16 \<le> sint v \<and> sint v \<le> 47 then 1
     else if - 2048 \<le> sint v \<and> sint v \<le> 2047 then 2
     else if - 262144 \<le> sint v \<and> sint v \<le> 262143 then 3 else 5)"
  by (simp add: encoded_i32 i32_repr_def Let_def)

text \<open>
  The value and the position a decoder of \<open>int32_t\<close> returns depend on the code byte alone in
  how much it consumes: on any well-formed state it either rejects the input or moves by the
  length its code announces, and it never reads outside of the buffer.
\<close>

theorem decode_i32_consumes:
  assumes "wf_decoder d" and "decode_i32 d = (Ret v, d')"
  shows "\<exists>code rest. unread d = code # rest \<and> d' = advance
    (if 0x80 \<le> code \<and> code \<le> 0xbf then 1 else if 0xc0 \<le> code \<and> code \<le> 0xcf then 2
     else if 0xd0 \<le> code \<and> code \<le> 0xd7 then 3 else 5) d"
proof (cases "unread d")
  case Nil
  then show ?thesis using assms
    by (auto simp: decode_i32_def and_then_def dec_readBE_run word_le_def)
next
  case (Cons code rest)
  have "be_val [code] = unat code" by (simp add: be_val_def)
  then show ?thesis using assms Cons
    by (auto simp: decode_i32_def and_then_def dec_readBE_run Let_def not_less eval_nat_numeral
        split: if_splits)
qed

theorem decode_i32_consumes_witness:
  "\<exists>code rest. unread (new_decoder [0xc8, 0x30]) = code # rest
    \<and> snd (decode_i32 (new_decoder [0xc8, 0x30])) = advance
    (if 0x80 \<le> code \<and> code \<le> 0xbf then 1 else if 0xc0 \<le> code \<and> code \<le> 0xcf then 2
     else if 0xd0 \<le> code \<and> code \<le> 0xd7 then 3 else 5) (new_decoder [0xc8, 0x30])"
proof -
  let ?d = "new_decoder [0xc8, 0x30]"
  have wf: "wf_decoder ?d" by simp
  have run: "decode_i32 ?d = (Ret 48, advance 2 ?d)"
    using decodesD [OF decode_i32_decodes [of 48] wf, of "[]"] by (simp add: i32_repr_def Let_def numeral_2_eq_2)
  show ?thesis using decode_i32_consumes [OF wf run] by (simp add: run)
qed

end
