(* ===== verification/Double_Codec.thy ===== *)
theory Double_Codec
  imports Number_Codec
begin

text \<open>
  Doubles (src/hessian2/basic_codec/number_codec.hpp, number_codec.cc). A \<open>double\<close> is its IEEE 754
  binary64 bit pattern; what the code does with doubles is defined on the patterns: equality,
  conversion to and from \<open>int32_t\<close>, and the product of \<open>0.001\<close> and an integer, rounded to
  nearest even. A conversion of a NaN or of a value outside of \<open>int32_t\<close> is undefined behaviour
  in C++; its result is the parameter \<open>oor\<close> (out of range), and every theorem holds for all of
  them.
\<close>

section \<open>binary64\<close>

type_synonym f64 = "64 word"

definition f64_sign :: "f64 \<Rightarrow> nat" where
  "f64_sign v = unat v div 2 ^ 63"

definition f64_exp :: "f64 \<Rightarrow> nat" where
  "f64_exp v = unat v div 2 ^ 52 mod 2 ^ 11"

definition f64_frac :: "f64 \<Rightarrow> nat" where
  "f64_frac v = unat v mod 2 ^ 52"

definition mk_f64 :: "nat \<Rightarrow> nat \<Rightarrow> nat \<Rightarrow> f64" where
  "mk_f64 s e f = of_nat (s * 2 ^ 63 + e * 2 ^ 52 + f)"

definition f64_is_nan :: "f64 \<Rightarrow> bool" where
  "f64_is_nan v \<longleftrightarrow> f64_exp v = 2047 \<and> f64_frac v \<noteq> 0"

definition f64_is_zero :: "f64 \<Rightarrow> bool" where
  "f64_is_zero v \<longleftrightarrow> f64_exp v = 0 \<and> f64_frac v = 0"

text \<open>\<open>operator==\<close> on doubles: a NaN equals nothing, the two zeros are equal.\<close>

definition f64_eq :: "f64 \<Rightarrow> f64 \<Rightarrow> bool" where
  "f64_eq a b \<longleftrightarrow> \<not> f64_is_nan a \<and> \<not> f64_is_nan b \<and> (a = b \<or> f64_is_zero a \<and> f64_is_zero b)"

definition f64_neg_zero :: f64 where
  "f64_neg_zero = 0x8000000000000000"

text \<open>The integral part, where there is one.\<close>

definition f64_trunc :: "f64 \<Rightarrow> int option" where
  "f64_trunc v =
     (if f64_exp v = 2047 then None
      else let m = (if f64_exp v = 0 then f64_frac v else 2 ^ 52 + f64_frac v);
               e = max (f64_exp v) 1;
               mag = (if 1075 \<le> e then m * 2 ^ (e - 1075) else m div 2 ^ (1075 - e))
           in Some (if f64_sign v = 0 then int mag else - int mag))"

text \<open>\<open>static_cast<int32_t>(double)\<close> and back.\<close>

definition f64_to_i32 :: "(f64 \<Rightarrow> i32) \<Rightarrow> f64 \<Rightarrow> i32" where
  "f64_to_i32 oor v = (case f64_trunc v of
     None \<Rightarrow> oor v
   | Some t \<Rightarrow> if - (2 ^ 31) \<le> t \<and> t < 2 ^ 31 then word_of_int t else oor v)"

fun ilog2 :: "nat \<Rightarrow> nat" where
  "ilog2 m = (if m < 2 then 0 else Suc (ilog2 (m div 2)))"

declare ilog2.simps [simp del]

definition f64_of_int :: "int \<Rightarrow> f64" where
  "f64_of_int x =
     (if x = 0 then 0
      else let m = nat \<bar>x\<bar>; l = ilog2 m
           in mk_f64 (if x < 0 then 1 else 0) (1023 + l) (m * 2 ^ (52 - l) - 2 ^ 52))"

text \<open>
  \<open>0.001 * x\<close> for an integer \<open>x\<close>: the double nearest to 0.001 is
  \<open>0x10624DD2F1A9FC * 2 ^ - 62\<close>; the exact product is rounded to 53 bits, ties to even.
\<close>

definition f64_mul_001 :: "int \<Rightarrow> f64" where
  "f64_mul_001 x =
     (if x = 0 then 0
      else let p = 0x10624DD2F1A9FC * nat \<bar>x\<bar>;
               sh = ilog2 p - 52;
               q = p div 2 ^ sh;
               r = p mod 2 ^ sh;
               q' = (if 2 ^ sh < 2 * r \<or> 2 * r = 2 ^ sh \<and> odd q then q + 1 else q)
           in mk_f64 (if x < 0 then 1 else 0) (1013 + sh) (q' - 2 ^ 52))"

section \<open>Operations\<close>

text \<open>\<open>readBE<double, 8>\<close> and \<open>readBE<double, 4>\<close>.\<close>

definition readBE_double8 :: "(decoder, f64) comp" where
  "readBE_double8 = and_then dec_readBE (\<lambda>res :: bool \<times> u64.
     if fst res then ret (snd res) else abort)"

definition readBE_double4 :: "(decoder, f64) comp" where
  "readBE_double4 = and_then dec_readBE (\<lambda>res :: bool \<times> i32.
     if fst res then ret (f64_mul_001 (sint (snd res))) else abort)"

definition decode_double :: "(decoder, f64) comp" where
  "decode_double = and_then dec_readBE (\<lambda>res :: bool \<times> u8.
     let code = snd res in
     if code = 0x5b then ret (f64_of_int 0)
     else if code = 0x5c then ret (f64_of_int 1)
     else if code = 0x5d then
       and_then dec_byte_available (\<lambda>n. if n < 1 then nullptr else
       and_then dec_readBE (\<lambda>b :: bool \<times> i8. ret (f64_of_int (sint (snd b)))))
     else if code = 0x5e then
       and_then dec_byte_available (\<lambda>n. if n < 2 then nullptr else
       and_then dec_readBE (\<lambda>b :: bool \<times> i16. ret (f64_of_int (sint (snd b)))))
     else if code = 0x5f then
       and_then dec_byte_available (\<lambda>n. if n < 4 then nullptr else readBE_double4)
     else if code = 0x44 then
       and_then dec_byte_available (\<lambda>n. if n < 8 then nullptr else readBE_double8)
     else nullptr)"

definition writeBEDouble :: "f64 \<Rightarrow> (encoder, unit) comp" where
  "writeBEDouble v = enc_writeBE v"

definition encode_double :: "(f64 \<Rightarrow> i32) \<Rightarrow> f64 \<Rightarrow> (encoder, bool) comp" where
  "encode_double oor v =
     (let int_value = sint (f64_to_i32 oor v);
          wide = and_then (enc_write_byte 0x44) (\<lambda>_. and_then (writeBEDouble v) (\<lambda>_. ret True))
      in if f64_eq (f64_of_int int_value) v then
           if int_value = 0 then and_then (enc_write_byte 0x5b) (\<lambda>_. ret True)
           else if int_value = 1 then and_then (enc_write_byte 0x5c) (\<lambda>_. ret True)
           else if - 0x80 \<le> int_value \<and> int_value < 0x80 then
             and_then (enc_write_byte 0x5d) (\<lambda>_.
             and_then (enc_writeBE (word_of_int int_value :: i8)) (\<lambda>_. ret True))
           else if - 0x8000 \<le> int_value \<and> int_value < 0x8000 then
             and_then (enc_write_byte 0x5e) (\<lambda>_.
             and_then (enc_writeBE (word_of_int (drop_bit 8 int_value) :: i8)) (\<lambda>_.
             and_then (enc_writeBE (word_of_int int_value :: u8)) (\<lambda>_. ret True)))
           else wide
         else wide)"

section \<open>Integers as doubles\<close>

lemma ilog2_bounds: "0 < m \<Longrightarrow> 2 ^ ilog2 m \<le> m \<and> m < 2 ^ Suc (ilog2 m)"
proof (induction m rule: ilog2.induct)
  case (1 m)
  show ?case
  proof (cases "m < 2")
    case True
    with "1.prems" show ?thesis by (simp add: ilog2.simps [of m])
  next
    case False
    with "1.IH" have "2 ^ ilog2 (m div 2) \<le> m div 2 \<and> m div 2 < 2 ^ Suc (ilog2 (m div 2))" by simp
    then show ?thesis using False unfolding ilog2.simps [of m] by auto
  qed
qed

lemma ilog2_numeral [simp]:
  "ilog2 1 = 0" "ilog2 (Suc 0) = 0" "ilog2 (numeral (num.Bit0 k)) = Suc (ilog2 (numeral k))"
  "ilog2 (numeral (num.Bit1 k)) = Suc (ilog2 (numeral k))"
  by (subst ilog2.simps; simp)+

lemma ilog2_less: "0 < m \<Longrightarrow> m < 2 ^ k \<Longrightarrow> ilog2 m < k"
  using ilog2_bounds [of m] power_less_imp_less_exp [of "2::nat" "ilog2 m" k] by linarith

lemma mk_f64_fields:
  assumes "s < 2" and "e < 2 ^ 11" and "f < 2 ^ 52"
  shows "f64_sign (mk_f64 s e f) = s" "f64_exp (mk_f64 s e f) = e" "f64_frac (mk_f64 s e f) = f"
proof -
  have lt: "s * 2 ^ 63 + e * 2 ^ 52 + f < 2 ^ 64" using assms by simp
  then have u: "unat (mk_f64 s e f) = s * 2 ^ 63 + e * 2 ^ 52 + f"
    by (simp only: mk_f64_def unat_of_nat) simp
  have d: "(s * 2 ^ 63 + e * 2 ^ 52 + f) div 2 ^ 52 = s * 2 ^ 11 + e"
    using assms by simp
  show "f64_sign (mk_f64 s e f) = s" using assms unfolding f64_sign_def u by simp
  show "f64_exp (mk_f64 s e f) = e" unfolding f64_exp_def u d using assms by simp
  have m: "s * 2 ^ 63 + e * 2 ^ 52 + f = f + (s * 2 ^ 11 + e) * 2 ^ 52" by simp
  show "f64_frac (mk_f64 s e f) = f"
    unfolding f64_frac_def u m using assms by (simp only: mod_mult_self1) simp
qed

lemma f64_of_int_mantissa:
  assumes "0 < m" and "m < 2 ^ 53"
  shows "2 ^ 52 \<le> m * 2 ^ (52 - ilog2 m)" and "m * 2 ^ (52 - ilog2 m) < 2 ^ 53"
    and "ilog2 m < 53"
proof -
  show l: "ilog2 m < 53" using assms by (rule ilog2_less)
  then have split: "(2::nat) ^ 52 = 2 ^ ilog2 m * 2 ^ (52 - ilog2 m)"
    "(2::nat) ^ 53 = 2 ^ Suc (ilog2 m) * 2 ^ (52 - ilog2 m)"
    by (simp_all flip: power_add)
  note b = ilog2_bounds [OF assms(1)]
  show "2 ^ 52 \<le> m * 2 ^ (52 - ilog2 m)" unfolding split using b by (intro mult_le_mono1) simp
  show "m * 2 ^ (52 - ilog2 m) < 2 ^ 53" unfolding split using b by (intro mult_less_mono1) simp_all
qed

lemma f64_of_int_fields:
  assumes "x \<noteq> 0" and "\<bar>x\<bar> < 2 ^ 53"
  shows "f64_sign (f64_of_int x) = (if x < 0 then 1 else 0)"
    and "f64_exp (f64_of_int x) = 1023 + ilog2 (nat \<bar>x\<bar>)"
    and "f64_frac (f64_of_int x) = nat \<bar>x\<bar> * 2 ^ (52 - ilog2 (nat \<bar>x\<bar>)) - 2 ^ 52"
proof -
  let ?m = "nat \<bar>x\<bar>"
  have "0 < ?m" "?m < 2 ^ 53" using assms by auto
  note m = f64_of_int_mantissa [OF this]
  have "q - 2 ^ 52 < 2 ^ 52" if "2 ^ 52 \<le> q" "q < 2 ^ 53" for q :: nat using that by simp
  then have f: "?m * 2 ^ (52 - ilog2 ?m) - 2 ^ 52 < 2 ^ 52" using m(1,2) .
  have e: "1023 + ilog2 ?m < 2 ^ 11" using m(3) by simp
  have v: "f64_of_int x = mk_f64 (if x < 0 then 1 else 0) (1023 + ilog2 ?m) (?m * 2 ^ (52 - ilog2 ?m) - 2 ^ 52)"
    using assms by (simp add: f64_of_int_def Let_def)
  show "f64_sign (f64_of_int x) = (if x < 0 then 1 else 0)"
    "f64_exp (f64_of_int x) = 1023 + ilog2 ?m"
    "f64_frac (f64_of_int x) = ?m * 2 ^ (52 - ilog2 ?m) - 2 ^ 52"
    unfolding v by (subst mk_f64_fields [OF _ e f]; simp)+
qed

lemma f64_is_zero_of_int_iff:
  assumes "\<bar>x\<bar> < 2 ^ 53" shows "f64_is_zero (f64_of_int x) \<longleftrightarrow> x = 0"
proof (cases "x = 0")
  case True
  then show ?thesis by (simp add: f64_of_int_def f64_is_zero_def f64_exp_def f64_frac_def)
next
  case False
  then show ?thesis using f64_of_int_fields(2) [OF False assms] by (simp add: f64_is_zero_def)
qed

lemma f64_trunc_of_int:
  assumes "\<bar>x\<bar> < 2 ^ 52"
  shows "f64_trunc (f64_of_int x) = Some x"
proof (cases "x = 0")
  case True
  then show ?thesis
    by (simp add: f64_of_int_def f64_trunc_def f64_exp_def f64_frac_def f64_sign_def)
next
  case False
  let ?m = "nat \<bar>x\<bar>"
  have lt: "\<bar>x\<bar> < 2 ^ 53" using assms by simp
  note fields = f64_of_int_fields [OF False lt]
  have m: "0 < ?m" "?m < 2 ^ 53" "?m < 2 ^ 52" using False assms by auto
  have l: "ilog2 ?m < 52" using ilog2_less [OF m(1,3)] .
  have "2 ^ 52 + (?m * 2 ^ (52 - ilog2 ?m) - 2 ^ 52) = ?m * 2 ^ (52 - ilog2 ?m)"
    using f64_of_int_mantissa(1) [OF m(1,2)] by simp
  then show ?thesis using l fields False
    by (simp add: f64_trunc_def Let_def)
qed

lemma f64_of_int_not_nan:
  assumes "\<bar>x\<bar> < 2 ^ 52" shows "\<not> f64_is_nan (f64_of_int x)"
proof (cases "x = 0")
  case False
  have "ilog2 (nat \<bar>x\<bar>) < 52" using False assms by (intro ilog2_less) auto
  then show ?thesis using f64_of_int_fields(2) [OF False] assms by (simp add: f64_is_nan_def)
qed (simp add: f64_is_nan_def f64_of_int_def f64_exp_def)

lemma f64_neg_zero_is_zero: "f64_is_zero f64_neg_zero"
  by (simp add: f64_is_zero_def f64_exp_def f64_frac_def f64_neg_zero_def)

lemma f64_is_zero_iff: "f64_is_zero v \<longleftrightarrow> v = 0 \<or> v = f64_neg_zero"
proof
  assume "f64_is_zero v"
  then have z: "unat v div 2 ^ 52 mod 2 ^ 11 = 0" "unat v mod 2 ^ 52 = 0"
    by (simp_all add: f64_is_zero_def f64_exp_def f64_frac_def)
  obtain k where k: "unat v div 2 ^ 52 = 2 ^ 11 * k" using z(1) by blast
  have v: "unat v = 2 ^ 11 * k * 2 ^ 52"
    using z(2) div_mult_mod_eq [of "unat v" "2 ^ 52"] unfolding k by simp
  have "unat v < 2 ^ 64" using unsigned_less [of v] by simp
  then have "k < 2" unfolding v by simp
  then have "k = 0 \<or> k = 1" by linarith
  then have "unat v = 0 \<or> unat v = unat f64_neg_zero"
    unfolding v by (auto simp: f64_neg_zero_def)
  then show "v = 0 \<or> v = f64_neg_zero"
    by (metis unat_0_iff word_unat_eq_iff)
next
  show "v = 0 \<or> v = f64_neg_zero \<Longrightarrow> f64_is_zero v"
    using f64_neg_zero_is_zero by (auto simp: f64_is_zero_def f64_exp_def f64_frac_def)
qed

lemma f64_of_int_not_neg_zero:
  assumes "\<bar>x\<bar> < 2 ^ 53" shows "f64_of_int x \<noteq> f64_neg_zero"
proof
  assume z: "f64_of_int x = f64_neg_zero"
  then have "x = 0" using f64_is_zero_of_int_iff [OF assms] f64_neg_zero_is_zero by simp
  then show False using z by (simp add: f64_of_int_def f64_neg_zero_def)
qed

section \<open>The codec contract\<close>

definition double_repr :: "(f64 \<Rightarrow> i32) \<Rightarrow> f64 \<Rightarrow> bytes" where
  "double_repr oor v = (let x = sint (f64_to_i32 oor v) in
     if f64_eq (f64_of_int x) v \<and> - 0x8000 \<le> x \<and> x < 0x8000 then
       if x = 0 then [0x5b]
       else if x = 1 then [0x5c]
       else if - 0x80 \<le> x \<and> x < 0x80 then [0x5d, word_of_int x]
       else [0x5e, word_of_int (x div 256), word_of_int x]
     else 0x44 # be_bytes 8 (unat v))"

lemma encode_double_encodes: "encodes (encode_double oor v) (double_repr oor v)"
  by (auto simp: encodes_def encode_double_def double_repr_def Let_def writeBEDouble_def drop_bit_eq_div)

lemma double_decodes_byte:
  assumes "- 0x80 \<le> x" and "x < 0x80"
  shows "decodes decode_double [0x5d, word_of_int x] (f64_of_int x)"
proof -
  have "sint (word_of_int x :: i8) = x" by (rule sint_of_int_in_range) (use assms in simp_all)
  then show ?thesis
    using decodes_fixed [where n = 1 and w = "word_of_int x :: i8"
        and f = "\<lambda>b. ret (f64_of_int (sint (snd b)))" and x = "f64_of_int x"]
    unfolding decode_double_def
    by (intro decodes_readBE_u8_then) (simp add: Let_def decodes_ret)
qed

lemma double_decodes_short:
  assumes "- 0x8000 \<le> x" and "x < 0x8000"
  shows "decodes decode_double [0x5e, word_of_int (x div 256), word_of_int x] (f64_of_int x)"
proof -
  have "sint (word_of_int x :: i16) = x" by (rule sint_of_int_in_range) (use assms in simp_all)
  then show ?thesis
    using decodes_fixed [where n = 2 and w = "word_of_int x :: i16"
        and f = "\<lambda>b. ret (f64_of_int (sint (snd b)))" and x = "f64_of_int x"]
    unfolding decode_double_def
    by (intro decodes_readBE_u8_then) (simp add: Let_def decodes_ret be_bytes_u16)
qed

lemma decodes_double8:
  "decodes (and_then dec_byte_available (\<lambda>n. if n < 8 then nullptr else readBE_double8))
    (be_bytes 8 (unat v)) v"
  unfolding readBE_double8_def by (rule decodes_fixed) (simp_all add: decodes_ret)

lemma decodes_double4:
  "decodes (and_then dec_byte_available (\<lambda>n. if n < 4 then nullptr else readBE_double4))
    (be_bytes 4 (unat (w :: i32))) (f64_mul_001 (sint w))"
  unfolding readBE_double4_def by (rule decodes_fixed) (simp_all add: decodes_ret)

lemma double_decodes_full: "decodes decode_double (0x44 # be_bytes 8 (unat v)) v"
  unfolding decode_double_def
  by (rule decodes_readBE_u8_then) (use decodes_double8 in \<open>simp add: Let_def\<close>)

lemma double_decodes_single: "decodes decode_double (0x5f # be_bytes 4 (unat (w :: i32))) (f64_mul_001 (sint w))"
  unfolding decode_double_def
  by (rule decodes_readBE_u8_then) (use decodes_double4 in \<open>simp add: Let_def\<close>)

lemma double_decodes_zero_one:
  "decodes decode_double [0x5b] (f64_of_int 0)" "decodes decode_double [0x5c] (f64_of_int 1)"
  unfolding decode_double_def by (rule decodes_readBE_u8_then; simp add: Let_def decodes_ret)+

text \<open>An integer-valued double equals the double of its \<open>int32_t\<close>, except for the negative zero.\<close>

lemma f64_eq_of_int:
  assumes "f64_eq (f64_of_int (sint (i :: i32))) v" and "v \<noteq> f64_neg_zero"
  shows "v = f64_of_int (sint i)"
proof (cases "f64_of_int (sint i) = v")
  case False
  with assms have z: "f64_is_zero (f64_of_int (sint i))" "f64_is_zero v"
    by (auto simp: f64_eq_def)
  have "\<bar>sint i\<bar> < 2 ^ 53" using sint_i32_bounds [of i] by simp
  with z(1) have "sint i = 0" by (simp add: f64_is_zero_of_int_iff)
  with z(2) assms(2) show ?thesis by (simp add: f64_is_zero_iff f64_of_int_def)
qed simp

lemma decode_double_decodes:
  assumes "v \<noteq> f64_neg_zero"
  shows "decodes decode_double (double_repr oor v) v"
proof -
  let ?x = "sint (f64_to_i32 oor v)"
  show ?thesis
  proof (cases "f64_eq (f64_of_int ?x) v \<and> - 0x8000 \<le> ?x \<and> ?x < 0x8000")
    case True
    then have v: "f64_of_int ?x = v"
      by (intro f64_eq_of_int [OF _ assms, symmetric]) (rule conjunct1)
    have "decodes decode_double (double_repr oor v) (f64_of_int ?x)"
      using True double_decodes_byte [of ?x] double_decodes_short [of ?x] double_decodes_zero_one
      unfolding double_repr_def Let_def by (cases "?x = 0"; cases "?x = 1") auto
    then show ?thesis by (simp add: v)
  next
    case False
    then show ?thesis using double_decodes_full [of v]
      unfolding double_repr_def Let_def by (simp only: if_False)
  qed
qed

interpretation double_codec: value_codec "encode_double oor" decode_double "double_repr oor"
    "\<lambda>v. v \<noteq> f64_neg_zero" for oor
  by unfold_locales (auto simp: encode_double_encodes decode_double_decodes)

text \<open>The two assertions inside of \<open>readBE<double, N>\<close> hold, because the length was checked before.\<close>

lemma available_then_run:
  "wf_decoder d \<Longrightarrow> and_then dec_byte_available f d = f (length (unread d)) d"
  by (simp add: and_then_def)

lemma safe_guarded_read:
  assumes "byte_sized TYPE('a::len)" and "size_of TYPE('a) = n"
  shows "safe (and_then dec_byte_available (\<lambda>k. if k < n then nullptr else
    and_then dec_readBE (\<lambda>res :: bool \<times> 'a word. if fst res then ret (f' (snd res)) else abort)))"
  unfolding safe_def
proof (intro allI impI)
  fix d r d' assume wf: "wf_decoder d" and run: "and_then dec_byte_available (\<lambda>k. if k < n then nullptr
    else and_then dec_readBE (\<lambda>res :: bool \<times> 'a word. if fst res then ret (f' (snd res)) else abort)) d
    = (r, d')"
  show "r \<noteq> Abort \<and> r \<noteq> Hang \<and> wf_decoder d' \<and> (\<exists>m. unread d' = drop m (unread d))"
    using run wf assms(1,2) dec_readBE_run [OF assms(1) wf]
    by (cases "length (unread d) < n")
      (auto simp: available_then_run and_then_def not_less intro: exI [of _ 0])
qed

lemma safe_decode_double [safe_intros]: "safe decode_double"
  unfolding decode_double_def readBE_double4_def readBE_double8_def
  by (intro safe_guarded_read safe_intros; simp add: safe_basic)

section \<open>Properties\<close>

text \<open>
  C21. Every double except the negative zero (every NaN pattern and both infinities included) is
  decoded to the same bit pattern after encoding, whatever the undefined conversion of an
  out-of-range double to \<open>int32_t\<close> returns.
\<close>

theorem double_round_trip:
  assumes "v \<noteq> f64_neg_zero" and "length (encoded (encode_double oor v) @ rest) < 2 ^ 63"
  shows "decode_double (new_decoder (encoded (encode_double oor v) @ rest))
    = (Ret v, advance (length (encoded (encode_double oor v)))
        (new_decoder (encoded (encode_double oor v) @ rest)))"
  using assms by (rule double_codec.round_trip)

lemma encoded_double: "encoded (encode_double oor v) = double_repr oor v"
  by (simp add: encoded_def encodesD [OF encode_double_encodes] new_encoder_def)

theorem double_round_trip_witness:
  "fst (decode_double (new_decoder (encoded (encode_double (\<lambda>_. 0) 0x7ff8000000000001)))) =
    Ret 0x7ff8000000000001"
proof -
  have "encoded (encode_double (\<lambda>_. 0) 0x7ff8000000000001) = 0x44 # be_bytes 8 0x7ff8000000000001"
    by (simp add: encoded_double double_repr_def Let_def f64_eq_def f64_is_nan_def f64_exp_def
        f64_frac_def)
  then have "length (encoded (encode_double (\<lambda>_. 0) 0x7ff8000000000001) @ []) < 2 ^ 63" by simp
  from double_round_trip [OF _ this] show ?thesis by (simp add: f64_neg_zero_def)
qed

text \<open>
  The negative zero loses its sign: it compares equal to the integer 0, is written as the
  one-byte \<open>0.0\<close>, and comes back as the positive zero.
\<close>

theorem double_negative_zero_lost:
  "encoded (encode_double oor f64_neg_zero) = [0x5b]
    \<and> decoded decode_double (encoded (encode_double oor f64_neg_zero)) = Ret 0
    \<and> f64_neg_zero \<noteq> 0"
proof -
  have "f64_trunc f64_neg_zero = Some 0"
    by (simp add: f64_trunc_def f64_exp_def f64_frac_def f64_neg_zero_def)
  moreover have "f64_eq (f64_of_int 0) f64_neg_zero"
    by (simp add: f64_eq_def f64_of_int_def f64_is_nan_def f64_is_zero_def f64_exp_def f64_frac_def
        f64_neg_zero_def)
  ultimately have e: "encoded (encode_double oor f64_neg_zero) = [0x5b]"
    by (simp add: encoded_double double_repr_def Let_def f64_to_i32_def)
  have "decode_double (new_decoder [0x5b]) = (Ret (f64_of_int 0), advance 1 (new_decoder [0x5b]))"
    using decodesD [OF double_decodes_zero_one(1), of "new_decoder [0x5b]" "[]"] by simp
  then have "decoded decode_double [0x5b] = Ret 0" by (simp add: decoded_def f64_of_int_def)
  moreover have "f64_neg_zero \<noteq> 0" by (simp add: f64_neg_zero_def)
  ultimately show ?thesis by (simp add: e)
qed

text \<open>
  A double that is an integer between -32768 and 32767 takes one byte for 0 and 1, two bytes
  from -128 to 127 and three bytes otherwise; the conversion to \<open>int32_t\<close> is exact there.
\<close>

theorem double_compact_length:
  assumes "- 32768 \<le> x" and "x \<le> 32767"
  shows "length (encoded (encode_double oor (f64_of_int x)))
    = (if x = 0 \<or> x = 1 then 1 else if - 128 \<le> x \<and> x \<le> 127 then 2 else 3)"
proof -
  have x: "\<bar>x\<bar> < 2 ^ 52" using assms by auto
  have i: "sint (word_of_int x :: i32) = x" by (rule sint_of_int_in_range) (use assms in simp_all)
  then have "sint (f64_to_i32 oor (f64_of_int x)) = x"
    using assms f64_trunc_of_int [OF x] by (simp add: f64_to_i32_def)
  moreover have "\<not> f64_is_nan (f64_of_int x)" using x by (rule f64_of_int_not_nan)
  ultimately show ?thesis using assms
    by (simp add: encoded_double double_repr_def Let_def f64_eq_def)
qed

theorem double_compact_length_witness:
  "length (encoded (encode_double (\<lambda>_. 0) (f64_of_int (- 129)))) = 3"
  using double_compact_length [of "- 129" "\<lambda>_. 0"] by simp

text \<open>
  The four-byte form \<open>x5f\<close> is read as a count of thousandths: the payload is taken as an
  \<open>int32_t\<close> and multiplied by 0.001. The grammar comment calls it a 32-bit float; a payload that
  is the float 1.0 does not decode to 1.0.
\<close>

theorem double_single_is_thousandths:
  "decoded decode_double (0x5f # be_bytes 4 (unat (w :: i32))) = Ret (f64_mul_001 (sint w))
   \<and> decoded decode_double (0x5f # be_bytes 4 0x3f800000) \<noteq> Ret (f64_of_int 1)"
proof -
  have dec: "decoded decode_double (0x5f # be_bytes 4 (unat (w :: i32))) = Ret (f64_mul_001 (sint w))" for w
    using decodesD [OF double_decodes_single, of "new_decoder (0x5f # be_bytes 4 (unat w))" w "[]"]
    by (simp add: decoded_def)
  have "f64_mul_001 (sint (0x3f800000 :: i32)) \<noteq> f64_of_int 1"
    by (simp add: f64_mul_001_def Let_def f64_of_int_def mk_f64_def)
  then show ?thesis using dec [of w] dec [of "0x3f800000"] by simp
qed

end
