(* ===== verification/Date_Codec.thy ===== *)
theory Date_Codec
  imports Number_Codec
begin

text \<open>
  Dates (src/hessian2/basic_codec/date_codec.cc): \<open>std::chrono\<close> durations of any period, written
  as 32-bit minutes when they are a whole number of minutes and as 64-bit milliseconds
  otherwise. A duration is its count, an \<open>int64_t\<close>; its period is a fraction of a second.
\<close>

section \<open>std::chrono durations\<close>

type_synonym period = "nat \<times> nat"

definition milliseconds :: period where "milliseconds = (1, 1000)"
definition seconds :: period where "seconds = (1, 1)"
definition minutes :: period where "minutes = (60, 1)"
definition hours :: period where "hours = (3600, 1)"
definition days :: period where "days = (86400, 1)"
definition weeks :: period where "weeks = (604800, 1)"
definition years :: period where "years = (31556952, 1)"
definition months :: period where "months = (2629746, 1)"

lemma period_simps [simp]:
  "fst milliseconds = 1" "snd milliseconds = 1000" "fst seconds = 1" "snd seconds = 1"
  "fst minutes = 60" "snd minutes = 1" "fst hours = 3600" "snd hours = 1"
  by (simp_all add: milliseconds_def seconds_def minutes_def hours_def)

text \<open>Integer division of C++: towards zero.\<close>

definition tdiv :: "int \<Rightarrow> int \<Rightarrow> int" where
  "tdiv a b = (if a < 0 then - ((- a) div b) else a div b)"

text \<open>
  \<open>duration_cast\<close>: the ratio of the periods in lowest terms, the multiplication before the
  division; an overflow of the product is undefined behaviour (\<open>None\<close>).
\<close>

definition duration_cast :: "period \<Rightarrow> period \<Rightarrow> i64 \<Rightarrow> i64 option" where
  "duration_cast from to c =
     (let n = fst from * snd to; d = snd from * fst to; g = gcd n d;
          p = sint c * int (n div g)
      in if - (2 ^ 63) \<le> p \<and> p < 2 ^ 63 then Some (word_of_int (tdiv p (int (d div g)))) else None)"

definition of_defined :: "'a option \<Rightarrow> ('s, 'a) comp" where
  "of_defined x = (case x of None \<Rightarrow> abort | Some v \<Rightarrow> ret v)"

section \<open>Operations\<close>

definition readDate :: "period \<Rightarrow> (decoder, i64) comp" where
  "readDate t = and_then dec_read_u8 (\<lambda>res.
     let code = snd res in
     if code = 0x4b then
       and_then dec_byte_available (\<lambda>n. if n < 4 then nullptr else
       and_then dec_readBE (\<lambda>b :: bool \<times> i32.
         of_defined (duration_cast minutes t (word_of_int (sint (snd b))))))
     else if code = 0x4a then
       and_then dec_byte_available (\<lambda>n. if n < 8 then nullptr else
       and_then dec_readBE (\<lambda>b :: bool \<times> i64.
         of_defined (duration_cast milliseconds t (snd b))))
     else nullptr)"

definition writeDate :: "period \<Rightarrow> i64 \<Rightarrow> (encoder, unit) comp" where
  "writeDate t v =
     and_then (of_defined (duration_cast t minutes v)) (\<lambda>value_in_min.
     and_then (of_defined (duration_cast t milliseconds v)) (\<lambda>value_in_ms.
     if sint value_in_min * 60000 = sint value_in_ms then
       and_then (enc_write_byte 0x4b) (\<lambda>_. enc_writeBE (word_of_int (sint value_in_min) :: i32))
     else
       and_then (enc_write_byte 0x4a) (\<lambda>_. enc_writeBE value_in_ms)))"

text \<open>The specialisations: milliseconds and minutes have encoders of their own.\<close>

definition decode_milliseconds :: "(decoder, i64) comp" where
  "decode_milliseconds = readDate milliseconds"

definition decode_minutes :: "(decoder, i64) comp" where
  "decode_minutes = readDate minutes"

definition decode_seconds :: "(decoder, i64) comp" where
  "decode_seconds = readDate seconds"

definition decode_hours :: "(decoder, i64) comp" where
  "decode_hours = readDate hours"

definition encode_minutes :: "i64 \<Rightarrow> (encoder, bool) comp" where
  "encode_minutes v =
     and_then (enc_write_byte 0x4b) (\<lambda>_.
     and_then (enc_writeBE (word_of_int (sint v) :: i32)) (\<lambda>_. ret True))"

definition encode_milliseconds :: "i64 \<Rightarrow> (encoder, bool) comp" where
  "encode_milliseconds v =
     and_then (of_defined (duration_cast milliseconds minutes v)) (\<lambda>value_min.
     if sint value_min * 60000 = sint v then encode_minutes value_min
     else
       and_then (enc_write_byte 0x4a) (\<lambda>_.
       and_then (enc_writeBE v) (\<lambda>_. ret True)))"

definition encode_seconds :: "i64 \<Rightarrow> (encoder, bool) comp" where
  "encode_seconds v = and_then (writeDate seconds v) (\<lambda>_. ret True)"

definition encode_hours :: "i64 \<Rightarrow> (encoder, bool) comp" where
  "encode_hours v = and_then (writeDate hours v) (\<lambda>_. ret True)"

text \<open>Days, weeks, years and months exist only with a C++20 \<open>chrono\<close>.\<close>

definition decode_days :: "(decoder, i64) comp" where
  "decode_days = readDate days"

definition decode_weeks :: "(decoder, i64) comp" where
  "decode_weeks = readDate weeks"

definition decode_years :: "(decoder, i64) comp" where
  "decode_years = readDate years"

definition decode_months :: "(decoder, i64) comp" where
  "decode_months = readDate months"

definition encode_days :: "i64 \<Rightarrow> (encoder, bool) comp" where
  "encode_days v = and_then (writeDate days v) (\<lambda>_. ret True)"

definition encode_weeks :: "i64 \<Rightarrow> (encoder, bool) comp" where
  "encode_weeks v = and_then (writeDate weeks v) (\<lambda>_. ret True)"

definition encode_years :: "i64 \<Rightarrow> (encoder, bool) comp" where
  "encode_years v = and_then (writeDate years v) (\<lambda>_. ret True)"

definition encode_months :: "i64 \<Rightarrow> (encoder, bool) comp" where
  "encode_months v = and_then (writeDate months v) (\<lambda>_. ret True)"

section \<open>Conversions between periods\<close>

lemma of_defined_simps [simp]: "of_defined (Some v) = ret v" "of_defined None = abort"
  by (simp_all add: of_defined_def)

lemma tdiv_exact [simp]: "0 < b \<Longrightarrow> tdiv (a * b) b = a"
proof -
  assume b: "0 < b"
  have "- (a * b) div b = - a" using b by (metis minus_mult_left less_irrefl nonzero_mult_div_cancel_right)
  then show ?thesis using b by (simp add: tdiv_def)
qed

lemma tdiv_cancel: "0 < g \<Longrightarrow> tdiv (a * g) (b * g) = tdiv a b"
  by (simp add: tdiv_def mult_less_0_iff flip: mult_minus_left)

lemma int_div_bounds: "0 \<le> a \<Longrightarrow> 0 < b \<Longrightarrow> 0 \<le> a div b \<and> a div b \<le> (a :: int)"
  using zdiv_mono2 [of a 1 b] by (simp add: pos_imp_zdiv_nonneg_iff)

lemma tdiv_abs_le: "0 < b \<Longrightarrow> \<bar>tdiv a b\<bar> \<le> \<bar>a\<bar>"
  using int_div_bounds [of a b] int_div_bounds [of "- a" b] by (simp add: tdiv_def)

lemma tdiv_one [simp]: "tdiv a 1 = a"
  by (simp add: tdiv_def)

lemma tdiv_times_eq_iff: "0 < b \<Longrightarrow> tdiv a b * b = a \<longleftrightarrow> b dvd a"
proof
  assume b: "0 < b" and "b dvd a"
  then obtain q where "a = q * b" by (metis dvd_def mult.commute)
  with b show "tdiv a b * b = a" by simp
qed (metis dvd_triv_right)

lemma tdiv_dvd: "0 < b \<Longrightarrow> b dvd a \<Longrightarrow> tdiv a b = a div b"
  by (metis dvd_def mult.commute nonzero_mult_div_cancel_right less_irrefl tdiv_exact)

lemma duration_cast_some:
  assumes "0 < fst from * snd to" and "0 < snd from * fst to"
    and "\<bar>sint c\<bar> * int (fst from * snd to) < 2 ^ 63"
  shows "duration_cast from to c
    = Some (word_of_int (tdiv (sint c * int (fst from * snd to)) (int (snd from * fst to))))"
proof -
  let ?n = "fst from * snd to" and ?d = "snd from * fst to"
  let ?g = "gcd ?n ?d"
  have g: "0 < ?g" using assms(1) by simp
  have split: "int ?n = int (?n div ?g) * int ?g" "int ?d = int (?d div ?g) * int ?g"
    by (simp_all flip: of_nat_mult)
  have "int (?n div ?g) \<le> int ?n" by (simp only: of_nat_le_iff div_le_dividend)
  then have "\<bar>sint c\<bar> * int (?n div ?g) \<le> \<bar>sint c\<bar> * int ?n" by (rule mult_left_mono) simp
  with assms(3) have "\<bar>sint c * int (?n div ?g)\<bar> < 2 ^ 63" by (simp add: abs_mult)
  then have "- (2 ^ 63) \<le> sint c * int (?n div ?g) \<and> sint c * int (?n div ?g) < 2 ^ 63"
    by (simp only: abs_less_iff) simp
  moreover have "tdiv (sint c * int ?n) (int ?d) = tdiv (sint c * int (?n div ?g)) (int (?d div ?g))"
    using tdiv_cancel [of "int ?g" "sint c * int (?n div ?g)" "int (?d div ?g)"] g
    by (simp only: split(1) split(2) mult.assoc of_nat_0_less_iff)
  ultimately show ?thesis by (simp only: duration_cast_def Let_def if_True simp_thms)
qed

lemma duration_cast_same: "0 < fst p * snd p \<Longrightarrow> duration_cast p p c = Some c"
  using sint_i64_bounds [of c] by (simp add: duration_cast_def Let_def mult.commute [of "snd p"])

lemma sint_i64_of_int: "\<bar>x\<bar> < 2 ^ 63 \<Longrightarrow> sint (word_of_int x :: i64) = x"
  by (rule sint_of_int_in_range) auto

lemma sint_i32_of_int: "- (2 ^ 31) \<le> x \<Longrightarrow> x < 2 ^ 31 \<Longrightarrow> sint (word_of_int x :: i32) = x"
  by (rule sint_of_int_in_range) auto

section \<open>The codec contracts\<close>

text \<open>
  What is written for \<open>s\<close> thousandths of a second: minutes, cut to 32 bits, when \<open>s\<close> is a whole
  number of minutes, milliseconds otherwise.
\<close>

definition date_repr :: "int \<Rightarrow> bytes" where
  "date_repr ms =
     (if 60000 dvd ms then 0x4b # be_bytes 4 (unat (word_of_int (ms div 60000) :: i32))
      else 0x4a # be_bytes 8 (unat (word_of_int ms :: i64)))"

text \<open>The minutes fit into 32 bits.\<close>

definition date_ok :: "int \<Rightarrow> bool" where
  "date_ok ms \<longleftrightarrow> - (2 ^ 63) \<le> ms \<and> ms < 2 ^ 63 \<and> (60000 dvd ms \<longrightarrow> - (2 ^ 31) \<le> ms div 60000 \<and> ms div 60000 < 2 ^ 31)"

lemma date_ok_thousands: "date_ok (x * 1000) \<Longrightarrow> \<bar>x\<bar> * 1000 < 2 ^ 63"
proof -
  assume ok: "date_ok (x * 1000)"
  have "x * 1000 \<noteq> - 9223372036854775808"
  proof
    assume "x * 1000 = - 9223372036854775808"
    then have "- 9223372036854775808 mod (1000 :: int) = 0" by (metis mod_mult_self2_is_0)
    then show False by simp
  qed
  with ok show ?thesis by (simp add: date_ok_def abs_if)
qed

lemma readDate_minutes:
  assumes "duration_cast minutes t (word_of_int (sint w)) = Some v"
  shows "decodes (readDate t) (0x4b # be_bytes 4 (unat (w :: i32))) v"
  unfolding readDate_def
  by (rule decodes_read_u8_then) (use assms in \<open>simp add: Let_def decodes_fixed decodes_ret\<close>)

lemma readDate_millis:
  assumes "duration_cast milliseconds t w = Some v"
  shows "decodes (readDate t) (0x4a # be_bytes 8 (unat w)) v"
  unfolding readDate_def
  by (rule decodes_read_u8_then) (use assms in \<open>simp add: Let_def decodes_fixed decodes_ret\<close>)

lemma minutes_to_millis:
  "duration_cast minutes milliseconds (word_of_int (sint (w :: i32)))
    = Some (word_of_int (sint w * 60000))"
proof -
  have w: "sint (word_of_int (sint w) :: i64) = sint w"
    by (rule sint_i64_of_int) (use sint_i32_bounds [of w] in auto)
  have "\<bar>sint w\<bar> * 60000 < 2 ^ 63" using sint_i32_bounds [of w] by (simp add: abs_le_iff)
  then show ?thesis
    using duration_cast_some [of minutes milliseconds "word_of_int (sint w)"] unfolding w by simp
qed

lemma millis_to_minutes:
  "duration_cast milliseconds minutes v = Some (word_of_int (tdiv (sint v) 60000))"
  "sint (word_of_int (tdiv (sint v) 60000) :: i64) = tdiv (sint v) 60000"
proof -
  have v: "\<bar>tdiv (sint v) 60000\<bar> \<le> \<bar>sint v\<bar>" by (rule tdiv_abs_le) simp
  show "duration_cast milliseconds minutes v = Some (word_of_int (tdiv (sint v) 60000))"
    using sint_i64_bounds [of v] by (simp add: duration_cast_def Let_def)
  show "sint (word_of_int (tdiv (sint v) 60000) :: i64) = tdiv (sint v) 60000"
    using v sint_i64_bounds [of v] by (intro sint_of_int_in_range) (auto simp: tdiv_def)
qed

lemma encode_milliseconds_encodes: "encodes (encode_milliseconds v) (date_repr (sint v))"
proof (cases "60000 dvd sint v")
  case True
  then have q: "tdiv (sint v) 60000 = sint v div 60000" by (intro tdiv_dvd) simp_all
  have w: "sint (word_of_int (sint v div 60000) :: i64) = sint v div 60000"
    using millis_to_minutes(2) [of v] unfolding q .
  show ?thesis using True
    by (simp add: encodes_def encode_milliseconds_def encode_minutes_def millis_to_minutes(1) date_repr_def
        q w del: of_int_sint)
next
  case False
  then have "tdiv (sint v) 60000 * 60000 \<noteq> sint v" by (simp add: tdiv_times_eq_iff)
  then show ?thesis using False
    by (simp add: encodes_def encode_milliseconds_def millis_to_minutes date_repr_def del: of_int_sint)
qed

lemma decode_milliseconds_decodes:
  assumes "date_ok (sint v)"
  shows "decodes decode_milliseconds (date_repr (sint v)) v"
proof (cases "60000 dvd sint v")
  case True
  with assms have m: "sint (word_of_int (sint v div 60000) :: i32) = sint v div 60000"
    by (intro sint_i32_of_int) (simp_all add: date_ok_def)
  have "decodes decode_milliseconds (date_repr (sint v)) (word_of_int (sint v div 60000 * 60000))"
    using readDate_minutes [OF minutes_to_millis, of "word_of_int (sint v div 60000)", unfolded m] True
    by (simp only: decode_milliseconds_def date_repr_def if_True)
  then show ?thesis using True by simp
next
  case False
  then show ?thesis
    using readDate_millis [OF duration_cast_same, of v]
    by (simp add: decode_milliseconds_def date_repr_def)
qed

interpretation ms_codec: value_codec encode_milliseconds decode_milliseconds
    "\<lambda>v. date_repr (sint v)" "\<lambda>v. date_ok (sint v)"
  by unfold_locales (auto simp: encode_milliseconds_encodes decode_milliseconds_decodes)

text \<open>
  The other durations are written through milliseconds: for a period of \<open>k\<close> whole seconds, as
  long as the count of milliseconds does not overflow.
\<close>

lemma whole_seconds_casts:
  assumes "0 < k" and "\<bar>sint v\<bar> * int k * 1000 < 2 ^ 63"
  shows "duration_cast (k, 1) minutes v = Some (word_of_int (tdiv (sint v * int k) 60))"
    and "duration_cast (k, 1) milliseconds v = Some (word_of_int (sint v * int k * 1000))"
    and "sint (word_of_int (tdiv (sint v * int k) 60) :: i64) = tdiv (sint v * int k) 60"
    and "sint (word_of_int (sint v * int k * 1000) :: i64) = sint v * int k * 1000"
proof -
  have b: "\<bar>sint v * int k\<bar> * 1000 < 2 ^ 63" using assms by (simp add: abs_mult)
  have "0 \<le> \<bar>sint v\<bar> * int k" by simp
  with assms(2) have b': "\<bar>sint v\<bar> * int k < 2 ^ 63" by linarith
  show "duration_cast (k, 1) minutes v = Some (word_of_int (tdiv (sint v * int k) 60))"
    using duration_cast_some [of "(k, 1)" minutes v] assms(1) b' by simp
  show "duration_cast (k, 1) milliseconds v = Some (word_of_int (sint v * int k * 1000))"
    using duration_cast_some [of "(k, 1)" milliseconds v] assms by (simp add: mult.assoc)
  show "sint (word_of_int (tdiv (sint v * int k) 60) :: i64) = tdiv (sint v * int k) 60"
    using tdiv_abs_le [of 60 "sint v * int k"] b by (intro sint_i64_of_int) simp
  show "sint (word_of_int (sint v * int k * 1000) :: i64) = sint v * int k * 1000"
    using b by (intro sint_i64_of_int) (simp add: abs_mult)
qed

lemma writeDate_run:
  assumes "0 < k" and "\<bar>sint v\<bar> * int k * 1000 < 2 ^ 63"
  shows "writeDate (k, 1) v e = (Ret (), emit (date_repr (sint v * int k * 1000)) e)"
proof -
  let ?s = "sint v * int k"
  have dvd: "(60000 :: int) dvd ?s * 1000 \<longleftrightarrow> 60 dvd ?s"
    using dvd_mult_cancel_right [of "60 :: int" 1000 ?s] by simp
  have q: "?s * 1000 div 60000 = ?s div 60"
    using div_mult_mult2 [of "1000 :: int" ?s 60] by simp
  have lin: "t * 60000 = s * 1000 \<longleftrightarrow> t * 60 = s" for t s :: int by linarith
  have iff: "tdiv ?s 60 * 60000 = ?s * 1000 \<longleftrightarrow> 60 dvd ?s"
    unfolding lin by (rule tdiv_times_eq_iff) simp
  note casts = whole_seconds_casts [OF assms]
  show ?thesis
  proof (cases "60 dvd ?s")
    case True
    then have t: "tdiv ?s 60 = ?s div 60" by (intro tdiv_dvd) simp_all
    have "?s div 60 * 60000 = ?s * 1000" using iff True t by simp
    then show ?thesis using True casts dvd q
      by (simp add: writeDate_def date_repr_def t del: of_int_sint One_nat_def)
  next
    case False
    then have "tdiv ?s 60 * 60000 \<noteq> ?s * 1000" using iff by simp
    then show ?thesis using False casts dvd
      by (simp add: writeDate_def date_repr_def del: of_int_sint One_nat_def)
  qed
qed

lemma readDate_whole_seconds:
  assumes k: "0 < k" and ok: "date_ok (sint v * int k * 1000)"
  shows "decodes (readDate (k, 1)) (date_repr (sint v * int k * 1000)) v"
proof -
  let ?s = "sint v * int k"
  show ?thesis
  proof (cases "(60000 :: int) dvd ?s * 1000")
    case True
    define m where "m = ?s * 1000 div 60000"
    have ms: "?s * 1000 = m * 60000" unfolding m_def by (rule dvd_div_mult_self [OF True, symmetric])
    have m: "- (2 ^ 31) \<le> m" "m < 2 ^ 31" using ok True by (simp_all add: date_ok_def m_def)
    have w: "sint (word_of_int m :: i32) = m" using m by (rule sint_i32_of_int)
    have w': "sint (word_of_int m :: i64) = m" using m by (intro sint_i64_of_int) auto
    have "\<bar>m\<bar> * 60 < 2 ^ 63" using m by (simp add: abs_le_iff)
    then have "duration_cast minutes (k, 1) (word_of_int m) = Some (word_of_int (tdiv (m * 60) (int k)))"
      using duration_cast_some [of minutes "(k, 1)" "word_of_int m"] k w' by simp
    moreover have "m * 60 = sint v * int k" using ms by linarith
    ultimately have "duration_cast minutes (k, 1) (word_of_int m) = Some v" using k by simp
    then have "decodes (readDate (k, 1)) (0x4b # be_bytes 4 (unat (word_of_int m :: i32))) v"
      by (intro readDate_minutes) (simp add: w)
    then show ?thesis using True by (simp add: date_repr_def m_def)
  next
    case False
    have w: "sint (word_of_int (?s * 1000) :: i64) = ?s * 1000"
      using date_ok_thousands [OF ok] by (intro sint_i64_of_int) (simp add: abs_mult)
    have "duration_cast milliseconds (k, 1) (word_of_int (?s * 1000))
      = Some (word_of_int (tdiv (sint v * (int k * 1000)) (int k * 1000)))"
      using duration_cast_some [of milliseconds "(k, 1)" "word_of_int (?s * 1000)", unfolded w]
        k date_ok_thousands [OF ok]
      by (simp add: abs_mult ac_simps)
    then have "duration_cast milliseconds (k, 1) (word_of_int (?s * 1000)) = Some v"
      using k by (subst (asm) tdiv_exact) simp_all
    then have "decodes (readDate (k, 1)) (0x4a # be_bytes 8 (unat (word_of_int (?s * 1000) :: i64))) v"
      by (rule readDate_millis)
    then show ?thesis using False by (simp add: date_repr_def)
  qed
qed

lemma whole_seconds_codec:
  assumes "0 < k"
  shows "value_codec (\<lambda>v. and_then (writeDate (k, 1) v) (\<lambda>_. ret True)) (readDate (k, 1))
    (\<lambda>v. date_repr (sint v * int k * 1000)) (\<lambda>v. date_ok (sint v * int k * 1000))"
proof unfold_locales
  fix v :: i64 assume ok: "date_ok (sint v * int k * 1000)"
  then have "\<bar>sint v\<bar> * int k * 1000 < 2 ^ 63"
    using date_ok_thousands [of "sint v * int k"] by (simp add: abs_mult)
  then show "encodes (and_then (writeDate (k, 1) v) (\<lambda>_. ret True)) (date_repr (sint v * int k * 1000))"
    using writeDate_run [OF assms] by (simp add: encodes_def and_then_def)
  show "decodes (readDate (k, 1)) (date_repr (sint v * int k * 1000)) v"
    by (rule readDate_whole_seconds [OF assms ok])
qed

interpretation s_codec: value_codec encode_seconds decode_seconds
    "\<lambda>v. date_repr (sint v * int 1 * 1000)" "\<lambda>v. date_ok (sint v * int 1 * 1000)"
  unfolding encode_seconds_def decode_seconds_def seconds_def by (rule whole_seconds_codec) simp

interpretation h_codec: value_codec encode_hours decode_hours
    "\<lambda>v. date_repr (sint v * int 3600 * 1000)" "\<lambda>v. date_ok (sint v * int 3600 * 1000)"
  unfolding encode_hours_def decode_hours_def hours_def by (rule whole_seconds_codec) simp

interpretation d_codec: value_codec encode_days decode_days
    "\<lambda>v. date_repr (sint v * int 86400 * 1000)" "\<lambda>v. date_ok (sint v * int 86400 * 1000)"
  unfolding encode_days_def decode_days_def days_def by (rule whole_seconds_codec) simp

interpretation w_codec: value_codec encode_weeks decode_weeks
    "\<lambda>v. date_repr (sint v * int 604800 * 1000)" "\<lambda>v. date_ok (sint v * int 604800 * 1000)"
  unfolding encode_weeks_def decode_weeks_def weeks_def by (rule whole_seconds_codec) simp

interpretation y_codec: value_codec encode_years decode_years
    "\<lambda>v. date_repr (sint v * int 31556952 * 1000)" "\<lambda>v. date_ok (sint v * int 31556952 * 1000)"
  unfolding encode_years_def decode_years_def years_def by (rule whole_seconds_codec) simp

interpretation mo_codec: value_codec encode_months decode_months
    "\<lambda>v. date_repr (sint v * int 2629746 * 1000)" "\<lambda>v. date_ok (sint v * int 2629746 * 1000)"
  unfolding encode_months_def decode_months_def months_def by (rule whole_seconds_codec) simp

section \<open>Safety\<close>

text \<open>A cast to a period at least as fine as \<open>2 ^ -31\<close> of the unit cannot overflow.\<close>

lemma safe_readDate:
  assumes "\<And>w :: i32. duration_cast minutes t (word_of_int (sint w)) \<noteq> None"
    and "\<And>w. duration_cast milliseconds t w \<noteq> None"
  shows "safe (readDate t)"
proof -
  have m: "safe (of_defined (duration_cast minutes t (word_of_int (sint (w :: i32)))))" for w
    using assms(1) [of w] by (cases "duration_cast minutes t (word_of_int (sint w))") (simp_all add: safe_basic)
  have ms: "safe (of_defined (duration_cast milliseconds t w))" for w
    using assms(2) [of w] by (cases "duration_cast milliseconds t w") (simp_all add: safe_basic)
  show ?thesis unfolding readDate_def by (intro safe_intros m ms) simp_all
qed

lemma safe_decode_milliseconds [safe_intros]: "safe decode_milliseconds"
  unfolding decode_milliseconds_def
  by (rule safe_readDate) (simp_all add: minutes_to_millis duration_cast_same del: of_int_sint)

section \<open>Properties\<close>

text \<open>
  C22. A count of milliseconds survives encoding and decoding exactly when it is not a whole
  number of minutes or its minutes fit into 32 bits. The encoder truncates the minutes to
  \<open>int32_t\<close> silently, so for every other count (a date after the year 6053) the decoder returns
  a different date.
\<close>

theorem milliseconds_round_trip_iff:
  "decoded decode_milliseconds (encoded (encode_milliseconds v)) = Ret v \<longleftrightarrow> date_ok (sint v)"
proof -
  have enc: "encoded (encode_milliseconds v) = date_repr (sint v)"
    by (simp add: encoded_def encodesD [OF encode_milliseconds_encodes] new_encoder_def)
  have run: "decoded m (date_repr (sint v)) = Ret w" if "decodes m (date_repr (sint v)) w"
    for m :: "(decoder, i64) comp" and w
    using decodesD [OF that, of "new_decoder (date_repr (sint v))" "[]"]
    by (simp add: decoded_def date_repr_def)
  show ?thesis
  proof (cases "date_ok (sint v)")
    case True
    then show ?thesis unfolding enc using run [OF decode_milliseconds_decodes] by simp
  next
    case False
    let ?q = "sint v div 60000"
    let ?m = "sint (word_of_int ?q :: i32)"
    have dvd: "60000 dvd sint v" and big: "\<not> (- (2 ^ 31) \<le> ?q \<and> ?q < 2 ^ 31)"
      using False sint_i64_bounds [of v] by (auto simp: date_ok_def)
    have q: "?q * 60000 = sint v" using dvd by simp
    have "decodes decode_milliseconds (date_repr (sint v)) (word_of_int (?m * 60000))"
      using readDate_minutes [OF minutes_to_millis, of "word_of_int ?q"] dvd
      by (simp only: decode_milliseconds_def date_repr_def if_True)
    then have "decoded decode_milliseconds (date_repr (sint v)) = Ret (word_of_int (?m * 60000))"
      by (rule run)
    moreover have "sint (word_of_int (?m * 60000) :: i64) = ?m * 60000"
      using sint_i32_bounds [of "word_of_int ?q"] by (intro sint_i64_of_int) (simp add: abs_le_iff abs_less_iff)
    moreover have "?m * 60000 \<noteq> sint v"
    proof
      assume "?m * 60000 = sint v"
      with q have "?m = ?q" by linarith
      with big show False using sint_i32_bounds [of "word_of_int ?q"] by simp
    qed
    ultimately show ?thesis using False unfolding enc by auto
  qed
qed

theorem milliseconds_round_trip_iff_example:
  "decoded decode_milliseconds (encoded (encode_milliseconds 128849018880000)) \<noteq> Ret 128849018880000"
  unfolding milliseconds_round_trip_iff by (simp add: date_ok_def)

text \<open>
  Durations in hours are written through milliseconds or minutes and read back exactly, as
  long as their minutes fit into 32 bits.
\<close>

theorem hours_round_trip:
  assumes "date_ok (sint v * 3600000)"
  shows "decoded decode_hours (encoded (encode_hours v)) = Ret v
    \<and> length (encoded (encode_hours v)) = 5"
proof -
  have ok: "date_ok (sint v * int 3600 * 1000)" using assms by (simp add: mult.assoc)
  have "length (encoded (encode_hours v)) = 5"
    using h_codec.encoded_repr [OF ok] by (simp add: date_repr_def mult.assoc)
  then show ?thesis using h_codec.round_trip [OF ok, of "[]"] by (simp add: decoded_def)
qed

theorem hours_round_trip_witness:
  "decoded decode_hours (encoded (encode_hours 24)) = Ret 24"
  using hours_round_trip [of 24] by (simp add: date_ok_def)

end
