(* ===== verification/Byte_Codec.thy ===== *)
theory Byte_Codec
  imports Number_Codec
begin

text \<open>
  Binary data (src/hessian2/basic_codec/byte_codec.cc): \<open>std::vector<uint8_t>\<close>, written as one
  short block or as chunks of 1024 bytes, read from any sequence of chunks.
\<close>

section \<open>Operations\<close>

text \<open>
  \<open>readBytes\<close> appends \<open>len\<close> bytes to the output and, unless it was the last chunk, goes on with
  \<open>decodeBytesWithReader\<close>, which it is given as \<open>next_chunk\<close>. A result of \<open>false\<close> makes the
  only caller return a null pointer; it is \<open>nullptr\<close> here. The recursion of the two functions is
  bounded by fuel (\<open>Hang\<close> when it runs out); one unit per byte of input is enough.
\<close>

definition readBytes ::
    "(bytes \<Rightarrow> (decoder, bytes) comp) \<Rightarrow> bytes \<Rightarrow> nat \<Rightarrow> bool \<Rightarrow> (decoder, bytes) comp" where
  "readBytes next_chunk out len is_last_chunk =
     (if len = 0 then ret out
      else and_then dec_byte_available (\<lambda>n.
        if n < len then nullptr
        else and_then (dec_read_n_bytes len) (\<lambda>bs.
          if is_last_chunk then ret (out @ bs) else next_chunk (out @ bs))))"

fun decodeBytesWithReader :: "nat \<Rightarrow> bytes \<Rightarrow> (decoder, bytes) comp" where
  "decodeBytesWithReader 0 out = hang"
| "decodeBytesWithReader (Suc k) out = and_then dec_read_u8 (\<lambda>res.
     let code = snd res; next_chunk = (\<lambda>o'. decodeBytesWithReader k o') in
     if 0x20 \<le> code \<and> code \<le> 0x2f then
       readBytes next_chunk out (unat code - 0x20) True
     else if 0x34 \<le> code \<and> code \<le> 0x37 then
       and_then dec_read_u8 (\<lambda>res'. if \<not> fst res' then nullptr
         else readBytes next_chunk out ((unat code - 0x34) * 2 ^ 8 + unat (snd res')) True)
     else if code = 0x42 then
       and_then dec_readBE (\<lambda>res' :: bool \<times> u16. if \<not> fst res' then nullptr
         else readBytes next_chunk out (unat (snd res')) True)
     else if code = 0x41 then
       and_then dec_readBE (\<lambda>res' :: bool \<times> u16. if \<not> fst res' then nullptr
         else readBytes next_chunk out (unat (snd res')) False)
     else nullptr)"

definition decode_bytes :: "(decoder, bytes) comp" where
  "decode_bytes = and_then dec_byte_available (\<lambda>n. decodeBytesWithReader (Suc n) [])"

definition CHUNK_SIZE :: nat where
  "CHUNK_SIZE = 1024"

text \<open>
  The loop over the chunks: \<open>remaining\<close> bytes are left, \<open>off\<close> is the \<open>uint32_t\<close> offset of the next.
\<close>

fun write_chunks :: "bytes \<Rightarrow> nat \<Rightarrow> nat \<Rightarrow> (encoder, bool) comp" where
  "write_chunks data remaining off =
     (if CHUNK_SIZE < remaining \<and> 0 < CHUNK_SIZE then
        and_then (enc_write_byte 0x41) (\<lambda>_.
        and_then (enc_writeBE (of_nat CHUNK_SIZE :: u16)) (\<lambda>_.
        and_then (enc_raw_write (take CHUNK_SIZE (drop off data))) (\<lambda>_.
        write_chunks data (remaining - CHUNK_SIZE) ((off + CHUNK_SIZE) mod 2 ^ 32))))
      else if 0 < remaining then
        and_then (enc_write_byte 0x42) (\<lambda>_.
        and_then (enc_writeBE (of_nat remaining :: u16)) (\<lambda>_.
        and_then (enc_raw_write (drop off data)) (\<lambda>_. ret True)))
      else ret True)"

declare write_chunks.simps [simp del]

definition encode_bytes :: "bytes \<Rightarrow> (encoder, bool) comp" where
  "encode_bytes data =
     (if length data < 16 then
        and_then (enc_write_byte (0x20 + int (length data))) (\<lambda>_.
        and_then (enc_raw_write data) (\<lambda>_. ret True))
      else if length data < 1024 then
        and_then (enc_write_byte (0x34 + int (length data) div 2 ^ 8)) (\<lambda>_.
        and_then (enc_write_byte (int (length data))) (\<lambda>_.
        and_then (enc_raw_write data) (\<lambda>_. ret True)))
      else write_chunks data (length data) 0)"

section \<open>The grammar of binary data\<close>

text \<open>
  The productions of the comment above \<open>Decoder::decode\<close>: a sequence of non-final chunks and a
  final block in one of three forms.
\<close>

datatype binary =
    Short_Block bytes
  | Medium_Block bytes
  | Final_Chunk bytes
  | Chunk bytes binary

fun binary_ok :: "binary \<Rightarrow> bool" where
  "binary_ok (Short_Block bs) \<longleftrightarrow> length bs < 16"
| "binary_ok (Medium_Block bs) \<longleftrightarrow> length bs < 1024"
| "binary_ok (Final_Chunk bs) \<longleftrightarrow> length bs < 65536"
| "binary_ok (Chunk bs b) \<longleftrightarrow> bs \<noteq> [] \<and> length bs < 65536 \<and> binary_ok b"

fun binary_text :: "binary \<Rightarrow> bytes" where
  "binary_text (Short_Block bs) = of_nat (0x20 + length bs) # bs"
| "binary_text (Medium_Block bs) = of_nat (0x34 + length bs div 256) # of_nat (length bs) # bs"
| "binary_text (Final_Chunk bs) = 0x42 # be_bytes 2 (length bs) @ bs"
| "binary_text (Chunk bs b) = 0x41 # be_bytes 2 (length bs) @ bs @ binary_text b"

fun binary_value :: "binary \<Rightarrow> bytes" where
  "binary_value (Short_Block bs) = bs"
| "binary_value (Medium_Block bs) = bs"
| "binary_value (Final_Chunk bs) = bs"
| "binary_value (Chunk bs b) = bs @ binary_value b"

fun chunk_count :: "binary \<Rightarrow> nat" where
  "chunk_count (Chunk bs b) = Suc (chunk_count b)"
| "chunk_count _ = 0"

text \<open>How the encoder splits its data.\<close>

fun split_chunks :: "bytes \<Rightarrow> binary" where
  "split_chunks data = (if 1024 < length data
     then Chunk (take 1024 data) (split_chunks (drop 1024 data)) else Final_Chunk data)"

declare split_chunks.simps [simp del]

definition binary_of :: "bytes \<Rightarrow> binary" where
  "binary_of data = (if length data < 16 then Short_Block data
     else if length data < 1024 then Medium_Block data else split_chunks data)"

section \<open>Decoding\<close>

lemma decodes_readBytes:
  assumes "bs \<noteq> []" and "\<not> final \<Longrightarrow> decodes (next_chunk (out @ bs)) cs v" and "final \<Longrightarrow> cs = [] \<and> v = out @ bs"
  shows "decodes (readBytes next_chunk out (length bs) final) (bs @ cs) v"
proof -
  have "decodes (if final then ret (out @ bs) else next_chunk (out @ bs)) cs v"
    using assms(2,3) by (cases final) (auto intro: decodes_ret)
  then have "decodes (and_then (dec_read_n_bytes (length bs))
      (\<lambda>bs. if final then ret (out @ bs) else next_chunk (out @ bs))) (bs @ cs) v"
    by (rule decodes_read_n_bytes_then)
  then show ?thesis unfolding readBytes_def using assms(1)
    by (auto intro!: decodes_available_then)
qed

lemma decodes_readBytes_last:
  "decodes (readBytes next_chunk out (length bs) True) bs (out @ bs)"
  using decodes_readBytes [of bs True next_chunk out "[]"]
  by (cases "bs = []") (auto simp: readBytes_def decodes_ret)

lemma decodes_readBytes_last':
  "n = length bs \<Longrightarrow> decodes (readBytes next_chunk out n True) bs (out @ bs)"
  by (simp add: decodes_readBytes_last)

lemma decodes_chunk_header:
  "n < 65536 \<Longrightarrow> decodes (f n) bs v \<Longrightarrow>
    decodes (and_then dec_readBE (\<lambda>res :: bool \<times> u16. if \<not> fst res then nullptr else f (unat (snd res))))
      (be_bytes 2 n @ bs) v"
  using decodes_readBE_then [of "\<lambda>res :: bool \<times> u16. if \<not> fst res then nullptr else f (unat (snd res))"
      "of_nat n" bs v]
  by (simp add: unat_of_nat)

lemma decodes_binary:
  "binary_ok b \<Longrightarrow> chunk_count b < k \<Longrightarrow>
    decodes (decodeBytesWithReader k out) (binary_text b) (out @ binary_value b)"
proof (induction b arbitrary: k out)
  case (Short_Block bs)
  then obtain j where "k = Suc j" by (cases k) auto
  moreover obtain c :: u8 where "c = of_nat (0x20 + length bs)" "unat c = 0x20 + length bs"
    using Short_Block unat_of_nat_u8 [of "0x20 + length bs"] by simp
  ultimately show ?case using Short_Block
    by (auto simp: Let_def byte_compare simp del: of_nat_add intro!: decodes_read_u8_then decodes_readBytes_last')
next
  case (Medium_Block bs)
  then obtain j where k: "k = Suc j" by (cases k) auto
  let ?q = "length bs div 256"
  have q: "?q < 4" using Medium_Block by (simp add: less_mult_imp_div_less)
  obtain c :: u8 where "c = of_nat (0x34 + ?q)" "unat c = 0x34 + ?q"
    using q unat_of_nat_u8 [of "0x34 + ?q"] by simp
  then show ?case unfolding k using q
    by (auto simp: Let_def byte_compare unat_of_nat simp del: of_nat_add
        intro!: decodes_read_u8_then decodes_readBytes_last')
next
  case (Final_Chunk bs)
  then obtain j where "k = Suc j" by (cases k) auto
  with Final_Chunk show ?case
    by (auto simp: Let_def word_le_nat_alt intro!: decodes_read_u8_then decodes_chunk_header decodes_readBytes_last')
next
  case (Chunk bs b)
  then obtain j where k: "k = Suc j" by (cases k) auto
  have "decodes (decodeBytesWithReader j (out @ bs)) (binary_text b) (out @ bs @ binary_value b)"
    using Chunk.IH [of j "out @ bs"] Chunk.prems k by simp
  then have "decodes (readBytes (\<lambda>o'. decodeBytesWithReader j o') out (length bs) False) (bs @ binary_text b)
      (out @ bs @ binary_value b)"
    using Chunk.prems by (intro decodes_readBytes) auto
  then show ?case using Chunk.prems k
    by (auto simp: Let_def word_le_nat_alt intro!: decodes_read_u8_then decodes_chunk_header)
qed

lemma chunk_count_le: "chunk_count b \<le> length (binary_text b)"
  by (induction b) auto

lemma decode_bytes_decodes:
  assumes "binary_ok b"
  shows "decodes decode_bytes (binary_text b) (binary_value b)"
  unfolding decode_bytes_def
proof (rule decodes_available_then)
  fix k assume "length (binary_text b) \<le> k"
  then have "chunk_count b < Suc k" using chunk_count_le [of b] by simp
  from decodes_binary [OF assms this, of "[]"]
  show "decodes (decodeBytesWithReader (Suc k) []) (binary_text b) (binary_value b)" by simp
qed

text \<open>On any input the decoder returns: one unit of fuel per unread byte and one more suffice.\<close>

lemma well_run_readBytes:
  "(\<And>o'. well_run ab n (next_chunk o')) \<Longrightarrow> well_run ab n (readBytes next_chunk out len final)"
  unfolding readBytes_def
  by (intro well_run_intros well_run_checked_read) (auto intro: well_run_safe safe_intros)

lemma well_run_decodeBytesWithReader: "n < k \<Longrightarrow> well_run ab n (decodeBytesWithReader k out)"
proof (induction k arbitrary: n out)
  case (Suc k)
  have IH: "well_run ab (n - 1) (decodeBytesWithReader k out')" if "0 < n" for out'
    using Suc that by simp
  have "well_run ab (n - 1) (readBytes (decodeBytesWithReader k) out' len final)" if "0 < n" for out' len final
    by (rule well_run_readBytes) (rule IH [OF that])
  then show ?case
    unfolding decodeBytesWithReader.simps Let_def
    by (intro well_run_read_u8_then)
      (auto intro!: well_run_intros well_run_safe [OF safe_basic(2)]
        well_run_safe [OF safe_read_u8] well_run_safe [OF safe_readBE])
qed simp

lemma safe_decode_bytes [safe_intros]: "safe decode_bytes"
proof (rule safeI)
  fix n
  show "well_run False n decode_bytes"
    unfolding well_run_def
  proof (intro allI impI)
    fix d r d' assume d: "wf_decoder d" and run: "decode_bytes d = (r, d')"
    then have "decodeBytesWithReader (Suc (length (unread d))) [] d = (r, d')"
      by (simp add: decode_bytes_def and_then_def)
    then show "r \<noteq> Hang \<and> (r = Abort \<longrightarrow> False) \<and> wf_decoder d' \<and> (\<exists>j. unread d' = drop j (unread d))"
      using well_runD [OF well_run_decodeBytesWithReader d order_refl] by blast
  qed
qed

section \<open>Encoding\<close>

lemma split_chunks_ok:
  "binary_ok (split_chunks data)" "binary_value (split_chunks data) = data"
proof (induction data rule: split_chunks.induct)
  case (1 data)
  note IH = "1.IH"
  { case 1 show ?case using IH(1) by (subst split_chunks.simps) auto }
  { case 2 show ?case using IH(2) by (subst split_chunks.simps) auto }
qed

lemma binary_of_ok [simp]: "binary_ok (binary_of data)" "binary_value (binary_of data) = data"
  by (simp_all add: binary_of_def split_chunks_ok)

lemma write_chunks_run:
  assumes "off + length rest = length data" and "drop off data = rest"
    and "0 < length rest" and "length data \<le> 2 ^ 32"
  shows "write_chunks data (length rest) off e = (Ret True, emit (binary_text (split_chunks rest)) e)"
  using assms
proof (induction rest arbitrary: off e rule: split_chunks.induct)
  case (1 rest)
  show ?case
  proof (cases "1024 < length rest")
    case True
    have off: "(off + 1024) mod 2 ^ 32 = off + 1024" using 1 True by simp
    have IH: "write_chunks data (length rest - 1024) (off + 1024) e'
        = (Ret True, emit (binary_text (split_chunks (drop 1024 rest))) e')" for e'
    proof -
      have "drop (off + 1024) data = drop 1024 rest" using 1(3) by (metis add.commute drop_drop)
      then show ?thesis using 1(1) [OF True, of "off + 1024" e'] 1(2,5) True by simp
    qed
    show ?thesis using True off 1(3) IH
      by (subst write_chunks.simps, subst split_chunks.simps)
        (simp add: CHUNK_SIZE_def unat_of_nat)
  next
    case False
    then show ?thesis using 1(3,4)
      by (subst write_chunks.simps, subst split_chunks.simps)
        (simp add: CHUNK_SIZE_def unat_of_nat)
  qed
qed

lemma encode_bytes_encodes:
  assumes "length data \<le> 2 ^ 32"
  shows "encodes (encode_bytes data) (binary_text (binary_of data))"
proof -
  have q: "int (length data) div 256 = int (length data div 256)" by simp
  have "encode_bytes data e = (Ret True, emit (binary_text (binary_of data)) e)" for e
  proof (cases "length data < 1024")
    case True
    then show ?thesis by (simp add: encode_bytes_def binary_of_def q del: of_nat_div)
  next
    case False
    then have "data \<noteq> []" by auto
    then show ?thesis using False assms write_chunks_run [of 0 data data e]
      by (simp add: encode_bytes_def binary_of_def)
  qed
  then show ?thesis by (simp add: encodes_def)
qed

interpretation bytes_codec: value_codec encode_bytes decode_bytes
    "\<lambda>data. binary_text (binary_of data)" "\<lambda>data. length data \<le> 2 ^ 32"
proof unfold_locales
  show "decodes decode_bytes (binary_text (binary_of data)) data" for data
    using decode_bytes_decodes [of "binary_of data"] by simp
qed (simp add: encode_bytes_encodes)

section \<open>Properties\<close>

text \<open>
  C17. Binary data of up to \<open>2 ^ 32\<close> bytes is read back from its encoding whatever follows it,
  and the decoder stops right after it.
\<close>

theorem bytes_round_trip:
  assumes "length data \<le> 2 ^ 32" and "length (encoded (encode_bytes data) @ rest) < 2 ^ 63"
  shows "decode_bytes (new_decoder (encoded (encode_bytes data) @ rest))
    = (Ret data, advance (length (encoded (encode_bytes data)))
        (new_decoder (encoded (encode_bytes data) @ rest)))"
  by (rule bytes_codec.round_trip [OF assms])

theorem bytes_round_trip_witness:
  "decoded decode_bytes (encoded (encode_bytes [0xde, 0xad])) = Ret [0xde, 0xad]"
  using bytes_round_trip [of "[0xde, 0xad]" "[]"]
  by (simp add: decoded_def bytes_codec.encoded_repr binary_of_def)

text \<open>
  The decoder accepts binary data in every chunking the grammar allows with non-empty
  chunks (not only the one its own encoder chooses), and returns the concatenation.
\<close>

theorem decode_bytes_any_chunking:
  assumes "binary_ok b" and "length (binary_text b @ rest) < 2 ^ 63"
  shows "decode_bytes (new_decoder (binary_text b @ rest))
    = (Ret (binary_value b), advance (length (binary_text b)) (new_decoder (binary_text b @ rest)))"
  using assms by (intro decodesD [OF decode_bytes_decodes]) simp_all

theorem decode_bytes_any_chunking_witness:
  "decoded decode_bytes [0x41, 0, 2, 7, 8, 0x41, 0, 1, 9, 0x34, 1, 10] = Ret [7, 8, 9, 10]"
  using decode_bytes_any_chunking [of "Chunk [7, 8] (Chunk [9] (Medium_Block [10]))" "[]"]
  by (simp add: decoded_def be_bytes_def)

text \<open>
  A non-final chunk of length zero ends the data: the decoder returns without reading the
  chunks that follow, and they stay in the buffer.
\<close>

theorem decode_bytes_empty_chunk_ends:
  assumes "length rest < 2 ^ 62"
  shows "decode_bytes (new_decoder (0x41 # 0 # 0 # rest))
    = (Ret [], advance 3 (new_decoder (0x41 # 0 # 0 # rest)))"
proof -
  have "decodes (decodeBytesWithReader (Suc k) []) (0x41 # be_bytes 2 0 @ []) []" for k
    by (simp only: decodeBytesWithReader.simps append_Cons, rule decodes_read_u8_then)
      (use decodes_chunk_header [of 0 "\<lambda>n. readBytes (decodeBytesWithReader k) [] n False" "[]" "[]"]
       in \<open>simp add: Let_def readBytes_def decodes_ret\<close>)
  then have "decodes decode_bytes (0x41 # be_bytes 2 0) []"
    unfolding decode_bytes_def by (intro decodes_available_then) simp
  then have "decodes decode_bytes [0x41, 0, 0] []" by (simp add: be_bytes_def)
  from decodesD [OF this, of "new_decoder (0x41 # 0 # 0 # rest)" rest] show ?thesis
    using assms by (simp add: numeral_3_eq_3)
qed

theorem decode_bytes_empty_chunk_ends_witness:
  "decoded decode_bytes [0x41, 0, 0, 0x42, 0, 1, 5] = Ret []"
  using decode_bytes_empty_chunk_ends [of "[0x42, 0, 1, 5]"] by (simp add: decoded_def)

end
