(* ===== verification/String_Codec.thy ===== *)
theory String_Codec
  imports Byte_Codec
begin

text \<open>
  Strings (src/hessian2/basic_codec/string_codec.cc): UTF-8 text whose length is counted in
  characters, written in chunks of 32768 characters. A character is recognised by its first
  byte alone. The build flag \<open>COMPATIBLE_WITH_JAVA_HESSIAN_LITE\<close> is the parameter \<open>java_lite\<close>: with
  it a four-byte character travels as two three-byte surrogates.
\<close>

unbundle bit_operations_syntax

section \<open>Counting characters\<close>

definition STRING_CHUNK_SIZE :: nat where
  "STRING_CHUNK_SIZE = 32768"

definition UTF_8_CHAR_LENGTHS :: "nat list" where
  "UTF_8_CHAR_LENGTHS =
     [1, 1, 1, 1, 1, 1, 1, 1, 1, 1, 1,
      1, 1, 1, 1, 1, 0, 0, 0, 0, 0, 0,
      0, 0, 2, 2, 2, 2, 3, 3, 4, 0]"

definition char_length :: "u8 \<Rightarrow> nat" where
  "char_length code = UTF_8_CHAR_LENGTHS ! (unat code div 8)"

lemma char_length_le_4: "char_length b \<le> 4"
proof -
  have "unat b div 8 < 32" using unat_byte_lt [of b] by simp
  then have "char_length b \<in> set UTF_8_CHAR_LENGTHS"
    unfolding char_length_def by (intro nth_mem) (simp add: UTF_8_CHAR_LENGTHS_def)
  then show ?thesis by (auto simp: UTF_8_CHAR_LENGTHS_def)
qed

text \<open>
  The two scans run over the bytes that are left; \<open>raw\<close> is the index of the first of them. The
  first one records where each chunk of \<open>STRING_CHUNK_SIZE\<close> characters ends and where the
  four-byte characters start; a malformed string gives \<open>-1\<close>.
\<close>

fun utf8_offsets ::
    "bytes \<Rightarrow> nat \<Rightarrow> nat \<Rightarrow> nat \<Rightarrow> nat list \<Rightarrow> nat list \<Rightarrow> int \<times> nat list \<times> nat list" where
  "utf8_offsets [] raw utf8_length current_chunk chunk_offs four_offs =
     (int utf8_length, if 0 < current_chunk then chunk_offs @ [raw] else chunk_offs, four_offs)"
| "utf8_offsets (b # rest) raw utf8_length current_chunk chunk_offs four_offs =
     (let n = char_length b in
      if n = 0 \<or> length (b # rest) < n then (- 1, chunk_offs, four_offs)
      else let four_offs' = (if n = 4 then four_offs @ [raw] else four_offs) in
        if STRING_CHUNK_SIZE \<le> current_chunk + 1
        then utf8_offsets (drop (n - 1) rest) (raw + n) (utf8_length + 1) 0
               (chunk_offs @ [raw + n]) four_offs'
        else utf8_offsets (drop (n - 1) rest) (raw + n) (utf8_length + 1) (current_chunk + 1)
               chunk_offs four_offs')"

definition getUtf8StringLengthAndPerChunkOffsets :: "bytes \<Rightarrow> int \<times> nat list \<times> nat list" where
  "getUtf8StringLengthAndPerChunkOffsets data = utf8_offsets data 0 0 0 [] []"

text \<open>
  The second one is for a prefix of a string, so its last character may be incomplete: the raw
  length then exceeds that of the prefix. It also reports a byte that may start a surrogate.
\<close>

fun utf8_count :: "bytes \<Rightarrow> nat \<Rightarrow> nat \<Rightarrow> bool \<Rightarrow> (int \<times> nat) \<times> bool" where
  "utf8_count [] utf8_length raw has_surrogate = ((int utf8_length, raw), has_surrogate)"
| "utf8_count (b # rest) utf8_length raw has_surrogate =
     (let s = (has_surrogate \<or> b = 0xED); n = char_length b in
      if n = 0 then ((- 1, 0), s)
      else utf8_count (drop (n - 1) rest) (utf8_length + 1) (raw + n) s)"

definition getUtf8StringLength :: "bytes \<Rightarrow> bool \<Rightarrow> (int \<times> nat) \<times> bool" where
  "getUtf8StringLength data has_surrogate = utf8_count data 0 0 has_surrogate"

section \<open>Surrogate pairs\<close>

definition bits :: "u8 \<Rightarrow> u8 \<Rightarrow> nat \<Rightarrow> u32" where
  "bits b m n = push_bit n (ucast (b AND m))"

definition three_byte_code_point :: "u8 \<Rightarrow> u8 \<Rightarrow> u8 \<Rightarrow> u32" where
  "three_byte_code_point b0 b1 b2 = bits b0 0x0F 12 OR bits b1 0x3F 6 OR bits b2 0x3F 0"

definition four_byte_code_point :: "u8 \<Rightarrow> u8 \<Rightarrow> u8 \<Rightarrow> u8 \<Rightarrow> u32" where
  "four_byte_code_point b0 b1 b2 b3 =
     bits b0 0x07 18 OR bits b1 0x3F 12 OR bits b2 0x3F 6 OR bits b3 0x3F 0"

definition four_bytes_of :: "u32 \<Rightarrow> bytes" where
  "four_bytes_of code_point =
     [ucast (0xF0 OR drop_bit 18 code_point),
      ucast (0x80 OR (drop_bit 12 code_point AND 0x3F)),
      ucast (0x80 OR (drop_bit 6 code_point AND 0x3F)),
      ucast (0x80 OR (code_point AND 0x3F))]"

definition three_bytes_of :: "u16 \<Rightarrow> bytes" where
  "three_bytes_of utf16_char =
     [ucast (0xE0 OR drop_bit 12 utf16_char),
      ucast (0x80 OR (drop_bit 6 utf16_char AND 0x3F)),
      ucast (0x80 OR (utf16_char AND 0x3F))]"

text \<open>\<open>None\<close> stands for the empty string the two functions return when they give up.\<close>

definition is_surrogate_pair :: "bytes \<Rightarrow> bool" where
  "is_surrogate_pair bs \<longleftrightarrow> 5 < length bs
     \<and> bs ! 0 = 0xED \<and> bs ! 1 AND 0xF0 = 0xA0 \<and> bs ! 3 = 0xED \<and> bs ! 4 AND 0xF0 = 0xB0"

definition join_surrogates :: "bytes \<Rightarrow> bytes" where
  "join_surrogates bs =
     (let high_surrogate = three_byte_code_point (bs ! 0) (bs ! 1) (bs ! 2);
          low_surrogate = three_byte_code_point (bs ! 3) (bs ! 4) (bs ! 5);
          code_point = (push_bit 10 (high_surrogate AND 0x3FF) OR (low_surrogate AND 0x3FF)) + 0x10000
      in four_bytes_of code_point)"

fun unescape_from :: "bytes \<Rightarrow> bytes \<Rightarrow> bytes option" where
  "unescape_from [] out = Some out"
| "unescape_from (b # rest) out =
     (let n = char_length b in
      if n = 3 \<and> is_surrogate_pair (b # rest) then
        unescape_from (drop 5 rest) (out @ join_surrogates (b # rest))
      else if 0 < n \<and> n \<le> length (b # rest) then
        unescape_from (drop (n - 1) rest) (out @ take n (b # rest))
      else None)"

definition unescapeFourBytesUtf8Char :: "bytes \<Rightarrow> bytes" where
  "unescapeFourBytesUtf8Char data = (case unescape_from data [] of Some out \<Rightarrow> out | None \<Rightarrow> [])"

fun escape_from :: "bytes \<Rightarrow> nat list \<Rightarrow> nat \<Rightarrow> bytes \<Rightarrow> bytes option" where
  "escape_from data [] last_pos out = Some (out @ drop last_pos data)"
| "escape_from data (pos # four_offs) last_pos out =
     (let code_point = four_byte_code_point (data ! pos) (data ! (pos + 1)) (data ! (pos + 2)) (data ! (pos + 3))
      in if code_point < 0x10000 \<or> code_point > 0x10FFFF then None
      else let c = code_point - 0x10000;
               high = ucast (0xD800 + drop_bit 10 c) :: u16;
               low = ucast (0xDC00 + (c AND 0x3FF)) :: u16
           in escape_from data four_offs (pos + 4)
                (out @ take (pos - last_pos) (drop last_pos data) @ three_bytes_of high @ three_bytes_of low))"

definition escapeFourBytesUtf8Char :: "bytes \<Rightarrow> nat list \<Rightarrow> bytes" where
  "escapeFourBytesUtf8Char data four_offs =
     (case escape_from data four_offs 0 [] of Some out \<Rightarrow> out | None \<Rightarrow> [])"

section \<open>Decoding\<close>

text \<open>
  \<open>finalReadUtf8String\<close> appends \<open>len\<close> characters to the output. Each round reads as many bytes
  as characters are missing, counts the characters that start among them and completes the last
  one. The state is the output and \<open>has_surrogate\<close>; \<open>false\<close> is \<open>nullptr\<close>. Every round gets at
  least one character, so \<open>len\<close> is enough fuel.
\<close>

fun finalReadUtf8String :: "nat \<Rightarrow> bytes \<times> bool \<Rightarrow> nat \<Rightarrow> (decoder, bytes \<times> bool) comp" where
  "finalReadUtf8String 0 st len = (if len = 0 then ret st else hang)"
| "finalReadUtf8String (Suc k) st len =
     (if len = 0 then ret st
      else and_then dec_byte_available (\<lambda>n. if n < len then nullptr
      else and_then (dec_read_n_bytes len) (\<lambda>bs.
        let result = getUtf8StringLength bs (snd st);
            utf8_length = fst (fst result);
            raw_bytes_length = snd (fst result);
            has_surrogate = snd result
        in if utf8_length = - 1 then nullptr
           else if len < raw_bytes_length then
             let padding_size = raw_bytes_length - len in
             and_then dec_byte_available (\<lambda>n'. if n' < padding_size then nullptr
             else and_then (dec_read_n_bytes padding_size) (\<lambda>padding.
               finalReadUtf8String k (fst st @ bs @ padding, has_surrogate) (len - nat utf8_length)))
           else finalReadUtf8String k (fst st @ bs, has_surrogate) (len - nat utf8_length))))"

definition readChunkString ::
    "(bytes \<times> bool \<Rightarrow> (decoder, bytes \<times> bool) comp) \<Rightarrow> bytes \<times> bool \<Rightarrow> nat \<Rightarrow> bool
      \<Rightarrow> (decoder, bytes \<times> bool) comp" where
  "readChunkString next_chunk st len is_last_chunk =
     and_then (finalReadUtf8String len st len) (\<lambda>st'.
       if is_last_chunk then ret st' else next_chunk st')"

fun decodeStringWithReader :: "nat \<Rightarrow> bytes \<times> bool \<Rightarrow> (decoder, bytes \<times> bool) comp" where
  "decodeStringWithReader 0 st = hang"
| "decodeStringWithReader (Suc k) st = and_then dec_read_u8 (\<lambda>res.
     if \<not> fst res then nullptr
     else let code = snd res; next_chunk = (\<lambda>st'. decodeStringWithReader k st') in
     if code \<le> 0x1f then
       readChunkString next_chunk st (unat code) True
     else if 0x30 \<le> code \<and> code \<le> 0x33 then
       and_then dec_read_u8 (\<lambda>res'. if \<not> fst res' then nullptr
         else readChunkString next_chunk st ((unat code - 0x30) * 256 + unat (snd res')) True)
     else if code = 0x53 then
       and_then dec_readBE (\<lambda>res' :: bool \<times> u16. if \<not> fst res' then nullptr
         else readChunkString next_chunk st (unat (snd res')) True)
     else if code = 0x52 then
       and_then dec_readBE (\<lambda>res' :: bool \<times> u16. if \<not> fst res' then nullptr
         else readChunkString next_chunk st (unat (snd res')) False)
     else nullptr)"

definition decode_string :: "bool \<Rightarrow> (decoder, bytes) comp" where
  "decode_string java_lite =
     and_then dec_byte_available (\<lambda>n.
     and_then (decodeStringWithReader (Suc n) ([], False)) (\<lambda>st.
       if java_lite \<and> snd st then
         (let new_out = unescapeFourBytesUtf8Char (fst st)
          in if new_out = [] then nullptr else ret new_out)
       else ret (fst st)))"

section \<open>Encoding\<close>

text \<open>
  The loop over the full chunks: \<open>len\<close> characters are left, they start at \<open>str_offset\<close> (a
  \<open>uint32_t\<close>), and the list holds the end offsets that \<open>pos\<close> has not passed. An access behind
  its end is undefined behaviour.
\<close>

definition write_string_tail :: "bytes \<Rightarrow> nat \<Rightarrow> nat \<Rightarrow> (encoder, bool) comp" where
  "write_string_tail data len str_offset =
     (if len = 0 then and_then (enc_write_byte 0x00) (\<lambda>_. ret True)
      else if len \<le> 31 then
        and_then (enc_write_byte (int len)) (\<lambda>_.
        and_then (enc_raw_write (drop str_offset data)) (\<lambda>_. ret True))
      else if len \<le> 1023 then
        and_then (enc_write_byte (0x30 + int (len div 256))) (\<lambda>_.
        and_then (enc_write_byte (int (len mod 256))) (\<lambda>_.
        and_then (enc_raw_write (drop str_offset data)) (\<lambda>_. ret True)))
      else
        and_then (enc_write_byte 0x53) (\<lambda>_.
        and_then (enc_writeBE (of_nat len :: u16)) (\<lambda>_.
        and_then (enc_raw_write (drop str_offset data)) (\<lambda>_. ret True))))"

fun write_string_chunks :: "bytes \<Rightarrow> nat list \<Rightarrow> nat \<Rightarrow> nat \<Rightarrow> (encoder, bool) comp" where
  "write_string_chunks data [] len str_offset =
     (if STRING_CHUNK_SIZE < len then abort else write_string_tail data len str_offset)"
| "write_string_chunks data (raw_offset # offs) len str_offset =
     (if STRING_CHUNK_SIZE < len then
        and_then (enc_write_byte 0x52) (\<lambda>_.
        and_then (enc_writeBE (of_nat STRING_CHUNK_SIZE :: u16)) (\<lambda>_.
        and_then (enc_raw_write (take (u64_sub raw_offset str_offset) (drop str_offset data))) (\<lambda>_.
        write_string_chunks data offs (len - STRING_CHUNK_SIZE) (raw_offset mod 2 ^ 32))))
      else write_string_tail data len str_offset)"

definition encode_string_view :: "bool \<Rightarrow> bytes \<Rightarrow> (encoder, bool) comp" where
  "encode_string_view java_lite data =
     (case getUtf8StringLengthAndPerChunkOffsets data of (len, chunk_offs, four_offs) \<Rightarrow>
      if len = - 1 then ret False
      else if java_lite \<and> four_offs \<noteq> [] then
        (let rewrite_data = escapeFourBytesUtf8Char data four_offs in
         if rewrite_data = [] then ret False
         else case getUtf8StringLengthAndPerChunkOffsets rewrite_data of (len', chunk_offs', four_offs') \<Rightarrow>
           if len' = - 1 then ret False
           else write_string_chunks rewrite_data chunk_offs' (nat len') 0)
      else write_string_chunks data chunk_offs (nat len) 0)"

definition encode_string :: "bool \<Rightarrow> bytes \<Rightarrow> (encoder, bool) comp" where
  "encode_string java_lite data = encode_string_view java_lite data"

section \<open>Characters\<close>

text \<open>
  The reference the scans are measured against: a character is a first byte and as many bytes as
  it announces, and a text is a list of characters.
\<close>

definition utf8_char :: "bytes \<Rightarrow> bool" where
  "utf8_char c \<longleftrightarrow> c \<noteq> [] \<and> length c = char_length (hd c)"

fun take_chars :: "nat \<Rightarrow> bytes \<Rightarrow> (bytes list \<times> bytes) option" where
  "take_chars 0 bs = Some ([], bs)"
| "take_chars (Suc k) [] = None"
| "take_chars (Suc k) (b # rest) =
     (let n = char_length b in
      if n = 0 \<or> length (b # rest) < n then None
      else map_option (\<lambda>(cs, rest'). (take n (b # rest) # cs, rest')) (take_chars k (drop n (b # rest))))"

definition surrogate_lead :: "bytes list \<Rightarrow> bool" where
  "surrogate_lead cs \<longleftrightarrow> (\<exists>c \<in> set cs. hd c = 0xED)"

lemma utf8_char_cases:
  assumes "utf8_char c" obtains b t where "c = b # t" "char_length b = Suc (length t)"
  using assms by (cases c) (auto simp: utf8_char_def)

lemma take_chars_append: "\<forall>c \<in> set cs. utf8_char c \<Longrightarrow> take_chars (length cs) (concat cs @ rest) = Some (cs, rest)"
proof (induction cs)
  case (Cons c cs)
  then obtain b t where "c = b # t" "char_length b = Suc (length t)" by (auto elim: utf8_char_cases)
  with Cons show ?case by simp
qed simp

lemma take_chars_SomeD:
  "take_chars n bs = Some (cs, rest) \<Longrightarrow> bs = concat cs @ rest \<and> length cs = n \<and> (\<forall>c \<in> set cs. utf8_char c)"
proof (induction n bs arbitrary: cs rest rule: take_chars.induct)
  case (3 k b rest0)
  then obtain cs' where n: "char_length b \<noteq> 0" "char_length b \<le> length (b # rest0)"
    and r: "take_chars k (drop (char_length b) (b # rest0)) = Some (cs', rest)"
    and cs: "cs = take (char_length b) (b # rest0) # cs'"
    by (auto simp: Let_def split: if_splits)
  have "utf8_char (take (char_length b) (b # rest0))"
    using n by (cases "char_length b") (auto simp: utf8_char_def)
  moreover have "b # rest0 = take (char_length b) (b # rest0) @ drop (char_length b) (b # rest0)"
    by (rule append_take_drop_id [symmetric])
  moreover have "drop (char_length b) (b # rest0) = concat cs' @ rest \<and> length cs' = k
      \<and> (\<forall>c \<in> set cs'. utf8_char c)"
    using "3.IH" [OF refl _ r] n by simp
  ultimately show ?case using cs by (metis (no_types, lifting) concat.simps(2) append.assoc set_ConsD length_Cons)
qed simp_all

lemma take_chars_iff:
  "take_chars n bs = Some (cs, rest) \<longleftrightarrow> bs = concat cs @ rest \<and> length cs = n \<and> (\<forall>c \<in> set cs. utf8_char c)"
  using take_chars_SomeD take_chars_append by blast

lemma take_chars_add:
  "take_chars (m + k) bs = (case take_chars m bs of None \<Rightarrow> None
     | Some (cs, rest) \<Rightarrow> map_option (\<lambda>(ds, rest'). (cs @ ds, rest')) (take_chars k rest))"
proof (induction m bs rule: take_chars.induct)
  case (1 bs)
  show ?case by (cases "take_chars k bs") auto
next
  case (3 m b rest)
  then show ?case
    by (auto simp: Let_def option.map_comp comp_def case_prod_unfold split: option.splits)
qed simp

lemma length_concat_chars: "\<forall>c \<in> set cs. utf8_char c \<Longrightarrow> length cs \<le> length (concat cs)"
  by (induction cs) (auto elim!: utf8_char_cases)

section \<open>Scanning a prefix\<close>

text \<open>
  The scan of a prefix \<open>xs\<close> of a text \<open>xs @ ys\<close>, without accumulators: the characters that start
  in \<open>xs\<close>, the bytes they take, and whether one of them may be a surrogate.
\<close>

fun scan :: "bytes \<Rightarrow> (nat \<times> nat \<times> bool) option" where
  "scan [] = Some (0, 0, False)"
| "scan (b # rest) = (if char_length b = 0 then None
     else case scan (drop (char_length b - 1) rest) of
       None \<Rightarrow> None
     | Some (j, t, s) \<Rightarrow> Some (Suc j, t + char_length b, b = 0xED \<or> s))"

lemma utf8_count_scan:
  "fst (utf8_count xs m r s) = (case scan xs of None \<Rightarrow> (- 1, 0) | Some (j, t, s') \<Rightarrow> (int (m + j), r + t))"
  "scan xs = Some (j, t, s') \<Longrightarrow> snd (utf8_count xs m r s) = (s \<or> s')"
  by (induction xs m r s arbitrary: j t s' rule: utf8_count.induct)
    (auto simp: Let_def split: option.splits prod.splits)

lemma scan_bounds:
  "scan xs = Some (j, t, s) \<Longrightarrow> j \<le> length xs \<and> length xs \<le> t \<and> (xs \<noteq> [] \<longrightarrow> 0 < j)"
proof (induction xs arbitrary: j t s rule: scan.induct)
  case (2 b rest)
  then obtain j' t' s' where "char_length b \<noteq> 0" "scan (drop (char_length b - 1) rest) = Some (j', t', s')"
    "j = Suc j'" "t = t' + char_length b" by (auto split: if_splits option.splits)
  with "2.IH" [of j' t' s'] show ?case by auto
qed simp

lemma take_chars_scan_step:
  "char_length b \<noteq> 0 \<Longrightarrow> char_length b \<le> length (b # rest) + length ys \<Longrightarrow>
   take_chars (Suc k) ((b # rest) @ ys) =
     map_option (\<lambda>(cs, r). (take (char_length b) (b # rest @ ys) # cs, r))
       (take_chars k (drop (char_length b - 1) rest @ drop (char_length b - 1 - length rest) ys))"
  by (cases "char_length b") simp_all

lemma scan_complete:
  "scan xs = Some (j, t, s) \<Longrightarrow> t \<le> length (xs @ ys) \<Longrightarrow>
    \<exists>cs. take_chars j (xs @ ys) = Some (cs, drop t (xs @ ys)) \<and> s = surrogate_lead cs"
proof (induction xs arbitrary: j t s ys rule: scan.induct)
  case (1 j t s ys)
  then show ?case by (simp add: surrogate_lead_def)
next
  case (2 b rest)
  let ?n = "char_length b" and ?ys = "drop (char_length b - 1 - length rest) ys"
  from 2(2) obtain j' t' s' where n: "?n \<noteq> 0" and sc: "scan (drop (?n - 1) rest) = Some (j', t', s')"
    and eq: "j = Suc j'" "t = t' + ?n" "s = (b = 0xED \<or> s')" by (auto split: if_splits option.splits)
  have t': "t' \<le> length (drop (?n - 1) rest @ ?ys)" using 2(3) eq n by simp
  from "2.IH" [OF n sc t'] obtain cs where
    cs: "take_chars j' (drop (?n - 1) rest @ ?ys) = Some (cs, drop t' (drop (?n - 1) rest @ ?ys))"
      "s' = surrogate_lead cs" by blast
  have "drop t' (drop (?n - 1) rest @ ?ys) = drop t (b # rest @ ys)"
    using n eq by (cases ?n) (simp_all add: drop_drop add.commute flip: drop_append)
  moreover have "hd (take ?n (b # rest @ ys)) = b" using n by (cases ?n) simp_all
  ultimately show ?case
    using take_chars_scan_step [of b rest ys j'] n 2(3) eq cs by (simp add: surrogate_lead_def)
qed

lemma scan_incomplete:
  "scan xs = Some (j, t, s) \<Longrightarrow> length (xs @ ys) < t \<Longrightarrow> take_chars j (xs @ ys) = None"
proof (induction xs arbitrary: j t s ys rule: scan.induct)
  case (2 b rest)
  let ?n = "char_length b" and ?ys = "drop (char_length b - 1 - length rest) ys"
  from 2(2) obtain j' t' s' where n: "?n \<noteq> 0" and sc: "scan (drop (?n - 1) rest) = Some (j', t', s')"
    and eq: "j = Suc j'" "t = t' + ?n" by (auto split: if_splits option.splits)
  show ?case
  proof (cases "?n \<le> length (b # rest) + length ys")
    case True
    then have "length (drop (?n - 1) rest @ ?ys) < t'" using 2(3) eq n by simp
    with "2.IH" [OF n sc this] show ?thesis
      using take_chars_scan_step [OF n True, of j'] eq by simp
  next
    case False
    then show ?thesis using eq by simp
  qed
qed simp

lemma scan_invalid: "scan xs = None \<Longrightarrow> length xs \<le> k \<Longrightarrow> take_chars k (xs @ ys) = None"
proof (induction xs arbitrary: k ys rule: scan.induct)
  case (2 b rest)
  let ?n = "char_length b" and ?ys = "drop (char_length b - 1 - length rest) ys"
  obtain j where k: "k = Suc j" "length rest \<le> j" using 2(3) by (cases k) auto
  show ?case
  proof (cases "?n \<noteq> 0 \<and> ?n \<le> length (b # rest) + length ys")
    case True
    then have "scan (drop (?n - 1) rest) = None" using 2(2) by (auto split: option.splits)
    moreover have "length (drop (?n - 1) rest) \<le> j" using k by (simp add: le_diff_conv)
    ultimately have "take_chars j (drop (?n - 1) rest @ ?ys) = None" using "2.IH" [of j ?ys] True by simp
    then show ?thesis using take_chars_scan_step [of b rest ys j] True k by simp
  next
    case False
    then show ?thesis using k by auto
  qed
qed simp

section \<open>Reading characters\<close>

text \<open>
  One round of \<open>finalReadUtf8String\<close>: it reads the characters that start among the next \<open>len\<close>
  bytes, or fails where they do.
\<close>

lemma finalRead_round:
  assumes d: "wf_decoder d" and len: "0 < len" "len \<le> length (unread d)"
    and sc: "scan (take len (unread d)) = Some (j, t, s)" and t: "t \<le> length (unread d)"
  shows "finalReadUtf8String (Suc k) st len d
    = finalReadUtf8String k (fst st @ take t (unread d), snd st \<or> s) (len - j) (advance t d)"
proof -
  let ?U = "unread d"
  have le: "len \<le> t" using scan_bounds [OF sc] len by simp
  have f: "fst (getUtf8StringLength (take len ?U) (snd st)) = (int j, t)"
    and sn: "snd (getUtf8StringLength (take len ?U) (snd st)) = (snd st \<or> s)"
    using utf8_count_scan [of "take len ?U"] sc by (simp_all add: getUtf8StringLength_def)
  have app: "take len ?U @ take (t - len) (drop len ?U) = take t ?U"
    using le by (metis le_add_diff_inverse take_add)
  show ?thesis
  proof (cases "len < t")
    case True
    then have "\<not> length ?U - len < t - len" using t by linarith
    then show ?thesis using True d len t f sn app le
      by (simp add: Let_def and_then_def dec_read_n_bytes_run)
  next
    case False
    then have "t = len" using le by simp
    then show ?thesis using d len f sn
      by (simp add: Let_def and_then_def dec_read_n_bytes_run)
  qed
qed

lemma finalRead_fails:
  assumes d: "wf_decoder d" and len: "0 < len" "len \<le> length (unread d)"
    and bad: "case scan (take len (unread d)) of None \<Rightarrow> True | Some (j, t, s) \<Rightarrow> length (unread d) < t"
  shows "finalReadUtf8String (Suc k) st len d = (Null, advance len d)"
proof (cases "scan (take len (unread d))")
  case None
  then have "fst (getUtf8StringLength (take len (unread d)) (snd st)) = (- 1, 0)"
    using utf8_count_scan(1) [of "take len (unread d)"] by (simp add: getUtf8StringLength_def)
  then show ?thesis using d len by (simp add: Let_def and_then_def dec_read_n_bytes_run)
next
  case (Some a)
  then obtain j t s where sc: "scan (take len (unread d)) = Some (j, t, s)" by (cases a) auto
  then have "fst (getUtf8StringLength (take len (unread d)) (snd st)) = (int j, t)"
    using utf8_count_scan(1) [of "take len (unread d)"] by (simp add: getUtf8StringLength_def)
  moreover have t: "length (unread d) < t" using bad sc by simp
  moreover have "length (unread d) - len < t - len" using t len by linarith
  ultimately show ?thesis using d len
    by (simp add: Let_def and_then_def dec_read_n_bytes_run)
qed

lemma take_chars_long: "length bs < n \<Longrightarrow> take_chars n bs = None"
proof (rule ccontr)
  assume l: "length bs < n" and "take_chars n bs \<noteq> None"
  then obtain cs rest where "take_chars n bs = Some (cs, rest)" by auto
  from take_chars_SomeD [OF this] l length_concat_chars [of cs] show False by simp
qed

lemma finalReadUtf8String_run:
  assumes "wf_decoder d" and "len \<le> k"
  shows "case take_chars len (unread d) of
      Some (cs, rest) \<Rightarrow> finalReadUtf8String k st len d
        = (Ret (fst st @ concat cs, snd st \<or> surrogate_lead cs), advance (length (concat cs)) d)
    | None \<Rightarrow> \<exists>n. n \<le> length (unread d) \<and> finalReadUtf8String k st len d = (Null, advance n d)"
  using assms
proof (induction k arbitrary: d st len)
  case 0
  then show ?case by (cases st) (simp add: surrogate_lead_def)
next
  case (Suc k)
  let ?U = "unread d"
  consider "len = 0" | "0 < len" "length ?U < len"
    | "0 < len" "len \<le> length ?U" "scan (take len ?U) = None"
    | j t s where "0 < len" "len \<le> length ?U" "scan (take len ?U) = Some (j, t, s)"
    by (metis not_gr_zero not_le option.exhaust prod_cases3)
  then show ?case
  proof cases
    case 1
    then show ?thesis by (cases st) (simp add: surrogate_lead_def)
  next
    case 2
    then have "finalReadUtf8String (Suc k) st len d = (Null, advance 0 d)"
      using Suc.prems by (simp add: and_then_def)
    then show ?thesis using 2 take_chars_long by (auto intro: exI [of _ 0])
  next
    case 3
    then have "take_chars len ?U = None"
      using scan_invalid [of "take len ?U" len "drop len ?U"] by simp
    moreover have "finalReadUtf8String (Suc k) st len d = (Null, advance len d)"
      by (rule finalRead_fails) (use 3 Suc.prems in simp_all)
    ultimately show ?thesis using 3 by auto
  next
    case 4
    have b: "0 < j" "j \<le> len" "len \<le> t" using scan_bounds [OF 4(3)] 4(1,2) by auto
    have split: "take_chars len ?U = (case take_chars j ?U of None \<Rightarrow> None
        | Some (cs, rest) \<Rightarrow> map_option (\<lambda>(ds, rest'). (cs @ ds, rest')) (take_chars (len - j) rest))"
      using take_chars_add [of j "len - j" ?U] b by simp
    show ?thesis
    proof (cases "t \<le> length ?U")
      case False
      then have "take_chars j ?U = None" using scan_incomplete [OF 4(3), of "drop len ?U"] by simp
      moreover have "finalReadUtf8String (Suc k) st len d = (Null, advance len d)"
        by (rule finalRead_fails) (use 4 False Suc.prems in simp_all)
      ultimately show ?thesis using split 4(2) by auto
    next
      case True
      then obtain cs where cs: "take_chars j ?U = Some (cs, drop t ?U)" "s = surrogate_lead cs"
        using scan_complete [OF 4(3), of "drop len ?U"] by auto
      have cc: "concat cs = take t ?U" "length (concat cs) = t"
        using take_chars_SomeD [OF cs(1)] True by (metis append_take_drop_id append_same_eq, metis
            append_take_drop_id append_same_eq length_take min.absorb2)
      have run: "finalReadUtf8String (Suc k) st len d
          = finalReadUtf8String k (fst st @ take t ?U, snd st \<or> s) (len - j) (advance t d)"
        by (rule finalRead_round) (use 4 True Suc.prems in simp_all)
      have IH: "case take_chars (len - j) (drop t ?U) of
          Some (ds, rest) \<Rightarrow> finalReadUtf8String k (fst st @ take t ?U, snd st \<or> s) (len - j) (advance t d)
            = (Ret ((fst st @ take t ?U) @ concat ds, (snd st \<or> s) \<or> surrogate_lead ds),
               advance (length (concat ds)) (advance t d))
        | None \<Rightarrow> \<exists>n. n \<le> length (drop t ?U)
            \<and> finalReadUtf8String k (fst st @ take t ?U, snd st \<or> s) (len - j) (advance t d)
              = (Null, advance n (advance t d))"
        using Suc.IH [of "advance t d" "len - j" "(fst st @ take t ?U, snd st \<or> s)",
            unfolded unread_after_advance fst_conv snd_conv] Suc.prems b True by auto
      show ?thesis
      proof (cases "take_chars (len - j) (drop t ?U)")
        case None
        then obtain n where "n \<le> length (drop t ?U)"
            "finalReadUtf8String (Suc k) st len d = (Null, advance (t + n) d)"
          using IH run by auto
        then show ?thesis using split cs None True by (auto intro!: exI [of _ "t + n"])
      next
        case (Some a)
        then show ?thesis using IH run split cs cc
          by (auto simp: surrogate_lead_def split: prod.splits)
      qed
    qed
  qed
qed

section \<open>The grammar of strings\<close>

datatype str_text =
    Short_Text "bytes list"
  | Medium_Text "bytes list"
  | Final_Text "bytes list"
  | Text_Chunk "bytes list" str_text

fun text_chars :: "str_text \<Rightarrow> bytes list" where
  "text_chars (Short_Text cs) = cs"
| "text_chars (Medium_Text cs) = cs"
| "text_chars (Final_Text cs) = cs"
| "text_chars (Text_Chunk cs t) = cs @ text_chars t"

fun text_lengths_ok :: "str_text \<Rightarrow> bool" where
  "text_lengths_ok (Short_Text cs) \<longleftrightarrow> length cs < 32"
| "text_lengths_ok (Medium_Text cs) \<longleftrightarrow> length cs < 1024"
| "text_lengths_ok (Final_Text cs) \<longleftrightarrow> length cs < 65536"
| "text_lengths_ok (Text_Chunk cs t) \<longleftrightarrow> length cs < 65536 \<and> text_lengths_ok t"

definition text_ok :: "str_text \<Rightarrow> bool" where
  "text_ok t \<longleftrightarrow> text_lengths_ok t \<and> (\<forall>c \<in> set (text_chars t). utf8_char c)"

fun text_bytes :: "str_text \<Rightarrow> bytes" where
  "text_bytes (Short_Text cs) = of_nat (length cs) # concat cs"
| "text_bytes (Medium_Text cs) = of_nat (0x30 + length cs div 256) # of_nat (length cs) # concat cs"
| "text_bytes (Final_Text cs) = 0x53 # be_bytes 2 (length cs) @ concat cs"
| "text_bytes (Text_Chunk cs t) = 0x52 # be_bytes 2 (length cs) @ concat cs @ text_bytes t"

fun text_chunks :: "str_text \<Rightarrow> nat" where
  "text_chunks (Text_Chunk cs t) = Suc (text_chunks t)"
| "text_chunks _ = 0"

text \<open>How the encoder splits its characters.\<close>

fun split_text :: "bytes list \<Rightarrow> str_text" where
  "split_text cs =
     (if 32768 < length cs then Text_Chunk (take 32768 cs) (split_text (drop 32768 cs))
      else if length cs < 32 then Short_Text cs
      else if length cs < 1024 then Medium_Text cs
      else Final_Text cs)"

declare split_text.simps [simp del]

lemma split_text_ok:
  "text_lengths_ok (split_text cs)" "text_chars (split_text cs) = cs"
proof (induction cs rule: split_text.induct)
  case (1 cs)
  note IH = "1.IH"
  { case 1 show ?case using IH(1) by (subst split_text.simps) auto }
  { case 2 show ?case using IH(2) by (subst split_text.simps) auto }
qed

section \<open>Decoding any text of the grammar\<close>

lemma decodes_finalRead:
  assumes "\<forall>c \<in> set cs. utf8_char c"
  shows "decodes (finalReadUtf8String (length cs) st (length cs)) (concat cs)
    (fst st @ concat cs, snd st \<or> surrogate_lead cs)"
proof (rule decodesI)
  fix d rest assume d: "wf_decoder d" "unread d = concat cs @ rest"
  have "take_chars (length cs) (unread d) = Some (cs, rest)"
    using take_chars_append [OF assms] d by simp
  then show "finalReadUtf8String (length cs) st (length cs) d
    = (Ret (fst st @ concat cs, snd st \<or> surrogate_lead cs), advance (length (concat cs)) d)"
    using finalReadUtf8String_run [OF d(1) order_refl, of "length cs" st] by simp
qed

lemma decodes_readChunk_last:
  assumes "\<forall>c \<in> set cs. utf8_char c" and "n = length cs"
  shows "decodes (readChunkString next_chunk st n True) (concat cs)
    (fst st @ concat cs, snd st \<or> surrogate_lead cs)"
  unfolding readChunkString_def assms(2)
  by (rule decodes_then_pure [OF decodes_finalRead [OF assms(1)]]) (simp add: decodes_ret)

lemma decodes_readChunk_more:
  assumes "\<forall>c \<in> set cs. utf8_char c" and "n = length cs"
    and "decodes (next_chunk (fst st @ concat cs, snd st \<or> surrogate_lead cs)) bs v"
  shows "decodes (readChunkString next_chunk st n False) (concat cs @ bs) v"
  unfolding readChunkString_def assms(2)
  by (rule decodes_and_then [OF decodes_finalRead [OF assms(1)]]) (simp add: assms(3))

lemma surrogate_lead_append [simp]:
  "surrogate_lead (cs @ ds) \<longleftrightarrow> surrogate_lead cs \<or> surrogate_lead ds"
  by (auto simp: surrogate_lead_def)

lemma decodes_text:
  "text_ok t \<Longrightarrow> text_chunks t < k \<Longrightarrow> decodes (decodeStringWithReader k st) (text_bytes t)
    (fst st @ concat (text_chars t), snd st \<or> surrogate_lead (text_chars t))"
proof (induction t arbitrary: k st)
  case (Short_Text cs)
  then obtain j where "k = Suc j" by (cases k) auto
  moreover obtain c :: u8 where "c = of_nat (length cs)" "unat c = length cs"
    using Short_Text unat_of_nat_u8 [of "length cs"] by (simp add: text_ok_def)
  ultimately show ?case using Short_Text
    by (auto simp: Let_def byte_compare text_ok_def intro!: decodes_read_u8_then decodes_readChunk_last)
next
  case (Medium_Text cs)
  then obtain j where k: "k = Suc j" by (cases k) auto
  let ?q = "length cs div 256"
  have q: "?q < 4" using Medium_Text by (simp add: text_ok_def less_mult_imp_div_less)
  obtain c :: u8 where "c = of_nat (0x30 + ?q)" "unat c = 0x30 + ?q"
    using q unat_of_nat_u8 [of "0x30 + ?q"] by simp
  then show ?case unfolding k using q Medium_Text
    by (auto simp: Let_def byte_compare unat_of_nat text_ok_def simp del: of_nat_add
        intro!: decodes_read_u8_then decodes_readChunk_last)
next
  case (Final_Text cs)
  then obtain j where "k = Suc j" by (cases k) auto
  with Final_Text show ?case
    by (auto simp: Let_def byte_compare text_ok_def
        intro!: decodes_read_u8_then decodes_chunk_header decodes_readChunk_last)
next
  case (Text_Chunk cs t)
  then obtain j where k: "k = Suc j" by (cases k) auto
  let ?st = "(fst st @ concat cs, snd st \<or> surrogate_lead cs)"
  have "decodes (decodeStringWithReader j ?st) (text_bytes t)
      (fst ?st @ concat (text_chars t), snd ?st \<or> surrogate_lead (text_chars t))"
    using Text_Chunk.IH [of j ?st] Text_Chunk.prems k by (simp add: text_ok_def)
  then show ?case using Text_Chunk.prems k
    by (auto simp: Let_def byte_compare text_ok_def disj_assoc
        intro!: decodes_read_u8_then decodes_chunk_header decodes_readChunk_more)
qed

lemma text_chunks_le: "text_chunks t \<le> length (text_bytes t)"
  by (induction t) auto

text \<open>
  The string a list of characters is decoded to, and when it is: with \<open>java_lite\<close> the surrogates are
  joined, and joining must not give up.
\<close>

definition read_chars :: "bool \<Rightarrow> bytes list \<Rightarrow> bytes" where
  "read_chars java_lite cs =
     (if java_lite \<and> surrogate_lead cs then unescapeFourBytesUtf8Char (concat cs) else concat cs)"

definition readable :: "bool \<Rightarrow> bytes list \<Rightarrow> bool" where
  "readable java_lite cs \<longleftrightarrow> (java_lite \<and> surrogate_lead cs \<longrightarrow> unescapeFourBytesUtf8Char (concat cs) \<noteq> [])"

lemma read_chars_False [simp]: "read_chars False cs = concat cs" "readable False cs"
  by (simp_all add: read_chars_def readable_def)

lemma decode_string_decodes:
  assumes "text_ok t" and "readable java_lite (text_chars t)"
  shows "decodes (decode_string java_lite) (text_bytes t) (read_chars java_lite (text_chars t))"
  unfolding decode_string_def
proof (rule decodes_available_then)
  fix k assume "length (text_bytes t) \<le> k"
  then have "text_chunks t < Suc k" using text_chunks_le [of t] by simp
  show "decodes (and_then (decodeStringWithReader (Suc k) ([], False)) (\<lambda>st.
      if java_lite \<and> snd st then
        (let new_out = unescapeFourBytesUtf8Char (fst st)
         in if new_out = [] then nullptr else ret new_out)
      else ret (fst st))) (text_bytes t) (read_chars java_lite (text_chars t))"
    by (rule decodes_then_pure [OF decodes_text [OF assms(1) \<open>text_chunks t < Suc k\<close>, of "([], False)"]])
      (use assms(2) in \<open>auto simp: decodes_ret read_chars_def readable_def\<close>)
qed

section \<open>Safety\<close>

lemma well_run_finalRead: "len \<le> k \<Longrightarrow> well_run ab n (finalReadUtf8String k st len)"
  unfolding well_run_def
proof (intro allI impI)
  fix d r d' assume k: "len \<le> k" and d: "wf_decoder d" and run: "finalReadUtf8String k st len d = (r, d')"
  show "r \<noteq> Hang \<and> (r = Abort \<longrightarrow> ab) \<and> wf_decoder d' \<and> (\<exists>j. unread d' = drop j (unread d))"
  proof (cases "take_chars len (unread d)")
    case None
    then obtain i where "i \<le> length (unread d)" "(r, d') = (Null, advance i d)"
      using finalReadUtf8String_run [OF d k, of st] run by auto
    then show ?thesis using d by auto
  next
    case (Some a)
    then obtain cs rest where a: "take_chars len (unread d) = Some (cs, rest)" by (cases a) auto
    then have "length (concat cs) \<le> length (unread d)" using take_chars_SomeD [OF a] by simp
    then show ?thesis using finalReadUtf8String_run [OF d k, of st] a run d by auto
  qed
qed

lemma well_run_readChunkString:
  "(\<And>st'. well_run ab n (next_chunk st')) \<Longrightarrow> well_run ab n (readChunkString next_chunk st len final)"
  unfolding readChunkString_def
  by (intro well_run_intros well_run_finalRead) (auto intro: well_run_safe safe_intros)

lemma well_run_decodeStringWithReader: "n < k \<Longrightarrow> well_run ab n (decodeStringWithReader k st)"
proof (induction k arbitrary: n st)
  case (Suc k)
  have IH: "well_run ab (n - 1) (decodeStringWithReader k st')" if "0 < n" for st'
    using Suc that by simp
  have chunk: "well_run ab (n - Suc 0) (readChunkString (decodeStringWithReader k) st' len final)" if "0 < n" for st' len final
    by (rule well_run_readChunkString) (use IH [OF that] in simp)
  show ?case
    unfolding decodeStringWithReader.simps Let_def
    by (intro well_run_read_u8_then)
      (auto intro!: chunk well_run_intros well_run_safe [OF safe_basic(2)]
        well_run_safe [OF safe_read_u8] well_run_safe [OF safe_readBE])
qed simp

text \<open>A computation that takes its fuel from the number of unread bytes.\<close>

lemma safe_with_fuel:
  assumes "\<And>n. well_run False n (f n)"
  shows "safe (and_then dec_byte_available f)"
  unfolding safe_def
proof (intro allI impI)
  fix d r d' assume d: "wf_decoder d" and run: "and_then dec_byte_available f d = (r, d')"
  then have "f (length (unread d)) d = (r, d')" by (simp add: and_then_def)
  then show "r \<noteq> Abort \<and> r \<noteq> Hang \<and> wf_decoder d' \<and> (\<exists>j. unread d' = drop j (unread d))"
    using well_runD [OF assms d order_refl] by blast
qed

lemma safe_decode_string [safe_intros]: "safe (decode_string java_lite)"
  unfolding decode_string_def
proof (rule safe_with_fuel)
  fix n
  show "well_run False n (and_then (decodeStringWithReader (Suc n) ([], False)) (\<lambda>st.
      if java_lite \<and> snd st then
        (let new_out = unescapeFourBytesUtf8Char (fst st)
         in if new_out = [] then nullptr else ret new_out)
      else ret (fst st)))"
    by (intro well_run_intros well_run_decodeStringWithReader)
      (auto intro: well_run_safe safe_intros)
qed

section \<open>Encoding\<close>

text \<open>
  Where the chunks of a list of characters end, and where its four-byte characters start, when
  \<open>cur\<close> characters of the chunk are already there and \<open>raw\<close> bytes come before.
\<close>

fun chunk_ends :: "nat \<Rightarrow> nat \<Rightarrow> bytes list \<Rightarrow> nat list" where
  "chunk_ends raw cur [] = (if 0 < cur then [raw] else [])"
| "chunk_ends raw cur (c # cs) =
     (if STRING_CHUNK_SIZE \<le> cur + 1 then (raw + length c) # chunk_ends (raw + length c) 0 cs
      else chunk_ends (raw + length c) (cur + 1) cs)"

fun four_byte_starts :: "nat \<Rightarrow> bytes list \<Rightarrow> nat list" where
  "four_byte_starts raw [] = []"
| "four_byte_starts raw (c # cs) =
     (if length c = 4 then [raw] else []) @ four_byte_starts (raw + length c) cs"

lemma utf8_offsets_chars:
  "\<forall>c \<in> set cs. utf8_char c \<Longrightarrow> utf8_offsets (concat cs) raw len cur co fo
    = (int (len + length cs), co @ chunk_ends raw cur cs, fo @ four_byte_starts raw cs)"
proof (induction cs arbitrary: raw len cur co fo)
  case (Cons c cs)
  then obtain b t where "c = b # t" "char_length b = Suc (length t)" by (auto elim: utf8_char_cases)
  with Cons show ?case by (simp add: Let_def)
qed simp

lemma utf8_offsets_valid:
  "fst (utf8_offsets data raw len cur co fo) \<noteq> - 1 \<Longrightarrow>
    \<exists>cs. data = concat cs \<and> (\<forall>c \<in> set cs. utf8_char c)"
proof (induction data raw len cur co fo rule: utf8_offsets.induct)
  case (1 raw utf8_length current_chunk chunk_offs four_offs)
  show ?case by (rule exI [of _ "[]"]) simp
next
  case (2 b rest raw len cur co fo)
  let ?n = "char_length b"
  from 2(3) have n: "?n \<noteq> 0" "?n \<le> length (b # rest)" by (auto simp: Let_def split: if_splits)
  have "\<exists>cs. drop (?n - 1) rest = concat cs \<and> (\<forall>c \<in> set cs. utf8_char c)"
    using 2 n by (auto simp: Let_def split: if_splits)
  then obtain cs where cs: "drop (?n - 1) rest = concat cs" "\<forall>c \<in> set cs. utf8_char c" by blast
  moreover have "utf8_char (b # take (?n - 1) rest)" using n by (auto simp: utf8_char_def)
  moreover have "b # rest = (b # take (?n - 1) rest) @ drop (?n - 1) rest" by simp
  ultimately show ?case
    by (intro exI [of _ "(b # take (?n - 1) rest) # cs"]) simp
qed

lemma chunk_ends_take:
  assumes "cur + m = STRING_CHUNK_SIZE" and "0 < m" and "m \<le> length cs"
  shows "chunk_ends raw cur cs = (raw + length (concat (take m cs)))
    # chunk_ends (raw + length (concat (take m cs))) 0 (drop m cs)"
  using assms
proof (induction m arbitrary: raw cur cs)
  case (Suc m)
  then obtain c cs' where cs: "cs = c # cs'" by (cases cs) auto
  show ?case
  proof (cases "m = 0")
    case True
    then show ?thesis using Suc.prems cs by simp
  next
    case False
    then have "chunk_ends (raw + length c) (cur + 1) cs' = (raw + length c + length (concat (take m cs')))
        # chunk_ends (raw + length c + length (concat (take m cs'))) 0 (drop m cs')"
      using Suc cs by (intro Suc.IH) auto
    then show ?thesis using Suc.prems cs False by (simp add: add.assoc)
  qed
qed simp

lemma write_string_chunks_tail:
  "len \<le> STRING_CHUNK_SIZE \<Longrightarrow> write_string_chunks data offs len off = write_string_tail data len off"
  by (cases offs) auto

lemma write_string_tail_run:
  assumes "length cs \<le> 32768" and "drop off data = concat cs"
  shows "write_string_tail data (length cs) off e = (Ret True, emit (text_bytes (split_text cs)) e)"
proof -
  have q: "int (length cs) div 256 = int (length cs div 256)" by simp
  have m: "of_nat (length cs mod 256) = (of_nat (length cs) :: u8)"
    by (rule word_unat_eq_iff [THEN iffD2]) (simp add: unat_of_nat)
  show ?thesis using assms
    by (subst split_text.simps) (simp add: write_string_tail_def unat_of_nat m del: of_nat_mod)
qed

lemma write_string_chunks_run:
  assumes "drop off data = concat cs" and "off + length (concat cs) = length data" and "length data < 2 ^ 32"
  shows "write_string_chunks data (chunk_ends off 0 cs) (length cs) off e
    = (Ret True, emit (text_bytes (split_text cs)) e)"
  using assms
proof (induction cs arbitrary: off e rule: split_text.induct)
  case (1 cs)
  show ?case
  proof (cases "32768 < length cs")
    case False
    then show ?thesis using 1(2) write_string_chunks_tail write_string_tail_run
      by (simp add: STRING_CHUNK_SIZE_def)
  next
    case True
    let ?x = "concat (take 32768 cs)" and ?y = "concat (drop 32768 cs)"
    have xy: "concat cs = ?x @ ?y" by (metis append_take_drop_id concat_append)
    have len: "off + length ?x + length ?y = length data" using 1(3) xy by simp
    have d1: "take (length ?x) (drop off data) = ?x" using 1(2) xy by simp
    have d2: "drop (off + length ?x) data = ?y"
      using 1(2) xy by (metis append_eq_conv_conj drop_drop add.commute)
    have ends: "chunk_ends off 0 cs = (off + length ?x) # chunk_ends (off + length ?x) 0 (drop 32768 cs)"
      using chunk_ends_take [of 0 32768 cs off] True by (simp add: STRING_CHUNK_SIZE_def)
    have IH: "write_string_chunks data (chunk_ends (off + length ?x) 0 (drop 32768 cs))
        (length cs - 32768) (off + length ?x) e'
      = (Ret True, emit (text_bytes (split_text (drop 32768 cs))) e')" for e'
      using 1(1) [OF True, of "off + length ?x" e'] d2 len 1(4) by simp
    have md: "(off + length ?x) mod 2 ^ 32 = off + length ?x" using len 1(4) by simp
    show ?thesis using True IH d1 md
      by (subst split_text.simps) (simp add: ends STRING_CHUNK_SIZE_def unat_of_nat)
  qed
qed

section \<open>The characters of a string\<close>

text \<open>The characters of a string, \<open>None\<close> for a string that is not made of characters.\<close>

fun chars :: "bytes \<Rightarrow> bytes list option" where
  "chars [] = Some []"
| "chars (b # rest) =
     (let n = char_length b in
      if n = 0 \<or> length (b # rest) < n then None
      else map_option ((#) (b # take (n - 1) rest)) (chars (drop (n - 1) rest)))"

lemma chars_concat: "\<forall>c \<in> set cs. utf8_char c \<Longrightarrow> chars (concat cs) = Some cs"
proof (induction cs)
  case (Cons c cs)
  then obtain b t where "c = b # t" "char_length b = Suc (length t)" by (auto elim: utf8_char_cases)
  with Cons show ?case by (simp add: Let_def)
qed simp

lemma chars_SomeD: "chars data = Some cs \<Longrightarrow> concat cs = data \<and> (\<forall>c \<in> set cs. utf8_char c)"
proof (induction data arbitrary: cs rule: chars.induct)
  case (2 b rest)
  let ?n = "char_length b"
  from 2(2) have n: "?n \<noteq> 0" "?n \<le> length (b # rest)" by (auto simp: Let_def split: if_splits)
  then obtain ds where ds: "chars (drop (?n - 1) rest) = Some ds" "cs = (b # take (?n - 1) rest) # ds"
    using 2(2) by (auto simp: Let_def)
  have "concat ds = drop (?n - 1) rest \<and> (\<forall>c \<in> set ds. utf8_char c)"
    using "2.IH" [OF refl _ ds(1)] n by simp
  moreover have "utf8_char (b # take (?n - 1) rest)" using n by (simp add: utf8_char_def)
  ultimately show ?case using ds(2) by simp
qed simp

lemma chars_iff: "chars data = Some cs \<longleftrightarrow> data = concat cs \<and> (\<forall>c \<in> set cs. utf8_char c)"
  using chars_SomeD chars_concat by blast

text \<open>A string that is not made of characters is refused before anything is written.\<close>

lemma encode_string_invalid:
  assumes "chars data = None"
  shows "encode_string java_lite data e = (Ret False, e)"
proof -
  have "fst (getUtf8StringLengthAndPerChunkOffsets data) = - 1"
    using utf8_offsets_valid [of data 0 0 0 "[]" "[]"] assms chars_concat
    by (fastforce simp: getUtf8StringLengthAndPerChunkOffsets_def)
  then show ?thesis by (auto simp: encode_string_def encode_string_view_def split: prod.splits)
qed

section \<open>Properties\<close>

text \<open>
  C20. Reading \<open>len\<close> characters in blocks, each as many bytes as characters are missing, gives what
  reading them one at a time gives: the same bytes, the same position, and failure on the same
  inputs.
\<close>

theorem finalReadUtf8String_reads_characters:
  assumes "length (buf :: bytes) < 2 ^ 63"
  shows "case take_chars len buf of
      Some (cs, rest) \<Rightarrow> finalReadUtf8String len ([], False) len (new_decoder buf)
        = (Ret (concat cs, surrogate_lead cs), advance (length (concat cs)) (new_decoder buf))
    | None \<Rightarrow> fst (finalReadUtf8String len ([], False) len (new_decoder buf)) = Null"
  using finalReadUtf8String_run [of "new_decoder buf" len len "([], False)"] assms
  by (auto split: option.splits)

theorem finalReadUtf8String_reads_characters_witness:
  "fst (finalReadUtf8String 2 ([], False) 2 (new_decoder [0x68, 0xc3, 0xa9, 0x21]))
    = Ret ([0x68, 0xc3, 0xa9], False)"
proof -
  have "take_chars 2 [0x68, 0xc3, 0xa9, 0x21] = Some ([[0x68], [0xc3, 0xa9]], [0x21 :: u8])"
    by (simp add: take_chars_iff utf8_char_def char_length_def UTF_8_CHAR_LENGTHS_def)
  then show ?thesis
    using finalReadUtf8String_reads_characters [of "[0x68, 0xc3, 0xa9, 0x21]" 2]
    by (simp add: surrogate_lead_def)
qed

text \<open>
  C32. The decoder accepts every chunking and every length form of the grammar, not only the ones
  its own encoder chooses, chunks without characters included.
\<close>

theorem decode_string_any_chunking:
  assumes "text_ok t" and "length (text_bytes t @ rest) < 2 ^ 63"
  shows "decode_string False (new_decoder (text_bytes t @ rest))
    = (Ret (concat (text_chars t)), advance (length (text_bytes t)) (new_decoder (text_bytes t @ rest)))"
  using assms decodesD [OF decode_string_decodes [of t False]] by simp

theorem decode_string_any_chunking_witness:
  "decoded (decode_string False) [0x52, 0, 0, 0x52, 0, 1, 0xc3, 0xa9, 0x30, 1, 0x21] = Ret [0xc3, 0xa9, 0x21]"
  using decode_string_any_chunking [of "Text_Chunk [] (Text_Chunk [[0xc3, 0xa9]] (Medium_Text [[0x21]]))" "[]"]
  by (simp add: decoded_def be_bytes_def text_ok_def utf8_char_def char_length_def UTF_8_CHAR_LENGTHS_def)

end
