(* ===== verification/String_Surrogates.thy ===== *)
theory String_Surrogates
  imports String_Codec
begin

text \<open>
  The build flag \<open>COMPATIBLE_WITH_JAVA_HESSIAN_LITE\<close> of src/hessian2/basic_codec/string_codec.cc: a
  four-byte character travels as a pair of three-byte surrogates, and the decoder joins them
  again. The bit manipulations of the two rewriting loops cancel out on every string of Unicode
  scalar values, so the codec with the flag satisfies the same contract as the one without.
\<close>

unbundle bit_operations_syntax

section \<open>Bits\<close>

lemma bits_eqI:
  fixes x y :: "'a::len word"
  assumes "list_all (\<lambda>n. bit x n = bit y n) [0..<LENGTH('a)]"
  shows "x = y"
  using assms by (intro bit_word_eqI) (simp add: list_all_iff)

lemma upto_bits:
  "[0..<8] = [0, 1, 2, 3, 4, 5, 6, 7]"
  "[0..<16] = [0, 1, 2, 3, 4, 5, 6, 7, 8, 9, 10, 11, 12, 13, 14, 15]"
  "[0..<32] = [0, 1, 2, 3, 4, 5, 6, 7, 8, 9, 10, 11, 12, 13, 14, 15, 16, 17, 18, 19, 20, 21, 22,
     23, 24, 25, 26, 27, 28, 29, 30, 31]"
  by (simp_all add: upt_rec)

lemmas bit_eval = bit_or_iff bit_and_iff bit_push_bit_iff bit_drop_bit_eq bit_unsigned_iff upto_bits

lemma four_bytes_of_code_point:
  "four_bytes_of (four_byte_code_point b0 b1 b2 b3)
    = [0xF0 OR (b0 AND 7), 0x80 OR (b1 AND 0x3F), 0x80 OR (b2 AND 0x3F), 0x80 OR (b3 AND 0x3F)]"
  unfolding four_bytes_of_def four_byte_code_point_def bits_def
  by (intro arg_cong2 [where f = Cons] refl bits_eqI) (simp_all add: bit_eval)

lemma code_point_of_three_bytes:
  "three_byte_code_point (three_bytes_of v ! 0) (three_bytes_of v ! 1) (three_bytes_of v ! 2)
    = ucast v AND 0xFFFF"
  unfolding three_bytes_of_def three_byte_code_point_def bits_def
  by (intro bits_eqI) (simp add: bit_eval)

lemma low_ten_bits:
  "(ucast (ucast (0xD800 OR x) :: u16) AND 0xFFFF) AND (0x3FF::u32) = x AND (0x3FF :: u32)"
  "(ucast (ucast (0xDC00 OR x) :: u16) AND 0xFFFF) AND (0x3FF::u32) = x AND (0x3FF :: u32)"
  by ((intro bits_eqI, simp add: bit_eval); fail)+

lemma surrogate_lead_bytes:
  "three_bytes_of (ucast (0xD800 OR (x AND 0x3FF :: u32))) ! 0 = 0xED"
  "three_bytes_of (ucast (0xD800 OR (x AND 0x3FF :: u32))) ! Suc 0 AND 0xF0 = 0xA0"
  "three_bytes_of (ucast (0xDC00 OR (x AND 0x3FF :: u32))) ! 0 = 0xED"
  "three_bytes_of (ucast (0xDC00 OR (x AND 0x3FF :: u32))) ! Suc 0 AND 0xF0 = 0xB0"
  unfolding three_bytes_of_def by ((intro bits_eqI, simp add: bit_eval); fail)+

lemma join_bits: "push_bit 10 (drop_bit 10 q AND 0x3FF) OR (q AND 0x3FF) = q AND (0xFFFFF :: u32)"
  by (intro bits_eqI) (simp add: bit_eval)

lemma plus_or: "x AND y = 0 \<Longrightarrow> x + y = x OR (y :: u32)"
  by (rule disjunctive_add) (metis bit_0_eq bit_and_iff bot_apply bot_bool_def)

lemma surrogate_sums:
  "0xD800 + (x AND 0x3FF) = 0xD800 OR (x AND 0x3FF :: u32)"
  "0xDC00 + (x AND 0x3FF) = 0xDC00 OR (x AND 0x3FF :: u32)"
proof -
  have "0xD800 AND (x AND 0x3FF) = 0" "0xDC00 AND (x AND 0x3FF :: u32) = 0"
    by ((intro bits_eqI, simp add: bit_eval); fail)+
  then show "0xD800 + (x AND 0x3FF) = 0xD800 OR (x AND 0x3FF :: u32)"
    "0xDC00 + (x AND 0x3FF) = 0xDC00 OR (x AND 0x3FF :: u32)" by (simp_all only: plus_or)
qed

lemma small_and: "q < 0x100000 \<Longrightarrow> q AND 0xFFFFF = (q :: u32)"
proof (rule word_unat_eq_iff [THEN iffD2])
  assume "q < 0x100000"
  then have "unat q < 2 ^ 20" by (simp add: word_less_nat_alt)
  then have "unat (take_bit 20 q) = unat q" by (simp add: unsigned_take_bit_eq take_bit_nat_eq_self)
  then show "unat (q AND 0xFFFFF) = unat q" by (simp add: take_bit_eq_mask mask_eq_exp_minus_1)
qed

lemma high_ten_bits:
  assumes "q < 0x100000"
  shows "drop_bit 10 q = drop_bit 10 q AND (0x3FF :: u32)"
proof -
  have "drop_bit 10 (q AND 0xFFFFF) = drop_bit 10 (q AND 0xFFFFF) AND (0x3FF :: u32)"
    by (intro bits_eqI) (simp add: bit_eval)
  then show ?thesis by (simp only: small_and [OF assms])
qed

section \<open>Surrogate pairs\<close>

text \<open>The two characters that stand for the code point \<open>0x10000 + q\<close>.\<close>

definition surrogates :: "u32 \<Rightarrow> bytes list" where
  "surrogates q = [three_bytes_of (ucast (0xD800 + drop_bit 10 q)), three_bytes_of (ucast (0xDC00 + (q AND 0x3FF)))]"

lemma length_three_bytes_of [simp]: "length (three_bytes_of v) = 3"
  by (simp add: three_bytes_of_def)

lemma three_bytes_of_cases: obtains x y z where "three_bytes_of v = [x, y, z]"
  by (simp add: three_bytes_of_def)

lemma surrogates_or:
  assumes "q < 0x100000"
  shows "surrogates q = [three_bytes_of (ucast (0xD800 OR (drop_bit 10 q AND 0x3FF))),
     three_bytes_of (ucast (0xDC00 OR (q AND 0x3FF)))]"
proof -
  have "0xD800 + drop_bit 10 q = 0xD800 OR (drop_bit 10 q AND 0x3FF)"
    using high_ten_bits [OF assms] surrogate_sums(1) [of "drop_bit 10 q"] by simp
  then show ?thesis by (simp only: surrogates_def surrogate_sums)
qed

lemma and_idem_0x3FF: "(x AND 0x3FF) AND 0x3FF = x AND (0x3FF :: u32)"
  by (simp add: and.assoc)

lemma join_surrogate_bytes:
  assumes "bs = three_bytes_of h @ three_bytes_of l @ rest"
  shows "join_surrogates bs = four_bytes_of
    ((push_bit 10 ((ucast h AND 0xFFFF) AND 0x3FF) OR ((ucast l AND 0xFFFF) AND 0x3FF)) + 0x10000)"
proof -
  obtain x y z where h: "three_bytes_of h = [x, y, z]" by (rule three_bytes_of_cases)
  obtain u v w where l: "three_bytes_of l = [u, v, w]" by (rule three_bytes_of_cases)
  have "three_byte_code_point x y z = ucast h AND 0xFFFF" "three_byte_code_point u v w = ucast l AND 0xFFFF"
    using code_point_of_three_bytes [of h] code_point_of_three_bytes [of l] unfolding h l by simp_all
  then show ?thesis using assms by (simp add: h l join_surrogates_def Let_def)
qed

lemma surrogates_pair:
  assumes "q < 0x100000"
  shows "is_surrogate_pair (concat (surrogates q) @ rest)"
    and "join_surrogates (concat (surrogates q) @ rest) = four_bytes_of (q + 0x10000)"
    and "\<forall>c \<in> set (surrogates q). length c = 3 \<and> hd c = 0xED"
    and "length (concat (surrogates q)) = 6"
proof -
  let ?h = "ucast (0xD800 OR (drop_bit 10 q AND 0x3FF)) :: u16" and ?l = "ucast (0xDC00 OR (q AND 0x3FF)) :: u16"
  obtain x y z where h: "three_bytes_of ?h = [x, y, z]" by (rule three_bytes_of_cases)
  obtain u v w where l: "three_bytes_of ?l = [u, v, w]" by (rule three_bytes_of_cases)
  have lead: "x = 0xED" "y AND 0xF0 = 0xA0" "u = 0xED" "v AND 0xF0 = 0xB0"
    using surrogate_lead_bytes(1,2) [of "drop_bit 10 q"] surrogate_lead_bytes(3,4) [of q]
    unfolding h l by simp_all
  have s: "surrogates q = [three_bytes_of ?h, three_bytes_of ?l]" by (rule surrogates_or [OF assms])
  show "is_surrogate_pair (concat (surrogates q) @ rest)"
    unfolding s h l using lead by (simp add: is_surrogate_pair_def)
  show "\<forall>c \<in> set (surrogates q). length c = 3 \<and> hd c = 0xED" unfolding s h l using lead by simp
  show "length (concat (surrogates q)) = 6" unfolding s h l by simp
  have "join_surrogates (concat (surrogates q) @ rest)
      = four_bytes_of ((push_bit 10 (drop_bit 10 q AND 0x3FF) OR (q AND 0x3FF)) + 0x10000)"
    by (subst join_surrogate_bytes [where h = "?h" and l = "?l"]) (simp_all only: s low_ten_bits and_idem_0x3FF concat.simps append_assoc append_Nil)
  then show "join_surrogates (concat (surrogates q) @ rest) = four_bytes_of (q + 0x10000)"
    by (simp only: join_bits small_and [OF assms])
qed

section \<open>Escaping\<close>

text \<open>
  The characters the rewriting preserves: a four-byte character is well formed and encodes a code
  point above the basic plane, and a three-byte character is not the first half of a surrogate pair.
\<close>

definition plane_offset :: "bytes \<Rightarrow> u32" where
  "plane_offset c = four_byte_code_point (c ! 0) (c ! 1) (c ! 2) (c ! 3) - 0x10000"

definition scalar_char :: "bytes \<Rightarrow> bool" where
  "scalar_char c \<longleftrightarrow> utf8_char c \<and>
     (if length c = 4 then
        four_byte_code_point (c ! 0) (c ! 1) (c ! 2) (c ! 3) \<ge> 0x10000
        \<and> four_byte_code_point (c ! 0) (c ! 1) (c ! 2) (c ! 3) \<le> 0x10FFFF
        \<and> c ! 1 AND 0xC0 = 0x80 \<and> c ! 2 AND 0xC0 = 0x80 \<and> c ! 3 AND 0xC0 = 0x80
      else hd c = 0xED \<longrightarrow> c ! 1 AND 0xF0 \<noteq> 0xA0)"

definition escape_char :: "bytes \<Rightarrow> bytes list" where
  "escape_char c = (if length c = 4 then surrogates (plane_offset c) else [c])"

definition escaped :: "bytes list \<Rightarrow> bytes list" where
  "escaped cs = concat (map escape_char cs)"

lemma escaped_simps [simp]:
  "escaped [] = []" "escaped (c # cs) = escape_char c @ escaped cs"
  by (simp_all add: escaped_def)

lemma char_length_0xED: "char_length 0xED = 3"
  by (simp add: char_length_def UTF_8_CHAR_LENGTHS_def)

lemma scalar_char_utf8: "scalar_char c \<Longrightarrow> utf8_char c"
  by (simp add: scalar_char_def)

lemma plane_offset_less:
  assumes "scalar_char c" and "length c = 4"
  shows "plane_offset c < 0x100000"
    and "\<not> four_byte_code_point (c ! 0) (c ! 1) (c ! 2) (c ! 3) < 0x10000"
    and "\<not> four_byte_code_point (c ! 0) (c ! 1) (c ! 2) (c ! 3) > 0x10FFFF"
  using assms by (auto simp: plane_offset_def scalar_char_def word_less_nat_alt word_le_nat_alt unat_sub_if')

lemma escape_char_utf8:
  "scalar_char c \<Longrightarrow> \<forall>e \<in> set (escape_char c). utf8_char e \<and> length e \<noteq> 4"
  using surrogates_pair(3) [of "plane_offset c"] plane_offset_less [of c] scalar_char_utf8 [of c]
  by (cases "length c = 4") (fastforce simp: escape_char_def utf8_char_def char_length_0xED)+

lemma escaped_utf8:
  "\<forall>c \<in> set cs. scalar_char c \<Longrightarrow> \<forall>e \<in> set (escaped cs). utf8_char e \<and> length e \<noteq> 4"
  using escape_char_utf8 by (induction cs) auto

lemma escape_from_chars:
  assumes "\<forall>c \<in> set cs. scalar_char c" and "last_pos \<le> length pre"
  shows "escape_from (pre @ concat cs) (four_byte_starts (length pre) cs) last_pos out
    = Some (out @ drop last_pos pre @ concat (escaped cs))"
  using assms
proof (induction cs arbitrary: pre last_pos out)
  case (Cons c cs)
  have IH: "escape_from (pre @ c @ concat cs) (four_byte_starts (length pre + length c) cs) p out'
      = Some (out' @ drop p (pre @ c) @ concat (escaped cs))" if "p \<le> length pre + length c" for p out'
    using Cons.IH [of p "pre @ c" out'] Cons.prems that by simp
  show ?case
  proof (cases "length c = 4")
    case True
    then have nths: "(pre @ c @ concat cs) ! (length pre) = c ! 0" "(pre @ c @ concat cs) ! Suc (length pre) = c ! 1"
      "(pre @ c @ concat cs) ! Suc (Suc (length pre)) = c ! 2" "(c @ concat cs) ! 3 = c ! 3"
      by (simp_all add: nth_append)
    have "scalar_char c" using Cons.prems by simp
    note ok = plane_offset_less [OF this True]
    show ?thesis using True Cons.prems IH [of "length pre + 4"] ok(2,3)
      by (simp add: nths Let_def escape_char_def surrogates_def plane_offset_def)
  next
    case False
    then show ?thesis using Cons.prems IH [of last_pos out] by (simp add: escape_char_def)
  qed
qed simp

lemma escapeFourBytesUtf8Char_chars:
  assumes "\<forall>c \<in> set cs. scalar_char c"
  shows "escapeFourBytesUtf8Char (concat cs) (four_byte_starts 0 cs) = concat (escaped cs)"
  using escape_from_chars [OF assms, of 0 "[]" "[]"] by (simp add: escapeFourBytesUtf8Char_def)

section \<open>Joining\<close>

lemma four_bytes_char:
  assumes "scalar_char c" and "length c = 4"
  shows "four_bytes_of (plane_offset c + 0x10000) = c"
proof -
  obtain b0 b1 b2 b3 where c: "c = [b0, b1, b2, b3]" using assms(2)
    by (auto simp: numeral_eq_Suc length_Suc_conv)
  have "char_length b0 = 4" using assms by (simp add: scalar_char_def utf8_char_def c)
  then have "unat b0 div 8 = 30"
    using unat_byte_lt [of b0]
    by (auto simp: char_length_def UTF_8_CHAR_LENGTHS_def nth_Cons' split: if_splits)
  then have "drop_bit 3 (unat b0) = unat (30 :: u8)" by (simp add: drop_bit_eq_div)
  then have "unat (drop_bit 3 b0) = unat (30 :: u8)" by (simp only: unat_drop_bit_eq)
  then have "drop_bit 3 b0 = 30" by (simp only: word_unat_eq_iff)
  then have "bit (drop_bit 3 b0) n = bit (30 :: u8) n" for n by simp
  from this [of 0] this [of 1] this [of 2] this [of 3] this [of 4]
  have "0xF0 OR (b0 AND 7) = b0"
    by (intro bits_eqI) (simp add: bit_eval)
  moreover have "0x80 OR (b AND 0x3F) = b" if b: "b AND 0xC0 = 0x80" for b :: u8
  proof -
    have "bit (b AND 0xC0) n = bit (0x80 :: u8) n" for n using b by simp
    from this [of 6] this [of 7] show ?thesis by (intro bits_eqI) (simp add: bit_eval)
  qed
  ultimately show ?thesis using assms
    by (simp add: c plane_offset_def four_bytes_of_code_point scalar_char_def)
qed

lemma unescape_from_chars:
  "\<forall>c \<in> set cs. scalar_char c \<Longrightarrow> unescape_from (concat (escaped cs)) out = Some (out @ concat cs)"
proof (induction cs arbitrary: out)
  case (Cons c cs)
  then have c: "scalar_char c" by simp
  show ?case
  proof (cases "length c = 4")
    case True
    note q = plane_offset_less(1) [OF c True]
    let ?s = "concat (surrogates (plane_offset c))" and ?r = "concat (escaped cs)"
    obtain b s where s: "?s = b # s" "length s = 5" 
      using surrogates_pair(4) [OF q] by (cases ?s) auto
    have "is_surrogate_pair (b # s @ ?r)" "join_surrogates (b # s @ ?r) = c"
      using surrogates_pair(1,2) [OF q, of ?r] four_bytes_char [OF c True] s by simp_all
    moreover from this have "b = 0xED" by (simp add: is_surrogate_pair_def)
    ultimately show ?thesis using Cons True s by (simp add: escape_char_def char_length_0xED)
  next
    case False
    obtain b t where bt: "c = b # t" "char_length b = Suc (length t)"
      using scalar_char_utf8 [OF c] by (auto elim: utf8_char_cases)
    have "\<not> (char_length b = 3 \<and> is_surrogate_pair (c @ concat (escaped cs)))"
      using c False bt by (auto simp: scalar_char_def is_surrogate_pair_def nth_append)
    then show ?thesis using Cons False bt by (auto simp: escape_char_def Let_def)
  qed
qed simp

section \<open>The codec contract\<close>

text \<open>
  The characters that are written, the strings the codec round-trips, and their encoding. Without
  the flag that is every string of characters.
\<close>

definition sent_chars :: "bool \<Rightarrow> bytes list \<Rightarrow> bytes list" where
  "sent_chars java_lite cs = (if java_lite then escaped cs else cs)"

definition string_ok :: "bool \<Rightarrow> bytes \<Rightarrow> bool" where
  "string_ok java_lite data \<longleftrightarrow> length data < 2 ^ 32 \<and> (case chars data of None \<Rightarrow> False
     | Some cs \<Rightarrow> java_lite \<longrightarrow> list_all scalar_char cs \<and> length (concat (escaped cs)) < 2 ^ 32)"

definition string_repr :: "bool \<Rightarrow> bytes \<Rightarrow> bytes" where
  "string_repr java_lite data = text_bytes (split_text (sent_chars java_lite (the (chars data))))"

lemma string_okE:
  assumes "string_ok java_lite data"
  obtains cs where "chars data = Some cs" "data = concat cs" "\<forall>c \<in> set cs. utf8_char c"
    "\<forall>c \<in> set (sent_chars java_lite cs). utf8_char c" "length (concat (sent_chars java_lite cs)) < 2 ^ 32"
    "java_lite \<Longrightarrow> \<forall>c \<in> set cs. scalar_char c"
proof -
  from assms obtain cs where cs: "chars data = Some cs" "data = concat cs" "\<forall>c \<in> set cs. utf8_char c"
    and len: "length data < 2 ^ 32"
    and jl: "java_lite \<Longrightarrow> (\<forall>c \<in> set cs. scalar_char c) \<and> length (concat (escaped cs)) < 2 ^ 32"
    by (auto simp: string_ok_def chars_iff list_all_iff split: option.splits)
  show thesis
    by (rule that [OF cs]) (use cs len jl escaped_utf8 [of cs] in \<open>auto simp: sent_chars_def\<close>)
qed

text \<open>Strings without four-byte characters and surrogates travel as they are.\<close>

lemma plain_string:
  assumes "chars data = Some cs" and "\<forall>c \<in> set cs. length c \<noteq> 4 \<and> hd c \<noteq> 0xED" and "length data < 2 ^ 32"
  shows "string_ok java_lite data" and "string_repr java_lite data = text_bytes (split_text cs)"
proof -
  have "escaped cs = cs" using assms(2) by (induction cs) (simp_all add: escape_char_def)
  moreover have "data = concat cs" "\<forall>c \<in> set cs. utf8_char c" using chars_SomeD [OF assms(1)] by auto
  moreover from this have "\<forall>c \<in> set cs. scalar_char c" using assms(2) by (simp add: scalar_char_def)
  ultimately show "string_ok java_lite data" "string_repr java_lite data = text_bytes (split_text cs)"
    using assms(1,3) by (simp_all add: string_ok_def list_all_iff string_repr_def sent_chars_def)
qed

lemma escaped_id: "four_byte_starts raw cs = [] \<Longrightarrow> escaped cs = cs"
  by (induction cs arbitrary: raw) (auto simp: escape_char_def split: if_splits)

lemma escaped_no_lead:
  "\<forall>c \<in> set cs. scalar_char c \<Longrightarrow> \<not> surrogate_lead (escaped cs) \<Longrightarrow> escaped cs = cs"
proof (induction cs)
  case (Cons c cs)
  have "length c \<noteq> 4"
  proof
    assume four: "length c = 4"
    then have "surrogate_lead (escape_char c)"
      using surrogates_pair(3) [OF plane_offset_less(1) [of c]] Cons.prems
      by (simp add: escape_char_def surrogate_lead_def surrogates_def)
    then show False using Cons.prems by simp
  qed
  then show ?case using Cons by (simp add: escape_char_def surrogate_lead_def)
qed simp

lemma escaped_not_empty:
  assumes "\<forall>c \<in> set cs. scalar_char c" and "cs \<noteq> []"
  shows "concat (escaped cs) \<noteq> []"
proof -
  have "escaped cs \<noteq> []" using assms(2) by (cases cs) (auto simp: escape_char_def surrogates_def)
  then show ?thesis using escaped_utf8 [OF assms(1)] by (cases "escaped cs") (auto simp: utf8_char_def)
qed

lemma offsets_of_chars:
  "\<forall>c \<in> set cs. utf8_char c \<Longrightarrow> getUtf8StringLengthAndPerChunkOffsets (concat cs)
    = (int (length cs), chunk_ends 0 0 cs, four_byte_starts 0 cs)"
  using utf8_offsets_chars by (simp add: getUtf8StringLengthAndPerChunkOffsets_def)

lemma encode_string_encodes:
  assumes "string_ok java_lite data"
  shows "encodes (encode_string java_lite data) (string_repr java_lite data)"
  using assms
proof (rule string_okE)
  fix cs assume cs: "chars data = Some cs" "data = concat cs" "\<forall>c \<in> set cs. utf8_char c"
    and sent: "\<forall>c \<in> set (sent_chars java_lite cs). utf8_char c" "length (concat (sent_chars java_lite cs)) < 2 ^ 32"
    and jl: "java_lite \<Longrightarrow> \<forall>c \<in> set cs. scalar_char c"
  have run: "write_string_chunks (concat (sent_chars java_lite cs)) (chunk_ends 0 0 (sent_chars java_lite cs))
      (length (sent_chars java_lite cs)) 0 e = (Ret True, emit (string_repr java_lite data) e)" for e
    using write_string_chunks_run [of 0 "concat (sent_chars java_lite cs)" "sent_chars java_lite cs"] cs(1) sent(2)
    by (simp add: string_repr_def)
  show ?thesis
  proof (cases "java_lite \<and> four_byte_starts 0 cs \<noteq> []")
    case False
    then have "sent_chars java_lite cs = cs" using escaped_id by (auto simp: sent_chars_def)
    then show ?thesis using cs(1,2) False run offsets_of_chars [OF cs(3)]
      by (auto simp: encodes_def encode_string_def encode_string_view_def)
  next
    case True
    then have sc: "sent_chars java_lite cs = escaped cs" "\<forall>c \<in> set cs. scalar_char c" "cs \<noteq> []"
      using jl by (auto simp: sent_chars_def)
    show ?thesis
      using cs(2) True run offsets_of_chars [OF cs(3)] offsets_of_chars [OF sent(1)]
        escapeFourBytesUtf8Char_chars [OF sc(2)] escaped_not_empty [OF sc(2,3)] sc(1)
      by (simp add: encodes_def encode_string_def encode_string_view_def del: concat_eq_Nil_conv)
  qed
qed

lemma escaped_read:
  assumes "\<forall>c \<in> set cs. scalar_char c"
  shows "read_chars True (escaped cs) = concat cs" and "readable True (escaped cs)"
proof -
  have un: "unescapeFourBytesUtf8Char (concat (escaped cs)) = concat cs"
    using unescape_from_chars [OF assms, of "[]"] by (simp add: unescapeFourBytesUtf8Char_def)
  have "concat cs \<noteq> []" if "surrogate_lead (escaped cs)"
    using that assms by (cases cs) (auto simp: surrogate_lead_def scalar_char_def utf8_char_def)
  then show "read_chars True (escaped cs) = concat cs" "readable True (escaped cs)"
    using un escaped_no_lead [OF assms] by (auto simp: read_chars_def readable_def)
qed

lemma sent_chars_read:
  assumes "java_lite \<Longrightarrow> \<forall>c \<in> set cs. scalar_char c"
  shows "read_chars java_lite (sent_chars java_lite cs) = concat cs" and "readable java_lite (sent_chars java_lite cs)"
  using assms escaped_read by (cases java_lite; simp add: sent_chars_def)+

text \<open>The text of the grammar that the encoder writes.\<close>

lemma string_repr_text:
  assumes "string_ok java_lite data"
  obtains t where "text_ok t" "readable java_lite (text_chars t)" "text_bytes t = string_repr java_lite data"
    "read_chars java_lite (text_chars t) = data"
  using assms
proof (rule string_okE)
  fix cs assume cs: "chars data = Some cs" "data = concat cs"
    and sent: "\<forall>c \<in> set (sent_chars java_lite cs). utf8_char c" and jl: "java_lite \<Longrightarrow> \<forall>c \<in> set cs. scalar_char c"
  show thesis
    by (rule that [of "split_text (sent_chars java_lite cs)"])
      (use cs sent sent_chars_read [OF jl] in \<open>simp_all add: text_ok_def split_text_ok string_repr_def\<close>)
qed

lemma decode_string_ok_decodes:
  assumes "string_ok java_lite data"
  shows "decodes (decode_string java_lite) (string_repr java_lite data) data"
  using assms by (rule string_repr_text) (use decode_string_decodes in force)

interpretation str_codec: value_codec "encode_string java_lite" "decode_string java_lite"
    "string_repr java_lite" "string_ok java_lite" for java_lite
  by unfold_locales (simp_all add: encode_string_encodes decode_string_ok_decodes)

section \<open>Properties\<close>

text \<open>
  C16. A string of characters is read back from its encoding, byte for byte, whatever follows it
  and however many chunks it takes, and the decoder stops right after it. With the compatibility
  flag the same holds for every string of Unicode scalar values: the characters outside of the
  basic plane are split into surrogates and joined again.
\<close>

theorem string_round_trip:
  assumes "string_ok java_lite data" and "length (encoded (encode_string java_lite data) @ rest) < 2 ^ 63"
  shows "decode_string java_lite (new_decoder (encoded (encode_string java_lite data) @ rest))
    = (Ret data, advance (length (encoded (encode_string java_lite data)))
        (new_decoder (encoded (encode_string java_lite data) @ rest)))"
  by (rule str_codec.round_trip [OF assms])

lemma emoji_encoded:
  "string_ok True [0xf0, 0x9f, 0x98, 0x80]"
  "string_repr True [0xf0, 0x9f, 0x98, 0x80] = [2, 0xed, 0xa0, 0xbd, 0xed, 0xb8, 0x80]"
  by (simp_all add: string_ok_def string_repr_def sent_chars_def char_length_def UTF_8_CHAR_LENGTHS_def
      scalar_char_def utf8_char_def four_byte_code_point_def bits_def escape_char_def surrogates_def
      plane_offset_def three_bytes_of_def split_text.simps Let_def)

theorem string_round_trip_witness:
  "decoded (decode_string True) [2, 0xed, 0xa0, 0xbd, 0xed, 0xb8, 0x80] = Ret [0xf0, 0x9f, 0x98, 0x80]"
  using string_round_trip [of True "[0xf0, 0x9f, 0x98, 0x80]" "[]"] emoji_encoded
  by (simp add: decoded_def str_codec.encoded_repr)



end
