(* ===== verification/Ref_Codec.thy ===== *)
theory Ref_Codec
  imports String_Surrogates
begin

text \<open>
  Type references, class definitions and object references
  (src/hessian2/basic_codec/type_ref_codec.cc, def_ref_codec.cc, ref_object_codec.cc), and the
  streaming operations of the encoder (src/hessian2/codec.cc). A type name or definition is sent
  once; afterwards its index in a table of the decoder is sent. The contract of such a codec says
  that the tables of the two sides stay in step.
\<close>

section \<open>Type references\<close>

definition string_code :: "u8 \<Rightarrow> bool" where
  "string_code code \<longleftrightarrow> code \<le> 31 \<or> (48 \<le> code \<and> code \<le> 51) \<or> code = 82 \<or> code = 83"

definition decode_type_ref :: "bool \<Rightarrow> (decoder, bytes) comp" where
  "decode_type_ref java_lite = and_then dec_peek_u8 (\<lambda>res.
     if \<not> fst res then nullptr
     else if string_code (snd res) then
       and_then (decode_string java_lite) (\<lambda>type_str.
       and_then (modify (\<lambda>d. d\<lparr>d_types := d_types d @ [type_str]\<rparr>)) (\<lambda>_. ret type_str))
     else and_then decode_i32 (\<lambda>ret_int.
       and_then (gets d_types) (\<lambda>types_ref.
         if length types_ref \<le> unat ret_int then nullptr else ret (types_ref ! unat ret_int))))"

text \<open>The result of encoding the name is not looked at.\<close>

definition encode_type_ref :: "bool \<Rightarrow> bytes \<Rightarrow> (encoder, bool) comp" where
  "encode_type_ref java_lite type_name = and_then (gets (getTypeRef type_name)) (\<lambda>r.
     if r = - 1 then
       and_then (modify (\<lambda>e. e\<lparr>e_types := emplace type_name (of_nat (length (e_types e))) (e_types e)\<rparr>)) (\<lambda>_.
       and_then (encode_string java_lite type_name) (\<lambda>_. ret True))
     else and_then (encode_i32 (word_of_int (sint r))) (\<lambda>_. ret True))"

section \<open>Class definitions\<close>

fun decode_field_names :: "bool \<Rightarrow> nat \<Rightarrow> bytes list \<Rightarrow> (decoder, bytes list) comp" where
  "decode_field_names java_lite 0 names = ret names"
| "decode_field_names java_lite (Suc k) names =
     and_then (decode_string java_lite) (\<lambda>name. decode_field_names java_lite k (names @ [name]))"

text \<open>
  \<open>reserve\<close> of a negative number, converted to \<open>size_t\<close>, throws \<open>std::length_error\<close>, which nobody
  catches. (For a positive one it may run out of memory, which is not modelled.)
\<close>

definition decode_definition :: "bool \<Rightarrow> (decoder, raw_definition) comp" where
  "decode_definition java_lite = and_then dec_read_u8 (\<lambda>res.
     if \<not> fst res then nullptr
     else let code = snd res in
     if code = 0x43 then
       and_then (decode_string java_lite) (\<lambda>type_name.
       and_then decode_i32 (\<lambda>field_len.
         if sint field_len < 0 then abort
         else and_then (decode_field_names java_lite (nat (sint field_len)) []) (\<lambda>names.
           let def = \<lparr>def_type = type_name, field_names = names\<rparr>
           in and_then (modify (\<lambda>d. d\<lparr>d_defs := d_defs d @ [def]\<rparr>)) (\<lambda>_. ret def))))
     else if code = 0x4f then
       and_then decode_i32 (\<lambda>ref_number.
       and_then (gets d_defs) (\<lambda>def_ref.
         if length def_ref \<le> unat ref_number then nullptr else ret (def_ref ! unat ref_number)))
     else if 0x60 \<le> code \<and> code \<le> 0x6f then
       and_then (gets d_defs) (\<lambda>def_ref.
         let ref_num = unat code - 0x60
         in if length def_ref \<le> ref_num then nullptr else ret (def_ref ! ref_num))
     else nullptr)"

text \<open>
  What the class instance decoder does before it reads the fields: a definition that is new to the
  stream is followed by a reference to it.
\<close>

definition find_definition :: "bool \<Rightarrow> (decoder, raw_definition) comp" where
  "find_definition java_lite = and_then dec_peek_u8 (\<lambda>res.
     if \<not> fst res then nullptr
     else and_then (if snd res = 0x43 then and_then (decode_definition java_lite) (\<lambda>_. ret ()) else ret ())
       (\<lambda>_. decode_definition java_lite))"

fun encode_strings :: "bool \<Rightarrow> bytes list \<Rightarrow> (encoder, bool) comp" where
  "encode_strings java_lite [] = ret True"
| "encode_strings java_lite (s # ss) = and_then (encode_string java_lite s) (\<lambda>_. encode_strings java_lite ss)"

text \<open>
  The encoder calls itself once it has stored and written a new definition, to write the
  reference. A third call is made only for a definition at index 65535, whose index is the
  \<open>int16_t\<close> -1, and then for ever; hence two units of fuel describe all runs that return.
\<close>

fun encode_def_fuel :: "bool \<Rightarrow> nat \<Rightarrow> raw_definition \<Rightarrow> (encoder, bool) comp" where
  "encode_def_fuel java_lite 0 def = hang"
| "encode_def_fuel java_lite (Suc k) def = and_then (getDefRef def) (\<lambda>r.
     if r = - 1 then
       and_then (enc_write_byte 0x43) (\<lambda>_.
       and_then (modify (\<lambda>e. e\<lparr>e_defs := e_defs e @ [def]\<rparr>)) (\<lambda>_.
       and_then (encode_string java_lite (def_type def)) (\<lambda>_.
       and_then (encode_i32 (of_nat (length (field_names def)))) (\<lambda>_.
       and_then (encode_strings java_lite (field_names def)) (\<lambda>_.
       and_then (encode_def_fuel java_lite k def) (\<lambda>_. ret True))))))
     else if sint r \<le> 15 then
       and_then (enc_write_byte (0x60 + sint r)) (\<lambda>_. ret True)
     else
       and_then (enc_write_byte 0x4f) (\<lambda>_.
       and_then (encode_i32 (word_of_int (sint r))) (\<lambda>_. ret True)))"

definition encode_raw_definition :: "bool \<Rightarrow> raw_definition \<Rightarrow> (encoder, bool) comp" where
  "encode_raw_definition java_lite def = encode_def_fuel java_lite 2 def"

definition encode_definition :: "bool \<Rightarrow> raw_definition \<Rightarrow> (encoder, bool) comp" where
  "encode_definition java_lite def = encode_raw_definition java_lite def"

section \<open>Object references\<close>

text \<open>
  A \<open>RefObject\<close> holds the address of its destination. The decoder is called after the code has
  been peeked, and asserts it.
\<close>

definition decode_ref :: "(decoder, addr) comp" where
  "decode_ref = and_then dec_read_u8 (\<lambda>res.
     if \<not> (fst res \<and> snd res = 0x51) then abort
     else and_then decode_i32 (\<lambda>ref.
       and_then (gets d_values) (\<lambda>values_ref.
         if length values_ref \<le> unat ref then nullptr else ret (values_ref ! unat ref))))"

definition encode_ref :: "addr option \<Rightarrow> (encoder, bool) comp" where
  "encode_ref dest = (case dest of None \<Rightarrow> abort | Some d \<Rightarrow>
     and_then (gets (getValueRef d)) (\<lambda>ref.
       if ref = - 1 then abort
       else and_then (enc_write_byte 0x51) (\<lambda>_.
         and_then (encode_i32 (word_of_int (sint ref))) (\<lambda>_. ret True))))"

section \<open>Streaming\<close>

definition encodeVarListBegin :: "bytes \<Rightarrow> (encoder, unit) comp" where
  "encodeVarListBegin type_name = enc_write_byte 0x57"

definition encodeVarListEnd :: "(encoder, unit) comp" where
  "encodeVarListEnd = enc_write_byte 0x5a"

definition encodeFixedListBegin :: "bool \<Rightarrow> bytes \<Rightarrow> u32 \<Rightarrow> (encoder, unit) comp" where
  "encodeFixedListBegin java_lite type_name len =
     and_then (if len \<le> 7 then enc_write_byte (0x70 + uint len) else enc_write_byte 0x56) (\<lambda>_.
     and_then (if type_name \<noteq> [] then encode_type_ref java_lite type_name else ret True) (\<lambda>_.
     if 7 < len then and_then (encode_i32 len) (\<lambda>_. ret ()) else ret ()))"

definition encodeFixedListEnd :: "(encoder, unit) comp" where
  "encodeFixedListEnd = ret ()"

definition encodeMapBegin :: "bool \<Rightarrow> bytes \<Rightarrow> (encoder, unit) comp" where
  "encodeMapBegin java_lite type_name =
     (if type_name = [] then enc_write_byte 0x48
      else and_then (enc_write_byte 0x4d) (\<lambda>_.
        and_then (encode_type_ref java_lite type_name) (\<lambda>_. ret ())))"

definition encodeMapEnd :: "(encoder, unit) comp" where
  "encodeMapEnd = enc_write_byte 0x5a"

definition encodeClassInstanceBegin :: "bool \<Rightarrow> raw_definition \<Rightarrow> (encoder, unit) comp" where
  "encodeClassInstanceBegin java_lite def = and_then (encode_raw_definition java_lite def) (\<lambda>_. ret ())"

definition encodeClassInstanceEnd :: "(encoder, unit) comp" where
  "encodeClassInstanceEnd = ret ()"

section \<open>The tables of the two sides\<close>

text \<open>
  What both sides know at a point of the stream: the type names sent so far, the definitions, the
  objects that can be referred to.
\<close>

record tables =
  t_types :: "bytes list"
  t_defs :: "raw_definition list"
  t_vals :: "addr list"

definition no_tables :: tables where
  "no_tables = \<lparr>t_types = [], t_defs = [], t_vals = []\<rparr>"

definition indexed :: "'k list \<Rightarrow> ('k \<times> u16) list" where
  "indexed ks = zip ks (map of_nat [0..<length ks])"

text \<open>
  The encoder and the decoder hold these tables. The limits are those of the \<open>int16_t\<close> indices.
\<close>

definition enc_has :: "tables \<Rightarrow> encoder \<Rightarrow> bool" where
  "enc_has T e \<longleftrightarrow> e_types e = indexed (t_types T) \<and> e_defs e = t_defs T \<and> e_values e = indexed (t_vals T)"

definition dec_has :: "tables \<Rightarrow> decoder \<Rightarrow> bool" where
  "dec_has T d \<longleftrightarrow> d_types d = t_types T \<and> d_defs d = t_defs T \<and> d_values d = t_vals T
     \<and> d_next d = length (t_vals T)"

definition tables_ok :: "tables \<Rightarrow> bool" where
  "tables_ok T \<longleftrightarrow> distinct (t_types T) \<and> length (t_types T) \<le> 32767
     \<and> distinct (t_defs T) \<and> length (t_defs T) \<le> 32767
     \<and> distinct (t_vals T) \<and> length (t_vals T) \<le> 32767"

definition writes :: "(encoder, bool) comp \<Rightarrow> tables \<Rightarrow> bytes \<Rightarrow> tables \<Rightarrow> bool" where
  "writes m T bs T' \<longleftrightarrow> (\<forall>e. enc_has T e \<longrightarrow>
     (\<exists>e'. m e = (Ret True, e') \<and> e_out e' = e_out e @ bs \<and> enc_has T' e'))"

definition reads :: "(decoder, 'v) comp \<Rightarrow> tables \<Rightarrow> bytes \<Rightarrow> 'v \<Rightarrow> tables \<Rightarrow> bool" where
  "reads m T bs v T' \<longleftrightarrow> (\<forall>d rest. wf_decoder d \<longrightarrow> dec_has T d \<longrightarrow> unread d = bs @ rest \<longrightarrow>
     (\<exists>d'. m d = (Ret v, d') \<and> wf_decoder d' \<and> unread d' = rest \<and> dec_has T' d'))"

lemma enc_has_new [simp]: "enc_has no_tables (new_encoder bs)"
  by (simp add: enc_has_def new_encoder_def no_tables_def indexed_def)

lemma dec_has_new [simp]: "dec_has no_tables (new_decoder bs)"
  by (simp add: dec_has_def no_tables_def)

lemma enc_has_emit [simp]: "enc_has T (emit bs e) \<longleftrightarrow> enc_has T e"
  by (simp add: enc_has_def)

lemma dec_has_advance [simp]: "dec_has T (advance n d) \<longleftrightarrow> dec_has T d"
  by (simp add: dec_has_def)

subsection \<open>Composing writes and reads\<close>

lemma writes_encodes: "encodes m bs \<Longrightarrow> writes m T bs T"
  by (simp add: writes_def encodes_def)

lemma reads_decodes: "decodes m bs v \<Longrightarrow> reads m T bs v T"
  unfolding reads_def decodes_def by fastforce

lemma writes_ret: "writes (ret True) T [] T"
  by (simp add: writes_def)

lemma reads_ret: "reads (ret v) T [] v T"
  by (simp add: reads_def)

lemma writes_and_then:
  "writes m T bs T' \<Longrightarrow> writes (f True) T' cs T'' \<Longrightarrow> writes (and_then m f) T (bs @ cs) T''"
  unfolding writes_def and_then_def by (fastforce split: result.splits prod.splits)

lemma reads_and_then:
  "reads m T bs v T' \<Longrightarrow> reads (f v) T' cs w T'' \<Longrightarrow> reads (and_then m f) T (bs @ cs) w T''"
  unfolding reads_def and_then_def by (fastforce split: result.splits prod.splits)

lemma reads_then_pure:
  "reads m T bs v T' \<Longrightarrow> reads (f v) T' [] w T'' \<Longrightarrow> reads (and_then m f) T bs w T''"
  using reads_and_then [of m T bs v T' f "[]" w T''] by simp

lemma writes_then_True: "writes m T bs T' \<Longrightarrow> writes (and_then m (\<lambda>_. ret True)) T bs T'"
  using writes_and_then [of m T bs T' "\<lambda>_. ret True" "[]" T'] by (simp add: writes_ret)

lemma writes_byte_then:
  "writes (f ()) T bs T' \<Longrightarrow> writes (and_then (enc_write_byte v) f) T (word_of_int v # bs) T'"
proof -
  assume w: "writes (f ()) T bs T'"
  have "\<exists>e'. f () (emit [word_of_int v] e) = (Ret True, e')
      \<and> e_out e' = e_out e @ word_of_int v # bs \<and> enc_has T' e'" if "enc_has T e" for e
    using w that unfolding writes_def
    by (auto dest: spec [of _ "emit [word_of_int v] e"])
  then show ?thesis by (simp add: writes_def)
qed

lemma reads_byte_then:
  "reads (f (True, b)) T bs v T' \<Longrightarrow> reads (and_then dec_read_u8 f) T (b # bs) v T'"
  using reads_and_then [OF reads_decodes [OF decodes_read_u8], of f b T bs v T'] by simp

lemma reads_peek_then:
  "reads (f (True, b)) T (b # bs) v T' \<Longrightarrow> reads (and_then dec_peek_u8 f) T (b # bs) v T'"
  by (auto simp: reads_def and_then_def dec_peek_u8_run)

lemma reads_gets_then:
  "reads (f (t_types T)) T bs v T' \<Longrightarrow> reads (and_then (gets d_types) f) T bs v T'"
  "reads (g (t_defs T)) T bs v T' \<Longrightarrow> reads (and_then (gets d_defs) g) T bs v T'"
  "reads (h (t_vals T)) T bs v T' \<Longrightarrow> reads (and_then (gets d_values) h) T bs v T'"
  by (auto simp: reads_def dec_has_def)

lemma reads_add_type:
  "reads (f ()) (T\<lparr>t_types := t_types T @ [ty]\<rparr>) bs v T' \<Longrightarrow>
    reads (and_then (modify (\<lambda>d. d\<lparr>d_types := d_types d @ [ty]\<rparr>)) f) T bs v T'"
  by (simp add: reads_def dec_has_def wf_decoder_def unread_def)

lemma reads_add_def:
  "reads (f ()) (T\<lparr>t_defs := t_defs T @ [df]\<rparr>) bs v T' \<Longrightarrow>
    reads (and_then (modify (\<lambda>d. d\<lparr>d_defs := d_defs d @ [df]\<rparr>)) f) T bs v T'"
  by (simp add: reads_def dec_has_def wf_decoder_def unread_def)

subsection \<open>Indices\<close>

fun index_of :: "'k \<Rightarrow> 'k list \<Rightarrow> nat option" where
  "index_of k [] = None"
| "index_of k (x # xs) = (if x = k then Some 0 else map_option Suc (index_of k xs))"

lemma index_of_Some: "index_of k ks = Some i \<Longrightarrow> i < length ks \<and> ks ! i = k"
  by (induction ks arbitrary: i) (auto split: if_splits)

lemma index_of_None: "index_of k ks = None \<longleftrightarrow> k \<notin> set ks"
  by (induction ks) auto

lemma index_of_append: "index_of k (ks @ [x]) = (case index_of k ks of Some i \<Rightarrow> Some i
    | None \<Rightarrow> if x = k then Some (length ks) else None)"
  by (induction ks) (auto split: option.splits)

lemma indexed_snoc: "indexed (ks @ [k]) = indexed ks @ [(k, of_nat (length ks))]"
  by (simp add: indexed_def)

lemma map_of_indexed_from:
  "map_of (zip ks (map of_nat [m..<m + length ks])) k = map_option (\<lambda>i. of_nat (m + i)) (index_of k ks)"
proof (induction ks arbitrary: m)
  case (Cons x xs)
  have "[m..<m + length (x # xs)] = m # [Suc m..<Suc m + length xs]"
    by (simp add: upt_conv_Cons del: upt_Suc)
  with Cons [of "Suc m"] show ?case by (cases "index_of k xs") (simp_all add: ac_simps del: upt_Suc)
qed simp

lemma map_of_indexed: "map_of (indexed ks) k = map_option of_nat (index_of k ks)"
  using map_of_indexed_from [of ks 0 k] by (simp add: indexed_def)

lemma length_indexed [simp]: "length (indexed ks) = length ks"
  by (simp add: indexed_def)

lemma emplace_indexed:
  "index_of k ks = None \<Longrightarrow> emplace k (of_nat (length ks)) (indexed ks) = indexed (ks @ [k])"
  by (simp add: emplace_def map_of_indexed indexed_snoc)

lemma sint_of_nat_i16: "i \<le> 32767 \<Longrightarrow> sint (of_nat i :: i16) = int i"
  using sint_of_int_in_range [of "int i", where 'a = 16] by simp

lemma i16_index: "i \<le> 32767 \<Longrightarrow> (of_nat i :: i16) \<noteq> - 1"
proof
  assume "i \<le> 32767" and "(of_nat i :: i16) = - 1"
  then have "sint (of_nat i :: i16) = - 1" by simp
  with sint_of_nat_i16 [OF \<open>i \<le> 32767\<close>] show False by simp
qed

lemma i32_of_index: "i \<le> 32767 \<Longrightarrow> (word_of_int (sint (of_nat i :: i16)) :: i32) = of_nat i"
  by (simp add: sint_of_nat_i16 del: of_int_sint)

lemma unat_i32_index: "i \<le> 32767 \<Longrightarrow> unat (of_nat i :: i32) = i"
  by (simp add: unat_of_nat)

text \<open>The first byte tells a string from an integer.\<close>

lemma text_bytes_first: "text_lengths_ok t \<Longrightarrow> \<exists>b bs. text_bytes t = b # bs \<and> string_code b"
proof (cases t)
  case (Short_Text cs)
  moreover assume "text_lengths_ok t"
  ultimately have "unat (of_nat (length cs) :: u8) = length cs" "length cs < 32"
    using unat_of_nat_u8 [of "length cs"] by simp_all
  then have "string_code (of_nat (length cs))" by (simp add: string_code_def byte_compare)
  then show ?thesis using Short_Text by simp
next
  case (Medium_Text cs)
  moreover assume "text_lengths_ok t"
  ultimately have q: "length cs div 256 < 4" by (simp add: less_mult_imp_div_less)
  then have "unat (of_nat (0x30 + length cs div 256) :: u8) = 0x30 + length cs div 256"
    by (intro unat_of_nat_u8) simp
  then have "string_code (of_nat (0x30 + length cs div 256))"
    using q by (simp add: string_code_def byte_compare del: of_nat_add)
  then show ?thesis using Medium_Text by (simp del: of_nat_add)
qed (simp_all add: string_code_def)

lemma string_repr_first: "\<exists>b bs. string_repr java_lite data = b # bs \<and> string_code b" if "string_ok java_lite data"
  using that by (rule string_repr_text) (metis text_bytes_first text_ok_def)

definition i32_code :: "u8 \<Rightarrow> bool" where
  "i32_code code \<longleftrightarrow> (0x80 \<le> code \<and> code \<le> 0xd7) \<or> code = 0x49"

lemma i32_repr_first: "\<exists>b bs. i32_repr v = b # bs \<and> i32_code b"
proof -
  have code: "i32_code (word_of_int x)" if "0x80 \<le> x" "x \<le> 0xd7" for x
    using that by (simp add: i32_code_def word_le_def uint_byte_of_int del: of_int_add)
  let ?x = "sint v"
  consider "- 0x10 \<le> ?x \<and> ?x \<le> 0x2f"
    | "\<not> (- 0x10 \<le> ?x \<and> ?x \<le> 0x2f)" "- 0x800 \<le> ?x \<and> ?x \<le> 0x7ff"
    | "\<not> (- 0x800 \<le> ?x \<and> ?x \<le> 0x7ff)" "- 0x40000 \<le> ?x \<and> ?x \<le> 0x3ffff"
    | "\<not> (- 0x40000 \<le> ?x \<and> ?x \<le> 0x3ffff)" by blast
  then show ?thesis
  proof cases
    case 1
    then show ?thesis using code [of "?x + 0x90"] by (simp add: i32_repr_def del: of_int_add of_int_sint)
  next
    case 2
    then have "- 8 \<le> ?x div 256" "?x div 256 < 8" by auto
    then show ?thesis using 2 code [of "0xc8 + ?x div 256"]
      by (auto simp: i32_repr_def Let_def simp del: of_int_add of_int_sint)
  next
    case 3
    then have "- 4 \<le> ?x div 65536" "?x div 65536 < 4" by auto
    then show ?thesis using 3 code [of "0xd4 + ?x div 65536"]
      by (auto simp: i32_repr_def Let_def simp del: of_int_add of_int_sint)
  next
    case 4
    then show ?thesis by (auto simp: i32_repr_def Let_def i32_code_def)
  qed
qed

lemma i32_code_not_string: "i32_code b \<Longrightarrow> \<not> string_code b"
  by (auto simp: i32_code_def string_code_def byte_compare)

section \<open>The contract of a codec with tables\<close>

text \<open>
  \<open>enc v\<close> writes \<open>repr T v\<close> when the tables are \<open>T\<close> and leaves \<open>step T v\<close>; \<open>dec\<close> reads it and
  makes the same step. What it returns is \<open>view v\<close>: \<open>v\<close> itself, unless the value has parts whose
  order the decoder does not keep.
\<close>

fun text_seq :: "(tables \<Rightarrow> 'v \<Rightarrow> bytes) \<Rightarrow> (tables \<Rightarrow> 'v \<Rightarrow> tables) \<Rightarrow> tables \<Rightarrow> 'v list \<Rightarrow> bytes" where
  "text_seq repr step T [] = []"
| "text_seq repr step T (v # vs) = repr T v @ text_seq repr step (step T v) vs"

fun ok_seq :: "(tables \<Rightarrow> 'v \<Rightarrow> bool) \<Rightarrow> (tables \<Rightarrow> 'v \<Rightarrow> tables) \<Rightarrow> tables \<Rightarrow> 'v list \<Rightarrow> bool" where
  "ok_seq ok step T [] \<longleftrightarrow> True"
| "ok_seq ok step T (v # vs) \<longleftrightarrow> ok T v \<and> ok_seq ok step (step T v) vs"

locale table_codec =
  fixes enc :: "'v \<Rightarrow> (encoder, bool) comp"
    and dec :: "(decoder, 'v) comp"
    and repr :: "tables \<Rightarrow> 'v \<Rightarrow> bytes"
    and step :: "tables \<Rightarrow> 'v \<Rightarrow> tables"
    and ok :: "tables \<Rightarrow> 'v \<Rightarrow> bool"
    and view :: "'v \<Rightarrow> 'v"
  assumes enc_writes: "ok T v \<Longrightarrow> writes (enc v) T (repr T v) (step T v)"
    and dec_reads: "ok T v \<Longrightarrow> reads dec T (repr T v) (view v) (step T v)"
begin

lemma encode_seq_writes:
  "ok_seq ok step T vs \<Longrightarrow> writes (encode_seq enc vs) T (text_seq repr step T vs) (foldl step T vs)"
proof (induction vs arbitrary: T)
  case (Cons v vs)
  then show ?case using writes_and_then [OF enc_writes [of T v]] by simp
qed (simp add: writes_ret)

lemma decode_seq_reads:
  "ok_seq ok step T vs \<Longrightarrow>
    reads (decode_seq dec (length vs)) T (text_seq repr step T vs) (map view vs) (foldl step T vs)"
proof (induction vs arbitrary: T)
  case (Cons v vs)
  have "reads (and_then (decode_seq dec (length vs)) (\<lambda>vs. ret (view v # vs))) (step T v)
      (text_seq repr step (step T v) vs @ []) (map view (v # vs)) (foldl step (step T v) vs)"
    using Cons.prems by (intro reads_and_then [OF Cons.IH] reads_ret) (simp_all add: reads_ret)
  then show ?case using Cons.prems reads_and_then [OF dec_reads [of T v]] by simp
qed (simp add: reads_ret)

text \<open>What one encoder writes into a fresh string, one decoder reads back.\<close>

lemma encoded_seq:
  assumes "ok_seq ok step no_tables vs"
  shows "encoded (encode_seq enc vs) = text_seq repr step no_tables vs"
proof -
  obtain e' where "encode_seq enc vs (new_encoder []) = (Ret True, e')"
      "e_out e' = e_out (new_encoder []) @ text_seq repr step no_tables vs"
    using encode_seq_writes [OF assms] enc_has_new unfolding writes_def by blast
  then show ?thesis by (simp add: encoded_def new_encoder_def)
qed

lemma stream_round_trip:
  assumes "ok_seq ok step no_tables vs" and "length (encoded (encode_seq enc vs)) < 2 ^ 63"
  shows "decoded (decode_seq dec (length vs)) (encoded (encode_seq enc vs)) = Ret (map view vs)"
proof -
  obtain d' where "decode_seq dec (length vs) (new_decoder (encoded (encode_seq enc vs))) = (Ret (map view vs), d')"
    using decode_seq_reads [OF assms(1)] assms(2) encoded_seq [OF assms(1)] dec_has_new wf_new_decoder
      unread_new_decoder
    unfolding reads_def by (metis append_Nil2)
  then show ?thesis by (simp add: decoded_def)
qed

end

subsection \<open>Type references\<close>

definition type_text :: "bool \<Rightarrow> tables \<Rightarrow> bytes \<Rightarrow> bytes" where
  "type_text java_lite T ty = (case index_of ty (t_types T) of
     Some i \<Rightarrow> i32_repr (of_nat i) | None \<Rightarrow> string_repr java_lite ty)"

definition add_type :: "tables \<Rightarrow> bytes \<Rightarrow> tables" where
  "add_type T ty = (if ty \<in> set (t_types T) then T else T\<lparr>t_types := t_types T @ [ty]\<rparr>)"

definition type_ok :: "bool \<Rightarrow> tables \<Rightarrow> bytes \<Rightarrow> bool" where
  "type_ok java_lite T ty \<longleftrightarrow> string_ok java_lite ty \<and> length (t_types T) \<le> 32767"

lemma encode_type_ref_writes:
  assumes "type_ok java_lite T ty"
  shows "writes (encode_type_ref java_lite ty) T (type_text java_lite T ty) (add_type T ty)"
proof (cases "index_of ty (t_types T)")
  case None
  have "\<exists>e'. encode_type_ref java_lite ty e = (Ret True, e')
      \<and> e_out e' = e_out e @ string_repr java_lite ty \<and> enc_has (T\<lparr>t_types := t_types T @ [ty]\<rparr>) e'"
    if e: "enc_has T e" for e
  proof -
    let ?e = "e\<lparr>e_types := indexed (t_types T @ [ty])\<rparr>"
    have "encode_string java_lite ty ?e = (Ret True, emit (string_repr java_lite ty) ?e)"
      using assms by (intro encodesD [OF encode_string_encodes]) (simp add: type_ok_def)
    then have "encode_type_ref java_lite ty e = (Ret True, emit (string_repr java_lite ty) ?e)"
      using e None emplace_indexed [OF None]
      by (simp add: encode_type_ref_def getTypeRef_def enc_has_def map_of_indexed and_then_def [of "encode_string java_lite ty"])
    then show ?thesis using e by (auto simp: enc_has_def)
  qed
  moreover have "ty \<notin> set (t_types T)" using None by (simp add: index_of_None)
  ultimately show ?thesis using None by (simp add: writes_def type_text_def add_type_def)
next
  case (Some i)
  then have i: "i \<le> 32767" "ty \<in> set (t_types T)"
    using assms index_of_Some [OF Some] by (auto simp: type_ok_def)
  have "encode_type_ref java_lite ty e = (Ret True, emit (i32_repr (of_nat i)) e)" if "enc_has T e" for e
    using that i Some i16_index [OF i(1)] i32_of_index [OF i(1)] encodesD [OF encode_i32_encodes]
    by (simp add: encode_type_ref_def getTypeRef_def enc_has_def map_of_indexed and_then_def [of "encode_i32 _"]
        del: of_int_sint)
  then show ?thesis using Some i(2) by (simp add: writes_def type_text_def add_type_def)
qed

lemma decode_type_ref_reads:
  assumes "type_ok java_lite T ty"
  shows "reads (decode_type_ref java_lite) T (type_text java_lite T ty) ty (add_type T ty)"
proof (cases "index_of ty (t_types T)")
  case None
  obtain b bs where b: "string_repr java_lite ty = b # bs" "string_code b" using string_repr_first [of java_lite ty] assms unfolding type_ok_def by blast
  have "reads (and_then (decode_string java_lite) (\<lambda>type_str.
       and_then (modify (\<lambda>d. d\<lparr>d_types := d_types d @ [type_str]\<rparr>)) (\<lambda>_. ret type_str)))
     T (string_repr java_lite ty @ []) ty (T\<lparr>t_types := t_types T @ [ty]\<rparr>)"
    using assms by (intro reads_and_then [OF reads_decodes [OF decode_string_ok_decodes]] reads_add_type reads_ret)
      (simp add: type_ok_def)
  moreover have "ty \<notin> set (t_types T)" using None by (simp add: index_of_None)
  ultimately show ?thesis using None b
    by (auto simp: decode_type_ref_def type_text_def add_type_def intro!: reads_peek_then)
next
  case (Some i)
  then have i: "i \<le> 32767" "ty \<in> set (t_types T)" "i < length (t_types T)" "t_types T ! i = ty"
    using assms index_of_Some [OF Some] by (auto simp: type_ok_def)
  obtain b bs where b: "i32_repr (of_nat i) = b # bs" "i32_code b" using i32_repr_first by blast
  have "reads (and_then decode_i32 (\<lambda>ret_int.
       and_then (gets d_types) (\<lambda>types_ref.
         if length types_ref \<le> unat ret_int then nullptr else ret (types_ref ! unat ret_int))))
     T (i32_repr (of_nat i) @ []) ty T"
    using i by (intro reads_and_then [OF reads_decodes [OF decode_i32_decodes]] reads_gets_then)
      (simp add: unat_i32_index reads_ret)
  then show ?thesis using Some b i(2) i32_code_not_string [OF b(2)]
    by (auto simp: decode_type_ref_def type_text_def add_type_def intro!: reads_peek_then)
qed

interpretation type_codec: table_codec "encode_type_ref java_lite" "decode_type_ref java_lite"
    "type_text java_lite" add_type "type_ok java_lite" "\<lambda>ty. ty" for java_lite
  by unfold_locales (simp_all add: encode_type_ref_writes decode_type_ref_reads)

subsection \<open>Class definitions\<close>

definition def_ref_text :: "nat \<Rightarrow> bytes" where
  "def_ref_text i = (if i \<le> 15 then [of_nat (0x60 + i)] else 0x4f # i32_repr (of_nat i))"

definition def_text :: "bool \<Rightarrow> tables \<Rightarrow> raw_definition \<Rightarrow> bytes" where
  "def_text java_lite T df = (case index_of df (t_defs T) of
     Some i \<Rightarrow> def_ref_text i
   | None \<Rightarrow> 0x43 # string_repr java_lite (def_type df) @ i32_repr (of_nat (length (field_names df)))
       @ concat (map (string_repr java_lite) (field_names df)) @ def_ref_text (length (t_defs T)))"

definition add_def :: "tables \<Rightarrow> raw_definition \<Rightarrow> tables" where
  "add_def T df = (if df \<in> set (t_defs T) then T else T\<lparr>t_defs := t_defs T @ [df]\<rparr>)"

definition def_ok :: "bool \<Rightarrow> tables \<Rightarrow> raw_definition \<Rightarrow> bool" where
  "def_ok java_lite T df \<longleftrightarrow> string_ok java_lite (def_type df)
     \<and> (\<forall>f \<in> set (field_names df). string_ok java_lite f)
     \<and> length (field_names df) < 2 ^ 31 \<and> length (t_defs T) \<le> 32767"

lemma def_index_eq: "def_index ds x = index_of x ds"
  by (induction ds) auto

lemma getDefRef_run:
  "length (e_defs e) \<le> 65535 \<Longrightarrow> getDefRef x e = (Ret (case index_of x (e_defs e) of
     Some i \<Rightarrow> of_nat i | None \<Rightarrow> - 1), e)"
  by (simp add: getDefRef_def def_index_eq split: option.splits)

lemma encode_strings_encodes:
  "\<forall>s \<in> set ss. string_ok java_lite s \<Longrightarrow>
    encodes (encode_strings java_lite ss) (concat (map (string_repr java_lite) ss))"
proof (induction ss)
  case (Cons s ss)
  then show ?case by (auto simp: encodes_def and_then_def encodesD [OF encode_string_encodes])
qed (simp add: encodes_def)

lemma encode_def_known:
  assumes "index_of df (e_defs e) = Some i" and "i \<le> 32767" and "length (e_defs e) \<le> 65535"
  shows "encode_def_fuel java_lite (Suc k) df e = (Ret True, emit (def_ref_text i) e)"
proof -
  have s: "sint (of_nat i :: i16) = int i" by (rule sint_of_nat_i16 [OF assms(2)])
  have "getDefRef df e = (Ret (of_nat i), e)"
    using getDefRef_run [OF assms(3), of df] assms(1) by simp
  then show ?thesis
    using i16_index [OF assms(2)] encodesD [OF encode_i32_encodes]
    by (simp add: and_then_def [of "getDefRef df"] and_then_def [of "encode_i32 _"] s def_ref_text_def
        i32_of_index [OF assms(2)] del: of_int_sint)
qed

lemma encode_raw_definition_writes:
  assumes "def_ok java_lite T df"
  shows "writes (encode_raw_definition java_lite df) T (def_text java_lite T df) (add_def T df)"
proof -
  have len: "length (t_defs T) \<le> 32767" using assms by (simp add: def_ok_def)
  have "\<exists>e'. encode_raw_definition java_lite df e = (Ret True, e')
      \<and> e_out e' = e_out e @ def_text java_lite T df \<and> enc_has (add_def T df) e'" if e: "enc_has T e" for e
  proof (cases "index_of df (t_defs T)")
    case (Some i)
    then have "i \<le> 32767" "df \<in> set (t_defs T)" using index_of_Some [OF Some] len by auto
    moreover from this have "encode_raw_definition java_lite df e = (Ret True, emit (def_ref_text i) e)"
      using encode_def_known [of df e i java_lite 1] e Some len
      by (simp add: encode_raw_definition_def enc_has_def numeral_2_eq_2 del: encode_def_fuel.simps)
    ultimately show ?thesis using e Some by (simp add: def_text_def add_def_def)
  next
    case None
    let ?n = "length (t_defs T)"
    let ?w = "string_repr java_lite (def_type df) @ i32_repr (of_nat (length (field_names df)))
        @ concat (map (string_repr java_lite) (field_names df))"
    let ?e = "emit (0x43 # ?w) (e\<lparr>e_defs := t_defs T @ [df]\<rparr>)"
    have df: "df \<notin> set (t_defs T)" using None by (simp add: index_of_None)
    have new: "getDefRef df e = (Ret (- 1), e)"
      using getDefRef_run [of e df] e None len by (simp add: enc_has_def)
    have "encode_def_fuel java_lite (Suc 0) df ?e = (Ret True, emit (def_ref_text ?n) ?e)"
      using encode_def_known [of df ?e ?n java_lite 0] None len
      by (simp add: index_of_append del: encode_def_fuel.simps)
    then have "encode_raw_definition java_lite df e = (Ret True, emit (def_ref_text ?n) ?e)"
      using assms e encodesD [OF encode_string_encodes, of java_lite "def_type df"]
        encodesD [OF encode_i32_encodes] encodesD [OF encode_strings_encodes, of "field_names df" java_lite]
      by (simp add: encode_raw_definition_def numeral_2_eq_2 encode_def_fuel.simps(2) [of java_lite "Suc 0"]
          and_then_def new def_ok_def enc_has_def emit_def del: encode_def_fuel.simps)
    then show ?thesis using e None df by (auto simp: def_text_def add_def_def enc_has_def)
  qed
  then show ?thesis by (simp add: writes_def)
qed

lemma decode_field_names_decodes:
  "\<forall>f \<in> set fs. string_ok java_lite f \<Longrightarrow>
    decodes (decode_field_names java_lite (length fs) names) (concat (map (string_repr java_lite) fs)) (names @ fs)"
proof (induction fs arbitrary: names)
  case (Cons f fs)
  then show ?case
    using decodes_and_then [OF decode_string_ok_decodes [of java_lite f], of
        "\<lambda>name. decode_field_names java_lite (length fs) (names @ [name])"] Cons.IH [of "names @ [f]"]
    by simp
qed (simp add: decodes_ret)

lemma decode_definition_known:
  assumes "index_of df (t_defs T) = Some i" and "i \<le> 32767"
  shows "reads (decode_definition java_lite) T (def_ref_text i) df T"
proof (cases "i \<le> 15")
  case True
  have i: "i < length (t_defs T)" "t_defs T ! i = df" using index_of_Some [OF assms(1)] by simp_all
  obtain c :: u8 where c: "c = of_nat (0x60 + i)" "unat c = 0x60 + i"
    using True unat_of_nat_u8 [of "0x60 + i"] by simp
  have "reads (decode_definition java_lite) T [c] df T"
    unfolding decode_definition_def
    using True c(2) i by (auto simp: Let_def byte_compare reads_ret intro!: reads_byte_then reads_gets_then)
  then show ?thesis using True c(1) by (simp add: def_ref_text_def)
next
  case False
  have i: "i < length (t_defs T)" "t_defs T ! i = df" using index_of_Some [OF assms(1)] by simp_all
  have "reads (and_then decode_i32 (\<lambda>ref_number.
       and_then (gets d_defs) (\<lambda>def_ref.
         if length def_ref \<le> unat ref_number then nullptr else ret (def_ref ! unat ref_number))))
      T (i32_repr (of_nat i) @ []) df T"
    using i by (intro reads_and_then [OF reads_decodes [OF decode_i32_decodes]] reads_gets_then)
      (simp add: unat_i32_index [OF assms(2)] reads_ret)
  then show ?thesis using False unfolding decode_definition_def
    by (auto simp: def_ref_text_def Let_def intro!: reads_byte_then)
qed

lemma decode_definition_new:
  assumes "def_ok java_lite T df"
  shows "reads (decode_definition java_lite) T
    (0x43 # string_repr java_lite (def_type df) @ i32_repr (of_nat (length (field_names df)))
       @ concat (map (string_repr java_lite) (field_names df))) df (T\<lparr>t_defs := t_defs T @ [df]\<rparr>)"
proof -
  let ?n = "of_nat (length (field_names df)) :: i32"
  have n: "sint ?n = int (length (field_names df))"
    using sint_of_int_in_range [of "int (length (field_names df))", where 'a = 32] assms
    by (simp add: def_ok_def)
  have df: "\<lparr>def_type = def_type df, field_names = field_names df\<rparr> = df" by simp
  have "reads (and_then (decode_string java_lite) (\<lambda>type_name.
       and_then decode_i32 (\<lambda>field_len.
         if sint field_len < 0 then abort
         else and_then (decode_field_names java_lite (nat (sint field_len)) []) (\<lambda>names.
           let def = \<lparr>def_type = type_name, field_names = names\<rparr>
           in and_then (modify (\<lambda>d. d\<lparr>d_defs := d_defs d @ [def]\<rparr>)) (\<lambda>_. ret def)))))
     T (string_repr java_lite (def_type df) @ i32_repr ?n @ concat (map (string_repr java_lite) (field_names df)) @ [])
     df (T\<lparr>t_defs := t_defs T @ [df]\<rparr>)"
  proof (intro reads_and_then [OF reads_decodes [OF decode_string_ok_decodes]]
      reads_and_then [OF reads_decodes [OF decode_i32_decodes]])
    show "string_ok java_lite (def_type df)" using assms by (simp add: def_ok_def)
    have "decodes (decode_field_names java_lite (length (field_names df)) [])
        (concat (map (string_repr java_lite) (field_names df))) (field_names df)"
      using decode_field_names_decodes [of "field_names df" java_lite "[]"] assms by (simp add: def_ok_def)
    note fields = reads_decodes [OF this]
    show "reads (if sint ?n < 0 then abort
         else and_then (decode_field_names java_lite (nat (sint ?n)) []) (\<lambda>names.
           let def = \<lparr>def_type = def_type df, field_names = names\<rparr>
           in and_then (modify (\<lambda>d. d\<lparr>d_defs := d_defs d @ [def]\<rparr>)) (\<lambda>_. ret def)))
       T (concat (map (string_repr java_lite) (field_names df)) @ []) df (T\<lparr>t_defs := t_defs T @ [df]\<rparr>)"
      by (auto simp: n Let_def df reads_ret simp del: of_int_sint
          intro!: reads_then_pure [OF fields] reads_add_def)
  qed
  then show ?thesis unfolding decode_definition_def
    by (auto intro!: reads_byte_then)
qed

lemma find_definition_reads:
  assumes "def_ok java_lite T df"
  shows "reads (find_definition java_lite) T (def_text java_lite T df) df (add_def T df)"
proof -
  have len: "length (t_defs T) \<le> 32767" using assms by (simp add: def_ok_def)
  show ?thesis
  proof (cases "index_of df (t_defs T)")
    case (Some i)
    then have i: "i \<le> 32767" "df \<in> set (t_defs T)" using index_of_Some [OF Some] len by auto
    have "i \<le> 15 \<Longrightarrow> (of_nat (0x60 + i) :: u8) \<noteq> 0x43"
      using unat_of_nat_u8 [of "0x60 + i"] by (simp add: byte_compare del: of_nat_add)
    then obtain b bs where b: "def_ref_text i = b # bs" "b \<noteq> 0x43"
      by (cases "i \<le> 15") (simp_all add: def_ref_text_def)
    have "reads (find_definition java_lite) T (b # bs) df T"
      unfolding find_definition_def
      using decode_definition_known [OF Some i(1), of java_lite] b by (auto intro!: reads_peek_then)
    then show ?thesis using Some i b by (simp add: def_text_def add_def_def)
  next
    case None
    then have df: "df \<notin> set (t_defs T)" by (simp add: index_of_None)
    let ?T = "T\<lparr>t_defs := t_defs T @ [df]\<rparr>"
    have "index_of df (t_defs ?T) = Some (length (t_defs T))" using None by (simp add: index_of_append)
    from decode_definition_known [OF this len, of java_lite]
      reads_and_then [OF decode_definition_new [OF assms], of "\<lambda>_. ret ()" "[]" "()" ?T] 
    have "reads (and_then (and_then (decode_definition java_lite) (\<lambda>_. ret ())) (\<lambda>_. decode_definition java_lite))
        T ((0x43 # string_repr java_lite (def_type df) @ i32_repr (of_nat (length (field_names df)))
       @ concat (map (string_repr java_lite) (field_names df))) @ def_ref_text (length (t_defs T))) df ?T"
      by (intro reads_and_then) (simp_all add: reads_ret)
    then show ?thesis using None df
      unfolding find_definition_def by (auto simp: def_text_def add_def_def intro!: reads_peek_then)
  qed
qed

interpretation def_codec: table_codec "encode_raw_definition java_lite" "find_definition java_lite"
    "def_text java_lite" add_def "def_ok java_lite" "\<lambda>df. df" for java_lite
  by unfold_locales (simp_all add: encode_raw_definition_writes find_definition_reads)

subsection \<open>Object references\<close>

lemma decode_ref_reads:
  assumes "i < length (t_vals T)" and "i \<le> 32767"
  shows "reads decode_ref T (0x51 # i32_repr (of_nat i)) (t_vals T ! i) T"
proof -
  have "reads (and_then decode_i32 (\<lambda>ref.
       and_then (gets d_values) (\<lambda>values_ref.
         if length values_ref \<le> unat ref then nullptr else ret (values_ref ! unat ref))))
     T (i32_repr (of_nat i)) (t_vals T ! i) T"
    using assms by (intro reads_then_pure [OF reads_decodes [OF decode_i32_decodes]] reads_gets_then)
      (simp add: unat_i32_index reads_ret)
  then show ?thesis unfolding decode_ref_def by (auto intro!: reads_byte_then)
qed

lemma encode_ref_writes:
  assumes "index_of a (t_vals T) = Some i" and "i \<le> 32767"
  shows "writes (encode_ref (Some a)) T (0x51 # i32_repr (of_nat i)) T"
proof -
  have "encode_ref (Some a) e = (Ret True, emit (0x51 # i32_repr (of_nat i)) e)" if "enc_has T e" for e
    using that assms(1) i16_index [OF assms(2)] i32_of_index [OF assms(2)] encodesD [OF encode_i32_encodes]
    by (simp add: encode_ref_def getValueRef_def enc_has_def map_of_indexed and_then_def [of "encode_i32 _"]
        del: of_int_sint)
  then show ?thesis by (simp add: writes_def)
qed

section \<open>Safety\<close>

lemma safe_decode_type_ref [safe_intros]: "safe (decode_type_ref java_lite)"
  unfolding decode_type_ref_def
  by (intro safe_intros safe_decode_i32) simp_all

text \<open>A definition can abort, and a reference whose code was not peeked; both always return.\<close>

lemma well_run_decode_field_names: "well_run ab n (decode_field_names java_lite k names)"
  by (induction k arbitrary: names)
    (simp_all add: well_run_safe safe_basic well_run_and_then safe_decode_string)

lemma well_run_decode_definition: "well_run True n (decode_definition java_lite)"
  unfolding decode_definition_def Let_def
  by (intro well_run_intros well_run_decode_field_names well_run_safe safe_decode_i32 safe_intros) simp_all

lemma well_run_find_definition: "well_run True n (find_definition java_lite)"
  unfolding find_definition_def
  by (intro well_run_intros well_run_decode_definition well_run_safe safe_intros)

lemma well_run_decode_ref: "well_run True n decode_ref"
  unfolding decode_ref_def
  by (intro well_run_intros well_run_safe safe_decode_i32 safe_intros)

section \<open>Properties\<close>

lemma type_ok_seq:
  "\<forall>ty \<in> set tys. string_ok java_lite ty \<Longrightarrow> length (t_types T) + length tys \<le> 32768 \<Longrightarrow>
    ok_seq (type_ok java_lite) add_type T tys"
  by (induction tys arbitrary: T) (auto simp: type_ok_def add_type_def)

lemma def_ok_seq:
  "\<forall>df \<in> set dfs. string_ok java_lite (def_type df) \<and> (\<forall>f \<in> set (field_names df). string_ok java_lite f)
      \<and> length (field_names df) < 2 ^ 31 \<Longrightarrow> length (t_defs T) + length dfs \<le> 32768 \<Longrightarrow>
    ok_seq (def_ok java_lite) add_def T dfs"
  by (induction dfs arbitrary: T) (auto simp: def_ok_def add_def_def)


lemma string_repr_letter: "string_repr java_lite [0x61] = [1, 0x61]" "string_ok java_lite [0x61]"
  using plain_string [of "[0x61]" "[[0x61]]"]
  by (simp_all add: char_length_def UTF_8_CHAR_LENGTHS_def split_text.simps Let_def)

lemma encoded_types_example: "encoded (encode_seq (encode_type_ref False) [[0x61], [0x61]]) = [1, 0x61, 0x90]"
proof -
  have ok: "ok_seq (type_ok False) add_type no_tables [[0x61], [0x61]]"
    by (rule type_ok_seq) (simp_all add: string_repr_letter no_tables_def)
  show ?thesis
    by (simp add: type_codec.encoded_seq [OF ok] type_text_def add_type_def no_tables_def string_repr_letter
        i32_repr_def del: encode_seq.simps)
qed



definition example_def :: raw_definition where
  "example_def = \<lparr>def_type = [0x61], field_names = [[0x61]]\<rparr>"

lemma example_def_simps: "def_type example_def = [0x61]" "field_names example_def = [[0x61]]"
  by (simp_all add: example_def_def)

lemma encoded_definitions_example:
  "encoded (encode_seq (encode_raw_definition False) [example_def, example_def])
    = [0x43, 1, 0x61, 0x91, 1, 0x61, 0x60, 0x60]"
proof -
  have ok: "ok_seq (def_ok False) add_def no_tables [example_def, example_def]"
    by (rule def_ok_seq) (simp_all add: example_def_simps string_repr_letter no_tables_def)
  show ?thesis
    by (simp add: def_codec.encoded_seq [OF ok] def_text_def add_def_def no_tables_def example_def_simps
        string_repr_letter i32_repr_def def_ref_text_def del: encode_seq.simps)
qed


text \<open>
  A class definition with a negative number of fields makes the decoder throw (the number is
  passed to \<open>reserve\<close>), where other malformed input gives a null pointer.
\<close>

theorem decode_definition_negative_count_aborts:
  assumes "string_ok java_lite name" and "sint n < 0"
    and "length (0x43 # string_repr java_lite name @ i32_repr n @ rest) < 2 ^ 63"
  shows "fst (decode_definition java_lite (new_decoder (0x43 # string_repr java_lite name @ i32_repr n @ rest))) = Abort"
proof -
  let ?d = "new_decoder (0x43 # string_repr java_lite name @ i32_repr n @ rest)"
  let ?d1 = "advance 1 ?d" and ?d2 = "advance (length (string_repr java_lite name)) (advance 1 ?d)"
  have d: "wf_decoder ?d" using assms(3) by (intro wf_new_decoder)
  have d1: "wf_decoder ?d1" "unread ?d1 = string_repr java_lite name @ i32_repr n @ rest" using d by simp_all
  have d2: "wf_decoder ?d2" "unread ?d2 = i32_repr n @ rest" using d by simp_all
  have "dec_read_u8 ?d = (Ret (True, 0x43), ?d1)" using dec_read_u8_run [OF d] by simp
  moreover have "decode_string java_lite ?d1 = (Ret name, ?d2)"
    by (rule decodesD [OF decode_string_ok_decodes [OF assms(1)] d1])
  moreover have "decode_i32 ?d2 = (Ret n, advance (length (i32_repr n)) ?d2)"
    by (rule decodesD [OF decode_i32_decodes d2])
  ultimately show ?thesis using assms(2) by (simp add: decode_definition_def and_then_def Let_def)
qed

theorem decode_definition_negative_count_aborts_witness:
  "fst (decode_definition False (new_decoder [0x43, 1, 0x61, 0x8f])) = Abort"
  using decode_definition_negative_count_aborts [of False "[0x61]" "- 1" "[]"]
  by (simp add: string_repr_letter i32_repr_def)

end
