(* ===== verification/Object_Model.thy ===== *)
theory Object_Model
  imports Ref_Codec Double_Codec Date_Codec "HOL-Library.Multiset"
begin

text \<open>
  The object tree (src/hessian2/object.hpp): one constructor per subclass of \<open>Object\<close>, its type
  tag, accessors, equality, hash values and debug strings, class by class in the order of the
  file, and the hash mixing of src/common/common.h. A container carries its address, which is
  what a \<open>RefObject\<close> points to. A map is the list of its entries in the order in which the hash
  table (of the abseil library) is iterated. The hash functions and the formatter of the
  libraries are parameters.
\<close>

unbundle bit_operations_syntax

section \<open>Objects\<close>

datatype obj =
    Null_Obj
  | Ref_Obj addr
  | Boolean_Obj bool
  | Integer_Obj i32
  | Double_Obj f64
  | Date_Obj i64
  | Long_Obj i64
  | Binary_Obj bytes
  | String_Obj bytes
  | Untyped_List addr "obj list"
  | Typed_List addr bytes "obj list"
  | Typed_Map addr bytes "(obj \<times> obj) list"
  | Untyped_Map addr "(obj \<times> obj) list"
  | Class_Instance addr raw_definition "obj list"

text \<open>\<open>Object::Type\<close>, in the order of its declaration.\<close>

datatype obj_type =
    T_Binary | T_Boolean | T_Date | T_Double | T_Integer | T_Long | T_Null | T_Ref | T_String
  | T_TypedList | T_UntypedList | T_TypedMap | T_UntypedMap | T_Class

fun obj_type_of :: "obj \<Rightarrow> obj_type" where
  "obj_type_of Null_Obj = T_Null"
| "obj_type_of (Ref_Obj d) = T_Ref"
| "obj_type_of (Boolean_Obj b) = T_Boolean"
| "obj_type_of (Integer_Obj i) = T_Integer"
| "obj_type_of (Double_Obj x) = T_Double"
| "obj_type_of (Date_Obj t) = T_Date"
| "obj_type_of (Long_Obj l) = T_Long"
| "obj_type_of (Binary_Obj bs) = T_Binary"
| "obj_type_of (String_Obj s) = T_String"
| "obj_type_of (Untyped_List a vs) = T_UntypedList"
| "obj_type_of (Typed_List a ty vs) = T_TypedList"
| "obj_type_of (Typed_Map a ty kvs) = T_TypedMap"
| "obj_type_of (Untyped_Map a kvs) = T_UntypedMap"
| "obj_type_of (Class_Instance a df vs) = T_Class"

text \<open>\<open>toX\<close>: the data of an object of class \<open>X\<close>, \<open>nullopt\<close> for the others.\<close>

definition toBoolean :: "obj \<Rightarrow> bool option" where
  "toBoolean p = (case p of Boolean_Obj b \<Rightarrow> Some b | _ \<Rightarrow> None)"

definition toInteger :: "obj \<Rightarrow> i32 option" where
  "toInteger p = (case p of Integer_Obj i \<Rightarrow> Some i | _ \<Rightarrow> None)"

definition toLong :: "obj \<Rightarrow> i64 option" where
  "toLong p = (case p of Long_Obj l \<Rightarrow> Some l | _ \<Rightarrow> None)"

definition toDouble :: "obj \<Rightarrow> f64 option" where
  "toDouble p = (case p of Double_Obj x \<Rightarrow> Some x | _ \<Rightarrow> None)"

definition toDate :: "obj \<Rightarrow> i64 option" where
  "toDate p = (case p of Date_Obj t \<Rightarrow> Some t | _ \<Rightarrow> None)"

definition toBinary :: "obj \<Rightarrow> bytes option" where
  "toBinary p = (case p of Binary_Obj bs \<Rightarrow> Some bs | _ \<Rightarrow> None)"

definition toString :: "obj \<Rightarrow> bytes option" where
  "toString p = (case p of String_Obj s \<Rightarrow> Some s | _ \<Rightarrow> None)"

definition toTypedList :: "obj \<Rightarrow> (bytes \<times> obj list) option" where
  "toTypedList p = (case p of Typed_List a ty vs \<Rightarrow> Some (ty, vs) | _ \<Rightarrow> None)"

definition toUntypedList :: "obj \<Rightarrow> obj list option" where
  "toUntypedList p = (case p of Untyped_List a vs \<Rightarrow> Some vs | _ \<Rightarrow> None)"

definition toTypedMap :: "obj \<Rightarrow> (bytes \<times> (obj \<times> obj) list) option" where
  "toTypedMap p = (case p of Typed_Map a ty kvs \<Rightarrow> Some (ty, kvs) | _ \<Rightarrow> None)"

definition toUntypedMap :: "obj \<Rightarrow> (obj \<times> obj) list option" where
  "toUntypedMap p = (case p of Untyped_Map a kvs \<Rightarrow> Some kvs | _ \<Rightarrow> None)"

definition toClassInstance :: "obj \<Rightarrow> (raw_definition \<times> obj list) option" where
  "toClassInstance p = (case p of Class_Instance a df vs \<Rightarrow> Some (df, vs) | _ \<Rightarrow> None)"

definition toRefDest :: "obj \<Rightarrow> addr option" where
  "toRefDest p = (case p of Ref_Obj d \<Rightarrow> Some d | _ \<Rightarrow> None)"

lemmas accessor_defs = toBoolean_def toInteger_def toLong_def toDouble_def toDate_def toBinary_def
  toString_def toTypedList_def toUntypedList_def toTypedMap_def toUntypedMap_def toClassInstance_def
  toRefDest_def

section \<open>Hash values\<close>

text \<open>The hash functions of the standard library and of abseil.\<close>

record hashers =
  std_string :: "bytes \<Rightarrow> u64"
  absl_string :: "bytes \<Rightarrow> u64"
  std_bool :: "bool \<Rightarrow> u64"
  std_i32 :: "i32 \<Rightarrow> u64"
  std_i64 :: "i64 \<Rightarrow> u64"
  std_f64 :: "f64 \<Rightarrow> u64"
  std_size :: "u64 \<Rightarrow> u64"
  std_u8 :: "u8 \<Rightarrow> u64"

text \<open>\<open>Utils::hashCombine(seed, v)\<close> with the hash of \<open>v\<close>, and \<open>Utils::rawHashCombine\<close>.\<close>

definition raw_hash_combine :: "u64 \<Rightarrow> u64 \<Rightarrow> u64" where
  "raw_hash_combine seed v = seed XOR (v + 0x9e3779b9 + push_bit 6 seed + drop_bit 2 seed)"

definition hash_combine :: "('t \<Rightarrow> u64) \<Rightarrow> u64 \<Rightarrow> 't \<Rightarrow> u64" where
  "hash_combine hasher seed v = seed XOR (hasher v + 0x9e3779b9 + push_bit 6 seed + drop_bit 2 seed)"

definition ascii :: "string \<Rightarrow> bytes" where
  "ascii s = map (\<lambda>c. of_nat (of_char c)) s"

definition UntypedMapMagicString :: bytes where
  "UntypedMapMagicString = ascii ''untypedmap''"

definition UntypedListMagicString :: bytes where
  "UntypedListMagicString = ascii ''untypedlist''"

definition NullMagicString :: bytes where
  "NullMagicString = ascii ''null''"

definition definition_hash :: "hashers \<Rightarrow> raw_definition \<Rightarrow> u64" where
  "definition_hash H df =
     hash_combine (std_size H) (std_string H (def_type df)) (of_nat (length (field_names df)))"

definition class_instance_hash :: "hashers \<Rightarrow> raw_definition \<Rightarrow> obj list \<Rightarrow> u64" where
  "class_instance_hash H df vs = hash_combine (std_size H) (definition_hash H df) (of_nat (length vs))"

definition null_hash :: "hashers \<Rightarrow> u64" where
  "null_hash H = std_string H NullMagicString"

definition date_hash :: "hashers \<Rightarrow> i64 \<Rightarrow> u64" where
  "date_hash H t = std_size H t"

text \<open>
  \<open>BinaryObject::hash\<close> keeps its result in a variable that is \<open>static\<close>, one for all binary
  objects: the first component is the result, the second one the variable afterwards.
\<close>

definition binary_hash :: "hashers \<Rightarrow> u64 \<Rightarrow> bytes \<Rightarrow> u64 \<times> u64" where
  "binary_hash H static_hash data =
     (if static_hash \<noteq> 0 then (static_hash, static_hash)
      else let h = foldl (hash_combine (std_u8 H)) (of_nat (length data)) data in (h, h))"

definition string_hash :: "hashers \<Rightarrow> bytes \<Rightarrow> u64" where
  "string_hash H s = absl_string H s"

definition untyped_list_hash :: "hashers \<Rightarrow> obj list \<Rightarrow> u64" where
  "untyped_list_hash H vs =
     hash_combine (std_size H) (std_string H UntypedListMagicString) (of_nat (length vs))"

definition typed_list_hash :: "hashers \<Rightarrow> bytes \<Rightarrow> obj list \<Rightarrow> u64" where
  "typed_list_hash H ty vs = hash_combine (std_size H) (std_string H ty) (of_nat (length vs))"

definition typed_map_hash :: "hashers \<Rightarrow> bytes \<Rightarrow> (obj \<times> obj) list \<Rightarrow> u64" where
  "typed_map_hash H ty kvs = hash_combine (std_size H) (std_string H ty) (of_nat (length kvs))"

definition untyped_map_hash :: "hashers \<Rightarrow> (obj \<times> obj) list \<Rightarrow> u64" where
  "untyped_map_hash H kvs =
     hash_combine (std_size H) (std_string H UntypedMapMagicString) (of_nat (length kvs))"

text \<open>\<open>hash\<close>; \<open>target_hash\<close> gives the hash of the object an address points to.\<close>

fun obj_hash :: "hashers \<Rightarrow> (addr \<Rightarrow> u64) \<Rightarrow> u64 \<Rightarrow> obj \<Rightarrow> u64 \<times> u64" where
  "obj_hash H target_hash st Null_Obj = (null_hash H, st)"
| "obj_hash H target_hash st (Ref_Obj d) = (target_hash d, st)"
| "obj_hash H target_hash st (Boolean_Obj b) = (std_bool H b, st)"
| "obj_hash H target_hash st (Integer_Obj i) = (std_i32 H i, st)"
| "obj_hash H target_hash st (Double_Obj x) = (std_f64 H x, st)"
| "obj_hash H target_hash st (Date_Obj t) = (date_hash H t, st)"
| "obj_hash H target_hash st (Long_Obj l) = (std_i64 H l, st)"
| "obj_hash H target_hash st (Binary_Obj bs) = binary_hash H st bs"
| "obj_hash H target_hash st (String_Obj s) = (string_hash H s, st)"
| "obj_hash H target_hash st (Untyped_List a vs) = (untyped_list_hash H vs, st)"
| "obj_hash H target_hash st (Typed_List a ty vs) = (typed_list_hash H ty vs, st)"
| "obj_hash H target_hash st (Typed_Map a ty kvs) = (typed_map_hash H ty kvs, st)"
| "obj_hash H target_hash st (Untyped_Map a kvs) = (untyped_map_hash H kvs, st)"
| "obj_hash H target_hash st (Class_Instance a df vs) = (class_instance_hash H df vs, st)"

section \<open>Equality\<close>

text \<open>
  The comparisons of the containers, given the comparison \<open>eq\<close> of their parts. A lookup in a map
  finds an entry only under the hash value of the key, so the comparisons of maps depend on the
  hash function \<open>hsh\<close> of the keys; it compares the stored key with the wanted one, in this order.
\<close>

definition map_find :: "(obj \<Rightarrow> u64) \<Rightarrow> (obj \<Rightarrow> obj \<Rightarrow> bool) \<Rightarrow> (obj \<times> obj) list \<Rightarrow> obj \<Rightarrow> obj option" where
  "map_find hsh eq kvs k = map_option snd (find (\<lambda>(k', v'). hsh k' = hsh k \<and> eq k' k) kvs)"

definition entries_found ::
    "(obj \<Rightarrow> u64) \<Rightarrow> (obj \<Rightarrow> obj \<Rightarrow> bool) \<Rightarrow> (obj \<times> obj) list \<Rightarrow> (obj \<times> obj) list \<Rightarrow> bool" where
  "entries_found hsh eq kvs kvs' \<longleftrightarrow> list_all (\<lambda>(k, v).
     case map_find hsh eq kvs' k of None \<Rightarrow> False | Some v' \<Rightarrow> eq v' v) kvs"

definition raw_definition_equal :: "raw_definition \<Rightarrow> raw_definition \<Rightarrow> bool" where
  "raw_definition_equal df df' \<longleftrightarrow> def_type df' = def_type df \<and> field_names df' = field_names df"

definition type_ref_equal :: "bytes \<Rightarrow> bytes \<Rightarrow> bool" where
  "type_ref_equal ty other \<longleftrightarrow> other = ty"

definition definition_equal :: "raw_definition \<Rightarrow> raw_definition \<Rightarrow> bool" where
  "definition_equal df other \<longleftrightarrow> raw_definition_equal other df"

definition class_instance_equal ::
    "(obj \<Rightarrow> obj \<Rightarrow> bool) \<Rightarrow> raw_definition \<times> obj list \<Rightarrow> raw_definition \<times> obj list \<Rightarrow> bool" where
  "class_instance_equal eq x other \<longleftrightarrow>
     raw_definition_equal (fst x) (fst other) \<and> list_all2 eq (snd x) (snd other)"

text \<open>The size test compares the other map with itself, so it is always passed.\<close>

definition typed_map_equal ::
    "(obj \<Rightarrow> u64) \<Rightarrow> (obj \<Rightarrow> obj \<Rightarrow> bool) \<Rightarrow> bytes \<times> (obj \<times> obj) list \<Rightarrow> bytes \<times> (obj \<times> obj) list \<Rightarrow> bool" where
  "typed_map_equal hsh eq x other \<longleftrightarrow> fst other = fst x \<and> length (snd other) = length (snd other)
     \<and> entries_found hsh eq (snd x) (snd other)"

definition typed_list_equal ::
    "(obj \<Rightarrow> obj \<Rightarrow> bool) \<Rightarrow> bytes \<times> obj list \<Rightarrow> bytes \<times> obj list \<Rightarrow> bool" where
  "typed_list_equal eq x other \<longleftrightarrow> fst other = fst x \<and> list_all2 eq (snd x) (snd other)"

definition untyped_list_equal :: "(obj \<Rightarrow> obj \<Rightarrow> bool) \<Rightarrow> obj list \<Rightarrow> obj list \<Rightarrow> bool" where
  "untyped_list_equal eq vs ws \<longleftrightarrow> list_all2 eq vs ws"

definition untyped_map_equal ::
    "(obj \<Rightarrow> u64) \<Rightarrow> (obj \<Rightarrow> obj \<Rightarrow> bool) \<Rightarrow> (obj \<times> obj) list \<Rightarrow> (obj \<times> obj) list \<Rightarrow> bool" where
  "untyped_map_equal hsh eq kvs kvs' \<longleftrightarrow> length kvs = length kvs' \<and> entries_found hsh eq kvs kvs'"

lemma entries_found_cong [fundef_cong]:
  assumes "hsh = hsh'" "kvs = kvs2" "kvs' = kvs2'"
    and "\<And>k v k' v'. (k, v) \<in> set kvs2 \<Longrightarrow> (k', v') \<in> set kvs2' \<Longrightarrow> eq k' k = eq' k' k"
    and "\<And>k v k' v'. (k, v) \<in> set kvs2 \<Longrightarrow> (k', v') \<in> set kvs2' \<Longrightarrow> eq v' v = eq' v' v"
  shows "entries_found hsh eq kvs kvs' = entries_found hsh' eq' kvs2 kvs2'"
proof -
  have "(case map_find hsh eq kvs' k of None \<Rightarrow> False | Some v' \<Rightarrow> eq v' v)
      = (case map_find hsh eq' kvs' k of None \<Rightarrow> False | Some v' \<Rightarrow> eq' v' v)"
    if "(k, v) \<in> set kvs" for k v
  proof -
    have f: "find (\<lambda>(k', v'). hsh k' = hsh k \<and> eq k' k) kvs' = find (\<lambda>(k', v'). hsh k' = hsh k \<and> eq' k' k) kvs'"
      using assms(4) [of k v] that assms(2,3) by (intro find_cong) auto
    show ?thesis
    proof (cases "find (\<lambda>(k', v'). hsh k' = hsh k \<and> eq' k' k) kvs'")
      case (Some kv)
      then have "kv \<in> set kvs'" by (auto simp: find_Some_iff in_set_conv_nth)
      then show ?thesis using assms(5) [of k v "fst kv" "snd kv"] that assms(2,3) f Some
        by (simp add: map_find_def)
    qed (simp add: map_find_def f)
  qed
  then show ?thesis using assms(1,2,3) by (auto simp: entries_found_def list_all_iff)
qed

lemma equal_congs [fundef_cong]:
  assumes "x = x'" and "y = y'"
  shows "(\<And>v w. v \<in> set (snd x') \<Longrightarrow> w \<in> set (snd y') \<Longrightarrow> eq v w = eq' v w) \<Longrightarrow>
      typed_list_equal eq x y = typed_list_equal eq' x' y'"
    and "(\<And>v w. v \<in> set (snd cx') \<Longrightarrow> w \<in> set (snd cy') \<Longrightarrow> eq v w = eq' v w) \<Longrightarrow>
      cx = cx' \<Longrightarrow> cy = cy' \<Longrightarrow> class_instance_equal eq cx cy = class_instance_equal eq' cx' cy'"
    and "(\<And>v w. v \<in> set vs' \<Longrightarrow> w \<in> set ws' \<Longrightarrow> eq v w = eq' v w) \<Longrightarrow>
      vs = vs' \<Longrightarrow> ws = ws' \<Longrightarrow> untyped_list_equal eq vs ws = untyped_list_equal eq' vs' ws'"
  using assms
  by (auto simp: typed_list_equal_def class_instance_equal_def untyped_list_equal_def cong: list.rel_cong)

lemma map_equal_congs [fundef_cong]:
  "x = x' \<Longrightarrow> y = y' \<Longrightarrow> hsh = hsh' \<Longrightarrow>
    (\<And>k v k' v'. (k, v) \<in> set (snd x') \<Longrightarrow> (k', v') \<in> set (snd y') \<Longrightarrow> eq k' k = eq' k' k) \<Longrightarrow>
    (\<And>k v k' v'. (k, v) \<in> set (snd x') \<Longrightarrow> (k', v') \<in> set (snd y') \<Longrightarrow> eq v' v = eq' v' v) \<Longrightarrow>
    typed_map_equal hsh eq x y = typed_map_equal hsh' eq' x' y'"
  "kvs = kvs2 \<Longrightarrow> kvs' = kvs2' \<Longrightarrow> hsh = hsh' \<Longrightarrow>
    (\<And>k v k' v'. (k, v) \<in> set kvs2 \<Longrightarrow> (k', v') \<in> set kvs2' \<Longrightarrow> eq k' k = eq' k' k) \<Longrightarrow>
    (\<And>k v k' v'. (k, v) \<in> set kvs2 \<Longrightarrow> (k', v') \<in> set kvs2' \<Longrightarrow> eq v' v = eq' v' v) \<Longrightarrow>
    untyped_map_equal hsh eq kvs kvs' = untyped_map_equal hsh' eq' kvs2 kvs2'"
  unfolding typed_map_equal_def untyped_map_equal_def
  using entries_found_cong [of hsh hsh' "snd x" "snd x'" "snd y" "snd y'" eq eq']
    entries_found_cong [of hsh hsh' kvs kvs2 kvs' kvs2' eq eq'] by auto

lemma size_in_list: "(v :: obj) \<in> set vs \<Longrightarrow> size v < Suc (size_list size vs)"
  by (induction vs) auto

lemma size_in_entries:
  "(k, v) \<in> set kvs \<Longrightarrow> size k < size_list (size_prod size size) kvs \<and> size v < size_list (size_prod size size) kvs"
  by (induction kvs) auto

text \<open>
  \<open>equal\<close>. The comparison generated for a class with data calls the operator of the other
  object's data, so the other object comes first there.
\<close>

function obj_equal :: "(obj \<Rightarrow> u64) \<Rightarrow> obj \<Rightarrow> obj \<Rightarrow> bool" where
  "obj_equal hsh p q =
     (case p of
       Null_Obj \<Rightarrow> obj_type_of q = T_Null
     | Ref_Obj d \<Rightarrow> obj_type_of q = T_Ref \<and> toRefDest q = Some d
     | Boolean_Obj b \<Rightarrow> toBoolean q = Some b
     | Integer_Obj i \<Rightarrow> toInteger q = Some i
     | Double_Obj x \<Rightarrow> (case q of Double_Obj x' \<Rightarrow> f64_eq x' x | _ \<Rightarrow> False)
     | Date_Obj t \<Rightarrow> toDate q = Some t
     | Long_Obj l \<Rightarrow> toLong q = Some l
     | Binary_Obj bs \<Rightarrow> toBinary q = Some bs
     | String_Obj s \<Rightarrow> toString q = Some s
     | Untyped_List a vs \<Rightarrow> (case q of
         Untyped_List b ws \<Rightarrow> untyped_list_equal (\<lambda>v w. obj_equal hsh v w) vs ws | _ \<Rightarrow> False)
     | Typed_List a ty vs \<Rightarrow> (case q of
         Typed_List b ty' ws \<Rightarrow> typed_list_equal (\<lambda>v w. obj_equal hsh v w) (ty', ws) (ty, vs) | _ \<Rightarrow> False)
     | Typed_Map a ty kvs \<Rightarrow> (case q of
         Typed_Map b ty' kvs' \<Rightarrow> typed_map_equal hsh (\<lambda>v w. obj_equal hsh v w) (ty', kvs') (ty, kvs) | _ \<Rightarrow> False)
     | Untyped_Map a kvs \<Rightarrow> (case q of
         Untyped_Map b kvs' \<Rightarrow> untyped_map_equal hsh (\<lambda>v w. obj_equal hsh v w) kvs kvs' | _ \<Rightarrow> False)
     | Class_Instance a df vs \<Rightarrow> (case q of
         Class_Instance b df' ws \<Rightarrow> class_instance_equal (\<lambda>v w. obj_equal hsh v w) (df', ws) (df, vs) | _ \<Rightarrow> False))"
  by pat_completeness auto
termination
  by (relation "measure (\<lambda>(hsh, p, q). size p + size q)")
    (auto dest!: size_in_entries size_in_list simp: less_Suc_eq_le add_less_mono)

declare obj_equal.simps [simp del]

lemma obj_equal_simps [simp]:
  "obj_equal hsh Null_Obj q \<longleftrightarrow> q = Null_Obj"
  "obj_equal hsh (Ref_Obj d) q \<longleftrightarrow> q = Ref_Obj d"
  "obj_equal hsh (Boolean_Obj b) q \<longleftrightarrow> q = Boolean_Obj b"
  "obj_equal hsh (Integer_Obj i) q \<longleftrightarrow> q = Integer_Obj i"
  "obj_equal hsh (Date_Obj t) q \<longleftrightarrow> q = Date_Obj t"
  "obj_equal hsh (Long_Obj l) q \<longleftrightarrow> q = Long_Obj l"
  "obj_equal hsh (Binary_Obj bs) q \<longleftrightarrow> q = Binary_Obj bs"
  "obj_equal hsh (String_Obj s) q \<longleftrightarrow> q = String_Obj s"
  by (cases q; simp add: obj_equal.simps accessor_defs; fail)+

lemma obj_equal_container_simps [simp]:
  "obj_equal hsh (Double_Obj x) (Double_Obj x') \<longleftrightarrow> f64_eq x' x"
  "obj_equal hsh (Untyped_List a vs) (Untyped_List b ws) \<longleftrightarrow> list_all2 (obj_equal hsh) vs ws"
  "obj_equal hsh (Typed_List a ty vs) (Typed_List b ty' ws) \<longleftrightarrow> ty = ty' \<and> list_all2 (obj_equal hsh) ws vs"
  "obj_equal hsh (Typed_Map a ty kvs) (Typed_Map b ty' kvs') \<longleftrightarrow>
     ty = ty' \<and> entries_found hsh (obj_equal hsh) kvs' kvs"
  "obj_equal hsh (Untyped_Map a kvs) (Untyped_Map b kvs') \<longleftrightarrow>
     length kvs = length kvs' \<and> entries_found hsh (obj_equal hsh) kvs kvs'"
  "obj_equal hsh (Class_Instance a df vs) (Class_Instance b df' ws) \<longleftrightarrow>
     df = df' \<and> list_all2 (obj_equal hsh) ws vs"
  by (auto simp: obj_equal.simps untyped_list_equal_def typed_list_equal_def typed_map_equal_def
      untyped_map_equal_def class_instance_equal_def raw_definition_equal_def)

lemma obj_equal_same_type: "obj_equal hsh p q \<Longrightarrow> obj_type_of p = obj_type_of q"
  by (cases p; cases q; simp add: obj_equal.simps accessor_defs)

section \<open>Lookup and access\<close>

text \<open>
  \<open>ObjectHasher\<close> and \<open>ObjectEqual\<close>: a map can be searched with an object and, without making one,
  with a string.
\<close>

definition object_hasher :: "hashers \<Rightarrow> (addr \<Rightarrow> u64) \<Rightarrow> u64 \<Rightarrow> obj \<Rightarrow> u64" where
  "object_hasher H target_hash st k = fst (obj_hash H target_hash st k)"

definition view_hasher :: "hashers \<Rightarrow> bytes \<Rightarrow> u64" where
  "view_hasher H k = absl_string H k"

definition object_equal :: "(obj \<Rightarrow> u64) \<Rightarrow> obj \<Rightarrow> obj \<Rightarrow> bool" where
  "object_equal hsh left right \<longleftrightarrow> obj_equal hsh left right"

definition object_equal_view :: "obj \<Rightarrow> bytes \<Rightarrow> bool" where
  "object_equal_view left right \<longleftrightarrow>
     (if obj_type_of left \<noteq> T_String then False else toString left = Some right)"

definition view_equal_object :: "bytes \<Rightarrow> obj \<Rightarrow> bool" where
  "view_equal_object left right \<longleftrightarrow>
     (if obj_type_of right \<noteq> T_String then False else toString right = Some left)"

definition typed_map_get ::
    "hashers \<Rightarrow> (addr \<Rightarrow> u64) \<Rightarrow> u64 \<Rightarrow> (obj \<times> obj) list \<Rightarrow> bytes \<Rightarrow> obj option" where
  "typed_map_get H target_hash st kvs key = map_option snd (find (\<lambda>(k', v').
     object_hasher H target_hash st k' = view_hasher H key \<and> object_equal_view k' key) kvs)"

definition untyped_map_get ::
    "hashers \<Rightarrow> (addr \<Rightarrow> u64) \<Rightarrow> u64 \<Rightarrow> (obj \<times> obj) list \<Rightarrow> bytes \<Rightarrow> obj option" where
  "untyped_map_get H target_hash st kvs key = map_option snd (find (\<lambda>(k', v').
     object_hasher H target_hash st k' = view_hasher H key \<and> object_equal_view k' key) kvs)"

definition untyped_list_get :: "obj list \<Rightarrow> nat \<Rightarrow> obj option" where
  "untyped_list_get vs idx = (if length vs \<le> idx then None else Some (vs ! idx))"

definition typed_list_get :: "obj list \<Rightarrow> nat \<Rightarrow> obj option" where
  "typed_list_get vs idx = (if length vs \<le> idx then None else Some (vs ! idx))"

definition untyped_list_emplace_back :: "obj list \<Rightarrow> obj \<Rightarrow> obj list" where
  "untyped_list_emplace_back vs v = vs @ [v]"

definition typed_list_emplace_back :: "bytes \<times> obj list \<Rightarrow> obj \<Rightarrow> bytes \<times> obj list" where
  "typed_list_emplace_back d v = (fst d, snd d @ [v])"

definition typed_list_setType :: "bytes \<times> obj list \<Rightarrow> bytes \<Rightarrow> bytes \<times> obj list" where
  "typed_list_setType d ty = (ty, snd d)"

text \<open>The setters replace the data of an object of their class and keep the object.\<close>

definition setUntypedList :: "obj \<Rightarrow> obj list \<Rightarrow> obj" where
  "setUntypedList p data = (case p of Untyped_List a vs \<Rightarrow> Untyped_List a data | _ \<Rightarrow> p)"

definition setTypedList :: "obj \<Rightarrow> bytes \<times> obj list \<Rightarrow> obj" where
  "setTypedList p data = (case p of Typed_List a ty vs \<Rightarrow> Typed_List a (fst data) (snd data) | _ \<Rightarrow> p)"

definition setTypedMap :: "obj \<Rightarrow> bytes \<times> (obj \<times> obj) list \<Rightarrow> obj" where
  "setTypedMap p data = (case p of Typed_Map a ty kvs \<Rightarrow> Typed_Map a (fst data) (snd data) | _ \<Rightarrow> p)"

definition setUntypedMap :: "obj \<Rightarrow> (obj \<times> obj) list \<Rightarrow> obj" where
  "setUntypedMap p data = (case p of Untyped_Map a kvs \<Rightarrow> Untyped_Map a data | _ \<Rightarrow> p)"

definition setClassInstance :: "obj \<Rightarrow> raw_definition \<times> obj list \<Rightarrow> obj" where
  "setClassInstance p data =
     (case p of Class_Instance a df vs \<Rightarrow> Class_Instance a (fst data) (snd data) | _ \<Rightarrow> p)"

text \<open>\<open>asType<T>\<close>: the cast asserts that the object is of the class.\<close>

definition asType :: "obj_type \<Rightarrow> obj \<Rightarrow> obj result" where
  "asType ty p = (if obj_type_of p = ty then Ret p else Abort)"

text \<open>
  \<open>emplace\<close> of a hash map of the abseil library is a parameter: a function from the entries and a
  new one to the entries afterwards. Its contract: nothing changes, and then a stored key is equal
  to the new one, or the new entry is added somewhere.
\<close>

type_synonym emplace_fn = "(obj \<times> obj) list \<Rightarrow> obj \<times> obj \<Rightarrow> (obj \<times> obj) list"

definition emplace_contract :: "(obj \<Rightarrow> u64) \<Rightarrow> emplace_fn \<Rightarrow> bool" where
  "emplace_contract hsh emp \<longleftrightarrow> (\<forall>kvs kv.
     (emp kvs kv = kvs \<and> (\<exists>kv' \<in> set kvs. obj_equal hsh (fst kv') (fst kv)))
     \<or> mset (emp kvs kv) = add_mset kv (mset kvs))"

definition typed_map_emplace :: "emplace_fn \<Rightarrow> bytes \<times> (obj \<times> obj) list \<Rightarrow> obj \<times> obj \<Rightarrow> bytes \<times> (obj \<times> obj) list" where
  "typed_map_emplace emp d kv = (fst d, emp (snd d) kv)"

definition untyped_map_emplace :: "emplace_fn \<Rightarrow> (obj \<times> obj) list \<Rightarrow> obj \<times> obj \<Rightarrow> (obj \<times> obj) list" where
  "untyped_map_emplace emp kvs kv = emp kvs kv"

text \<open>The simplest function with this contract keeps the order of insertion.\<close>

definition append_entry :: "(obj \<Rightarrow> u64) \<Rightarrow> emplace_fn" where
  "append_entry hsh kvs kv =
     (if map_find hsh (obj_equal hsh) kvs (fst kv) = None then kvs @ [kv] else kvs)"

lemma map_find_Some_entry:
  assumes "map_find hsh eq kvs k \<noteq> None"
  obtains kv where "kv \<in> set kvs" and "eq (fst kv) k" and "hsh (fst kv) = hsh k"
proof -
  obtain kv where "find (\<lambda>(k', v'). hsh k' = hsh k \<and> eq k' k) kvs = Some kv"
    using assms by (auto simp: map_find_def)
  then have "kv \<in> set kvs" and "eq (fst kv) k" and "hsh (fst kv) = hsh k"
    by (auto simp: find_Some_iff in_set_conv_nth)
  then show ?thesis by (rule that)
qed

lemma append_entry_contract: "emplace_contract hsh (append_entry hsh)"
proof -
  have "(append_entry hsh kvs kv = kvs \<and> (\<exists>kv' \<in> set kvs. obj_equal hsh (fst kv') (fst kv)))
     \<or> mset (append_entry hsh kvs kv) = add_mset kv (mset kvs)" for kvs kv
  proof (cases "map_find hsh (obj_equal hsh) kvs (fst kv) = None")
    case False
    then obtain kv' where "kv' \<in> set kvs" and "obj_equal hsh (fst kv') (fst kv)"
      by (rule map_find_Some_entry)
    then show ?thesis using False by (auto simp: append_entry_def)
  qed (simp add: append_entry_def)
  then show ?thesis by (simp add: emplace_contract_def)
qed

section \<open>Debug strings\<close>

text \<open>
  \<open>absl::StrFormat\<close> is the parameter \<open>fmt\<close>, from a format and its arguments to a text. The heap
  maps addresses to the objects a \<open>RefObject\<close> points to. The depth of the recursion is bounded by
  fuel; \<open>None\<close> is a recursion that goes deeper (or a dangling pointer).
\<close>

datatype fmt_arg = A_Text bytes | A_Int int | A_Double f64 | A_Ptr addr

type_synonym fmt_fn = "string \<Rightarrow> fmt_arg list \<Rightarrow> bytes"

definition definition_debug :: "fmt_fn \<Rightarrow> raw_definition \<Rightarrow> bytes" where
  "definition_debug fmt df = fmt ''type: %s , field_list: %s''
     [A_Text (def_type df), A_Text (concat (map (\<lambda>name. name @ ascii '' '') (field_names df)))]"

definition null_debug :: bytes where
  "null_debug = ascii ''Type: Null''"

definition ref_debug :: "fmt_fn \<Rightarrow> addr \<Rightarrow> bytes \<Rightarrow> bytes" where
  "ref_debug fmt d target = fmt ''Type: Ref, target address: %p, value[%s]'' [A_Ptr d, A_Text target]"

definition boolean_debug :: "fmt_fn \<Rightarrow> bool \<Rightarrow> bytes" where
  "boolean_debug fmt b = fmt ''Type: boolean, value[%s]'' [A_Text (ascii (if b then ''true'' else ''false''))]"

definition integer_debug :: "fmt_fn \<Rightarrow> i32 \<Rightarrow> bytes" where
  "integer_debug fmt i = fmt ''Type: integer, value[%d]'' [A_Int (sint i)]"

definition double_debug :: "fmt_fn \<Rightarrow> f64 \<Rightarrow> bytes" where
  "double_debug fmt x = fmt ''Type: double, value[%f]'' [A_Double x]"

definition date_debug :: "fmt_fn \<Rightarrow> i64 \<Rightarrow> bytes" where
  "date_debug fmt t = fmt ''Type: double, value[%d ms]'' [A_Int (sint t)]"

definition long_debug :: "fmt_fn \<Rightarrow> i64 \<Rightarrow> bytes" where
  "long_debug fmt l = fmt ''Type: long, value[%d]'' [A_Int (sint l)]"

text \<open>A byte is an \<open>unsigned char\<close>, so the stream prints it as a character in spite of \<open>std::hex\<close>.\<close>

definition binary_debug :: "fmt_fn \<Rightarrow> bytes \<Rightarrow> bytes" where
  "binary_debug fmt bs =
     (let limit_len = (if length bs \<le> 16 then length bs else 16)
      in fmt ''Type: binary, size[%d], value[%s]''
           [A_Int (int (length bs)), A_Text (concat (map (\<lambda>b. [b] @ ascii '' '') (take limit_len bs)))])"

definition string_debug :: "fmt_fn \<Rightarrow> bytes \<Rightarrow> bytes" where
  "string_debug fmt s = fmt ''Type: string, value[%s]'' [A_Text s]"

text \<open>The elements one after the other, each followed by \<open>sep\<close>.\<close>

fun debug_each :: "(obj \<Rightarrow> bytes option) \<Rightarrow> bytes \<Rightarrow> obj list \<Rightarrow> bytes option" where
  "debug_each dbg sep [] = Some []"
| "debug_each dbg sep (v # vs) = (case dbg v of None \<Rightarrow> None | Some s \<Rightarrow>
     map_option (\<lambda>r. s @ sep @ r) (debug_each dbg sep vs))"

fun debug_entries :: "(obj \<Rightarrow> bytes option) \<Rightarrow> (obj \<times> obj) list \<Rightarrow> bytes option" where
  "debug_entries dbg [] = Some []"
| "debug_entries dbg (kv # kvs) = (case dbg (fst kv) of None \<Rightarrow> None | Some k \<Rightarrow>
     (case dbg (snd kv) of None \<Rightarrow> None | Some v \<Rightarrow>
       map_option (\<lambda>r. ascii ''key: '' @ k @ ascii '' value: '' @ v @ [10] @ r) (debug_entries dbg kvs)))"

definition untyped_list_debug :: "fmt_fn \<Rightarrow> (obj \<Rightarrow> bytes option) \<Rightarrow> obj list \<Rightarrow> bytes option" where
  "untyped_list_debug fmt dbg vs =
     map_option (\<lambda>t. fmt ''Type: untypedlist, value[%s]'' [A_Text t]) (debug_each dbg [10] vs)"

definition typed_list_debug :: "fmt_fn \<Rightarrow> (obj \<Rightarrow> bytes option) \<Rightarrow> bytes \<Rightarrow> obj list \<Rightarrow> bytes option" where
  "typed_list_debug fmt dbg ty vs =
     map_option (\<lambda>t. fmt ''Type: typedlist, type[%s], value[%s]'' [A_Text ty, A_Text t]) (debug_each dbg [10] vs)"

definition typed_map_debug :: "fmt_fn \<Rightarrow> (obj \<Rightarrow> bytes option) \<Rightarrow> bytes \<Rightarrow> (obj \<times> obj) list \<Rightarrow> bytes option" where
  "typed_map_debug fmt dbg ty kvs =
     map_option (\<lambda>t. fmt ''Type: typedmap, type[%s], value[%s]'' [A_Text ty, A_Text t]) (debug_entries dbg kvs)"

definition untyped_map_debug :: "fmt_fn \<Rightarrow> (obj \<Rightarrow> bytes option) \<Rightarrow> (obj \<times> obj) list \<Rightarrow> bytes option" where
  "untyped_map_debug fmt dbg kvs =
     map_option (\<lambda>t. fmt ''Type: untypedmap, value[%s]'' [A_Text t]) (debug_entries dbg kvs)"

definition class_instance_debug ::
    "fmt_fn \<Rightarrow> (obj \<Rightarrow> bytes option) \<Rightarrow> raw_definition \<Rightarrow> obj list \<Rightarrow> bytes option" where
  "class_instance_debug fmt dbg df vs =
     map_option (\<lambda>t. fmt ''Type: classinstance, def[%s], value[%s]''
       [A_Text (definition_debug fmt df), A_Text t]) (debug_each dbg (ascii '' '') vs)"

fun obj_debug :: "fmt_fn \<Rightarrow> (addr \<Rightarrow> obj option) \<Rightarrow> nat \<Rightarrow> obj \<Rightarrow> bytes option" where
  "obj_debug fmt heap 0 p = None"
| "obj_debug fmt heap (Suc k) p =
     (let dbg = (\<lambda>v. obj_debug fmt heap k v) in case p of
       Null_Obj \<Rightarrow> Some null_debug
     | Ref_Obj d \<Rightarrow> (case heap d of None \<Rightarrow> None | Some target \<Rightarrow> map_option (ref_debug fmt d) (dbg target))
     | Boolean_Obj b \<Rightarrow> Some (boolean_debug fmt b)
     | Integer_Obj i \<Rightarrow> Some (integer_debug fmt i)
     | Double_Obj x \<Rightarrow> Some (double_debug fmt x)
     | Date_Obj t \<Rightarrow> Some (date_debug fmt t)
     | Long_Obj l \<Rightarrow> Some (long_debug fmt l)
     | Binary_Obj bs \<Rightarrow> Some (binary_debug fmt bs)
     | String_Obj s \<Rightarrow> Some (string_debug fmt s)
     | Untyped_List a vs \<Rightarrow> untyped_list_debug fmt dbg vs
     | Typed_List a ty vs \<Rightarrow> typed_list_debug fmt dbg ty vs
     | Typed_Map a ty kvs \<Rightarrow> typed_map_debug fmt dbg ty kvs
     | Untyped_Map a kvs \<Rightarrow> untyped_map_debug fmt dbg kvs
     | Class_Instance a df vs \<Rightarrow> class_instance_debug fmt dbg df vs)"

section \<open>Utilities\<close>

text \<open>\<open>Utils::stringToHex\<close>: two lower-case digits per byte.\<close>

definition hex_digit :: "nat \<Rightarrow> char" where
  "hex_digit n = (''0123456789abcdef'' ! n)"

definition stringToHex :: "bytes \<Rightarrow> string" where
  "stringToHex bs = concat (map (\<lambda>b. [hex_digit (unat b div 16), hex_digit (unat b mod 16)]) bs)"

text \<open>\<open>Utils::allocStringBuffer\<close>: the string resized to one less than \<open>len\<close>, which throws for 0.\<close>

definition allocStringBuffer :: "bytes \<Rightarrow> nat \<Rightarrow> bytes result" where
  "allocStringBuffer str len =
     (if len = 0 then Abort else Ret (take (len - 1) str @ replicate (len - 1 - length str) 0))"

section \<open>Properties\<close>

text \<open>
  Every part of the object is equal to itself: no part is a NaN, and every entry of a map is found
  under its own key, as it is in a hash table.
\<close>

function self_equal :: "(obj \<Rightarrow> u64) \<Rightarrow> obj \<Rightarrow> bool" where
  "self_equal hsh p =
     (case p of
       Double_Obj x \<Rightarrow> \<not> f64_is_nan x
     | Untyped_List a vs \<Rightarrow> list_all (\<lambda>v. self_equal hsh v) vs
     | Typed_List a ty vs \<Rightarrow> list_all (\<lambda>v. self_equal hsh v) vs
     | Typed_Map a ty kvs \<Rightarrow> list_all (\<lambda>(k, v). map_find hsh (obj_equal hsh) kvs k = Some v \<and> self_equal hsh v) kvs
     | Untyped_Map a kvs \<Rightarrow> list_all (\<lambda>(k, v). map_find hsh (obj_equal hsh) kvs k = Some v \<and> self_equal hsh v) kvs
     | Class_Instance a df vs \<Rightarrow> list_all (\<lambda>v. self_equal hsh v) vs
     | _ \<Rightarrow> True)"
  by pat_completeness auto
termination
  by (relation "measure (\<lambda>(hsh, p). size p)")
    (auto dest!: size_in_entries size_in_list simp: less_Suc_eq_le)

declare self_equal.simps [simp del]

lemma self_equal_simps [simp]:
  "self_equal hsh (Double_Obj x) \<longleftrightarrow> \<not> f64_is_nan x"
  "self_equal hsh (Untyped_List a vs) \<longleftrightarrow> list_all (self_equal hsh) vs"
  "self_equal hsh (Typed_List a ty vs) \<longleftrightarrow> list_all (self_equal hsh) vs"
  "self_equal hsh (Typed_Map a ty kvs) \<longleftrightarrow>
     list_all (\<lambda>(k, v). map_find hsh (obj_equal hsh) kvs k = Some v \<and> self_equal hsh v) kvs"
  "self_equal hsh (Untyped_Map a kvs) \<longleftrightarrow>
     list_all (\<lambda>(k, v). map_find hsh (obj_equal hsh) kvs k = Some v \<and> self_equal hsh v) kvs"
  "self_equal hsh (Class_Instance a df vs) \<longleftrightarrow> list_all (self_equal hsh) vs"
  by (simp_all add: self_equal.simps)

lemma entries_found_self:
  assumes "\<And>k v. (k, v) \<in> set kvs \<Longrightarrow> map_find hsh eq kvs k = Some v \<and> eq v v"
  shows "entries_found hsh eq kvs kvs"
  using assms by (auto simp: entries_found_def list_all_iff)

lemma self_equal_equal: "self_equal hsh p \<Longrightarrow> obj_equal hsh p p"
proof (induction p)
  case (Typed_Map a ty kvs)
  have v: "obj_equal hsh v v" if "(k, v) \<in> set kvs" "self_equal hsh v" for k v
    using Typed_Map(2) [of "(k, v)" v] that by simp
  have "entries_found hsh (obj_equal hsh) kvs kvs"
    by (rule entries_found_self) (use Typed_Map(3) in \<open>auto simp: list_all_iff intro: v\<close>)
  then show ?case by simp
next
  case (Untyped_Map a kvs)
  have v: "obj_equal hsh v v" if "(k, v) \<in> set kvs" "self_equal hsh v" for k v
    using Untyped_Map(2) [of "(k, v)" v] that by simp
  have "entries_found hsh (obj_equal hsh) kvs kvs"
    by (rule entries_found_self) (use Untyped_Map(3) in \<open>auto simp: list_all_iff intro: v\<close>)
  then show ?case by simp
qed (auto simp: list_all_iff f64_eq_def intro!: list.rel_refl_strong)

end
