(* ===== verification/List_Codec.thy ===== *)
theory List_Codec
  imports Object_Model
begin

text \<open>
  Lists (src/hessian2/basic_codec/list_codec.cc). The decoder and the encoder of the elements are
  the ones of objects, which call those of lists: here they are the parameters \<open>dec\<close> and \<open>enc\<close>,
  and Object_Codec ties the knot. A loop of the decoder that runs to a terminator takes fuel, one
  unit for each element it may read.
\<close>

section \<open>Decoding\<close>

text \<open>A container is made, and can be referred to, before its contents are read.\<close>

definition new_ref :: "(decoder, addr) comp" where
  "new_ref = (\<lambda>d. (Ret (d_next d), d\<lparr>d_values := d_values d @ [d_next d], d_next := Suc (d_next d)\<rparr>))"

fun read_nums :: "(decoder, obj) comp \<Rightarrow> nat \<Rightarrow> obj list \<Rightarrow> (decoder, obj list) comp" where
  "read_nums dec 0 acc = ret acc"
| "read_nums dec (Suc n) acc = and_then dec (\<lambda>v. read_nums dec n (acc @ [v]))"

fun read_until_end :: "(decoder, obj) comp \<Rightarrow> nat \<Rightarrow> obj list \<Rightarrow> (decoder, obj list) comp" where
  "read_until_end dec 0 acc = hang"
| "read_until_end dec (Suc k) acc = and_then dec_peek_u8 (\<lambda>res.
     if \<not> fst res then nullptr
     else if snd res = 0x5a then and_then dec_read_u8 (\<lambda>_. ret acc)
     else and_then dec (\<lambda>v. read_until_end dec k (acc @ [v])))"

definition decode_typed_list :: "bool \<Rightarrow> (decoder, obj) comp \<Rightarrow> nat \<Rightarrow> (decoder, obj) comp" where
  "decode_typed_list java_lite dec k = and_then new_ref (\<lambda>a. and_then dec_read_u8 (\<lambda>res.
     if \<not> fst res then nullptr
     else let code = snd res in and_then (decode_type_ref java_lite) (\<lambda>type_str.
       if code = 0x55 then
         and_then (read_until_end dec k []) (\<lambda>vs. ret (Typed_List a type_str vs))
       else if code = 0x56 then
         and_then decode_i32 (\<lambda>nums.
         and_then (read_nums dec (nat (sint nums)) []) (\<lambda>vs. ret (Typed_List a type_str vs)))
       else if 0x70 \<le> code \<and> code \<le> 0x77 then
         and_then (read_nums dec (unat code - 0x70) []) (\<lambda>vs. ret (Typed_List a type_str vs))
       else nullptr)))"

text \<open>A code that is not one of an untyped list gives an empty list.\<close>

definition decode_untyped_list :: "(decoder, obj) comp \<Rightarrow> nat \<Rightarrow> (decoder, obj) comp" where
  "decode_untyped_list dec k = and_then new_ref (\<lambda>a. and_then dec_read_u8 (\<lambda>res.
     if \<not> fst res then nullptr
     else let code = snd res in
       if code = 0x57 then
         and_then (read_until_end dec k []) (\<lambda>vs. ret (Untyped_List a vs))
       else if code = 0x58 then
         and_then decode_i32 (\<lambda>nums.
         and_then (read_nums dec (nat (sint nums)) []) (\<lambda>vs. ret (Untyped_List a vs)))
       else if 0x78 \<le> code \<and> code \<le> 0x7f then
         and_then (read_nums dec (unat code - 0x78) []) (\<lambda>vs. ret (Untyped_List a vs))
       else ret (Untyped_List a [])))"

section \<open>Encoding\<close>

text \<open>\<open>values_ref_.emplace(&value, values_ref_.size())\<close>.\<close>

definition register :: "addr \<Rightarrow> (encoder, unit) comp" where
  "register a = modify (\<lambda>e. e\<lparr>e_values := emplace a (of_nat (length (e_values e))) (e_values e)\<rparr>)"

text \<open>The results of encoding the type and the elements are not looked at.\<close>

fun encode_each :: "('v \<Rightarrow> (encoder, bool) comp) \<Rightarrow> 'v list \<Rightarrow> (encoder, unit) comp" where
  "encode_each enc [] = ret ()"
| "encode_each enc (v # vs) = and_then (enc v) (\<lambda>_. encode_each enc vs)"

definition encode_typed_list ::
    "bool \<Rightarrow> (obj \<Rightarrow> (encoder, bool) comp) \<Rightarrow> addr \<Rightarrow> bytes \<Rightarrow> obj list \<Rightarrow> (encoder, bool) comp" where
  "encode_typed_list java_lite enc a type_name vs = and_then (register a) (\<lambda>_.
     let len = length vs in
     and_then (if len \<le> 7 then enc_write_byte (0x70 + int len) else enc_write_byte 0x56) (\<lambda>_.
     and_then (encode_type_ref java_lite type_name) (\<lambda>_.
     and_then (if 7 < len then and_then (encode_i32 (of_nat len)) (\<lambda>_. ret ()) else ret ()) (\<lambda>_.
     and_then (encode_each enc vs) (\<lambda>_. ret True)))))"

definition encode_untyped_list ::
    "(obj \<Rightarrow> (encoder, bool) comp) \<Rightarrow> addr \<Rightarrow> obj list \<Rightarrow> (encoder, bool) comp" where
  "encode_untyped_list enc a vs = and_then (register a) (\<lambda>_.
     let len = length vs in
     and_then (if len \<le> 7 then enc_write_byte (0x78 + int len)
       else and_then (enc_write_byte 0x58) (\<lambda>_. and_then (encode_i32 (of_nat len)) (\<lambda>_. ret ()))) (\<lambda>_.
     and_then (encode_each enc vs) (\<lambda>_. ret True)))"

lemma encode_each_cong [fundef_cong]:
  "vs = vs' \<Longrightarrow> (\<And>v. v \<in> set vs' \<Longrightarrow> enc v = enc' v) \<Longrightarrow> encode_each enc vs = encode_each enc' vs'"
  by (induction vs arbitrary: vs') auto

lemma encode_list_congs [fundef_cong]:
  "vs = vs' \<Longrightarrow> (\<And>v. v \<in> set vs' \<Longrightarrow> enc v = enc' v) \<Longrightarrow> a = a' \<Longrightarrow> ty = ty' \<Longrightarrow> jl = jl' \<Longrightarrow>
    encode_typed_list jl enc a ty vs = encode_typed_list jl' enc' a' ty' vs'"
  "vs = vs' \<Longrightarrow> (\<And>v. v \<in> set vs' \<Longrightarrow> enc v = enc' v) \<Longrightarrow> a = a' \<Longrightarrow>
    encode_untyped_list enc a vs = encode_untyped_list enc' a' vs'"
  using encode_each_cong [of vs vs' enc enc']
  by (simp_all add: encode_typed_list_def encode_untyped_list_def)

end
