(* ===== verification/Map_Codec.thy ===== *)
theory Map_Codec
  imports List_Codec
begin

text \<open>
  Maps (src/hessian2/basic_codec/map_codec.cc), with the decoder and the encoder of objects as
  parameters. Inserting an entry computes the hash value of the key. The hash value of a
  reference is that of the object it points to: there is none while that object is a class
  instance whose fields are being read, and none when it has been destroyed. An entry whose key is
  already in the map is destroyed, with every object in it.
\<close>

section \<open>Decoding\<close>

fun obj_addrs :: "obj \<Rightarrow> addr list" where
  "obj_addrs (Untyped_List a vs) = a # concat (map obj_addrs vs)"
| "obj_addrs (Typed_List a ty vs) = a # concat (map obj_addrs vs)"
| "obj_addrs (Typed_Map a ty kvs) = a # concat (map (\<lambda>kv. obj_addrs (fst kv) @ obj_addrs (snd kv)) kvs)"
| "obj_addrs (Untyped_Map a kvs) = a # concat (map (\<lambda>kv. obj_addrs (fst kv) @ obj_addrs (snd kv)) kvs)"
| "obj_addrs (Class_Instance a df vs) = a # concat (map obj_addrs vs)"
| "obj_addrs _ = []"

definition insert_entry ::
    "emplace_fn \<Rightarrow> (obj \<times> obj) list \<Rightarrow> obj \<Rightarrow> obj \<Rightarrow> (decoder, (obj \<times> obj) list) comp" where
  "insert_entry emp kvs key val = (\<lambda>d.
     if (case key of Ref_Obj a \<Rightarrow> a \<in> set (d_dead d) | _ \<Rightarrow> False) then (Abort, d)
     else let kvs' = emp kvs (key, val) in
       (Ret kvs', if length kvs' = length kvs
         then d\<lparr>d_dead := d_dead d @ obj_addrs key @ obj_addrs val\<rparr> else d))"

fun read_entries ::
    "emplace_fn \<Rightarrow> (decoder, obj) comp \<Rightarrow> nat \<Rightarrow> (obj \<times> obj) list \<Rightarrow> (decoder, (obj \<times> obj) list) comp" where
  "read_entries emp dec 0 kvs = hang"
| "read_entries emp dec (Suc k) kvs = and_then dec_peek_u8 (\<lambda>res.
     if \<not> fst res then nullptr
     else if snd res = 0x5a then and_then dec_read_u8 (\<lambda>_. ret kvs)
     else and_then dec (\<lambda>key. and_then dec (\<lambda>val.
       and_then (insert_entry emp kvs key val) (\<lambda>kvs'. read_entries emp dec k kvs'))))"

definition decode_typed_map ::
    "bool \<Rightarrow> emplace_fn \<Rightarrow> (decoder, obj) comp \<Rightarrow> nat \<Rightarrow> (decoder, obj) comp" where
  "decode_typed_map java_lite emp dec k = and_then new_ref (\<lambda>a. and_then dec_read_u8 (\<lambda>res.
     if \<not> fst res then abort
     else if snd res \<noteq> 0x4d then abort
     else and_then (decode_type_ref java_lite) (\<lambda>type_str.
       and_then (read_entries emp dec k []) (\<lambda>kvs. ret (Typed_Map a type_str kvs)))))"

definition decode_untyped_map :: "emplace_fn \<Rightarrow> (decoder, obj) comp \<Rightarrow> nat \<Rightarrow> (decoder, obj) comp" where
  "decode_untyped_map emp dec k = and_then new_ref (\<lambda>a. and_then dec_read_u8 (\<lambda>res.
     if \<not> fst res then abort
     else if snd res \<noteq> 0x48 then abort
     else and_then (read_entries emp dec k []) (\<lambda>kvs. ret (Untyped_Map a kvs))))"

section \<open>Encoding\<close>

fun encode_entries ::
    "(obj \<Rightarrow> (encoder, bool) comp) \<Rightarrow> (obj \<times> obj) list \<Rightarrow> (encoder, unit) comp" where
  "encode_entries enc [] = ret ()"
| "encode_entries enc (kv # kvs) = and_then (enc (fst kv)) (\<lambda>_. and_then (enc (snd kv)) (\<lambda>_.
     encode_entries enc kvs))"

definition encode_typed_map ::
    "bool \<Rightarrow> (obj \<Rightarrow> (encoder, bool) comp) \<Rightarrow> addr \<Rightarrow> bytes \<Rightarrow> (obj \<times> obj) list \<Rightarrow> (encoder, bool) comp" where
  "encode_typed_map java_lite enc a type_name kvs = and_then (register a) (\<lambda>_.
     and_then (enc_write_byte 0x4d) (\<lambda>_.
     and_then (encode_type_ref java_lite type_name) (\<lambda>_.
     and_then (encode_entries enc kvs) (\<lambda>_.
     and_then (enc_write_byte 0x5a) (\<lambda>_. ret True)))))"

definition encode_untyped_map ::
    "(obj \<Rightarrow> (encoder, bool) comp) \<Rightarrow> addr \<Rightarrow> (obj \<times> obj) list \<Rightarrow> (encoder, bool) comp" where
  "encode_untyped_map enc a kvs = and_then (register a) (\<lambda>_.
     and_then (enc_write_byte 0x48) (\<lambda>_.
     and_then (encode_entries enc kvs) (\<lambda>_.
     and_then (enc_write_byte 0x5a) (\<lambda>_. ret True))))"

lemma encode_entries_cong [fundef_cong]:
  "kvs = kvs' \<Longrightarrow> (\<And>k v. (k, v) \<in> set kvs' \<Longrightarrow> enc k = enc' k) \<Longrightarrow>
    (\<And>k v. (k, v) \<in> set kvs' \<Longrightarrow> enc v = enc' v) \<Longrightarrow> encode_entries enc kvs = encode_entries enc' kvs'"
proof (induction kvs arbitrary: kvs')
  case (Cons kv kvs)
  obtain k v where kv: "kv = (k, v)" by (cases kv)
  have "enc k = enc' k" and "enc v = enc' v"
    using Cons.prems(2,3) [of k v] Cons.prems(1) kv by auto
  moreover have "encode_entries enc kvs = encode_entries enc' kvs"
  proof (rule Cons.IH [OF refl])
    show "enc k' = enc' k'" "enc v' = enc' v'" if "(k', v') \<in> set kvs" for k' v'
      using Cons.prems(2,3) [of k' v'] Cons.prems(1) that by auto
  qed
  ultimately show ?case using Cons.prems(1) kv by auto
qed auto

lemma encode_map_congs [fundef_cong]:
  "kvs = kvs' \<Longrightarrow> (\<And>k v. (k, v) \<in> set kvs' \<Longrightarrow> enc k = enc' k) \<Longrightarrow>
    (\<And>k v. (k, v) \<in> set kvs' \<Longrightarrow> enc v = enc' v) \<Longrightarrow> a = a' \<Longrightarrow> ty = ty' \<Longrightarrow> jl = jl' \<Longrightarrow>
    encode_typed_map jl enc a ty kvs = encode_typed_map jl' enc' a' ty' kvs'"
  "kvs = kvs' \<Longrightarrow> (\<And>k v. (k, v) \<in> set kvs' \<Longrightarrow> enc k = enc' k) \<Longrightarrow>
    (\<And>k v. (k, v) \<in> set kvs' \<Longrightarrow> enc v = enc' v) \<Longrightarrow> a = a' \<Longrightarrow>
    encode_untyped_map enc a kvs = encode_untyped_map enc' a' kvs'"
  using encode_entries_cong [of kvs kvs' enc enc']
  by (simp_all add: encode_typed_map_def encode_untyped_map_def)

end
