(* ===== verification/Object_Codec.thy ===== *)
theory Object_Codec
  imports Map_Codec Bool_Codec Byte_Codec
begin

text \<open>
  Class instances (src/hessian2/basic_codec/class_instance_codec.cc) and the dispatch on the first
  byte or on the class of an object (src/hessian2/basic_codec/object_codec.cc).
\<close>

section \<open>Class instances\<close>

text \<open>The instance has no definition, and so no hash value, until its fields have been read.\<close>

definition decode_class_instance :: "bool \<Rightarrow> (decoder, obj) comp \<Rightarrow> (decoder, obj) comp" where
  "decode_class_instance java_lite dec = and_then new_ref (\<lambda>a.
     and_then (modify (\<lambda>d. d\<lparr>d_dead := a # d_dead d\<rparr>)) (\<lambda>_.
     and_then (find_definition java_lite) (\<lambda>df.
     and_then (read_nums dec (length (field_names df)) []) (\<lambda>vs.
     and_then (modify (\<lambda>d. d\<lparr>d_dead := remove1 a (d_dead d)\<rparr>)) (\<lambda>_.
     ret (Class_Instance a df vs))))))"

definition encode_class_instance ::
    "bool \<Rightarrow> (obj \<Rightarrow> (encoder, bool) comp) \<Rightarrow> addr \<Rightarrow> raw_definition \<Rightarrow> obj list \<Rightarrow> (encoder, bool) comp" where
  "encode_class_instance java_lite enc a df vs = and_then (register a) (\<lambda>_.
     and_then (encode_raw_definition java_lite df) (\<lambda>_.
     and_then (encode_each enc vs) (\<lambda>_. ret True)))"

lemma encode_class_instance_cong [fundef_cong]:
  "vs = vs' \<Longrightarrow> (\<And>v. v \<in> set vs' \<Longrightarrow> enc v = enc' v) \<Longrightarrow> a = a' \<Longrightarrow> df = df' \<Longrightarrow> jl = jl' \<Longrightarrow>
    encode_class_instance jl enc a df vs = encode_class_instance jl' enc' a' df' vs'"
  using encode_each_cong [of vs vs' enc enc'] by (simp add: encode_class_instance_def)

section \<open>Objects\<close>

definition decode_null :: "(decoder, obj) comp" where
  "decode_null = and_then dec_read_u8 (\<lambda>res.
     if \<not> fst res then nullptr else if snd res \<noteq> 0x4e then abort else ret Null_Obj)"

definition encode_null :: "(encoder, bool) comp" where
  "encode_null = and_then (enc_write_byte 0x4e) (\<lambda>_. ret True)"

text \<open>
  \<open>decode<Object>\<close>. The fuel bounds the depth of the calls and the elements of one container; it
  is more than enough when it exceeds the number of unread bytes (Object_Safety).
\<close>

fun decode_object_fuel :: "bool \<Rightarrow> emplace_fn \<Rightarrow> nat \<Rightarrow> (decoder, obj) comp" where
  "decode_object_fuel java_lite emp 0 = hang"
| "decode_object_fuel java_lite emp (Suc k) = and_then dec_peek_u8 (\<lambda>res.
     if \<not> fst res then nullptr
     else let code = snd res; dec = decode_object_fuel java_lite emp k in
     if code = 0x4e then decode_null
     else if code = 0x46 \<or> code = 0x54 then and_then decode_bool (\<lambda>b. ret (Boolean_Obj b))
     else if code = 0x4a \<or> code = 0x4b then and_then decode_milliseconds (\<lambda>t. ret (Date_Obj t))
     else if (0x5b \<le> code \<and> code \<le> 0x5f) \<or> code = 0x44 then
       and_then decode_double (\<lambda>x. ret (Double_Obj x))
     else if code = 0x56 \<or> code = 0x55 \<or> (0x70 \<le> code \<and> code \<le> 0x77) then
       decode_typed_list java_lite dec k
     else if code = 0x57 \<or> code = 0x58 \<or> (0x78 \<le> code \<and> code \<le> 0x7f) then
       decode_untyped_list dec k
     else if code = 0x4d then decode_typed_map java_lite emp dec k
     else if code = 0x48 then decode_untyped_map emp dec k
     else if code = 0x43 then and_then (decode_definition java_lite) (\<lambda>_. dec)
     else if code = 0x4f \<or> (0x60 \<le> code \<and> code \<le> 0x6f) then decode_class_instance java_lite dec
     else if code = 0x51 then and_then decode_ref (\<lambda>a. ret (Ref_Obj a))
     else if code \<le> 0x1f \<or> (0x30 \<le> code \<and> code \<le> 0x33) \<or> code = 0x52 \<or> code = 0x53 then
       and_then (decode_string java_lite) (\<lambda>s. ret (String_Obj s))
     else if (0x20 \<le> code \<and> code \<le> 0x2f) \<or> (0x34 \<le> code \<and> code \<le> 0x37) \<or> code = 0x41 \<or> code = 0x42 then
       and_then decode_bytes (\<lambda>bs. ret (Binary_Obj bs))
     else if (0x38 \<le> code \<and> code \<le> 0x3f) \<or> (0xd8 \<le> code \<and> code \<le> 0xef) \<or> 0xf0 \<le> code
         \<or> code = 0x59 \<or> code = 0x4c then
       and_then decode_i64 (\<lambda>l. ret (Long_Obj l))
     else if code = 0x49 \<or> (0x80 \<le> code \<and> code \<le> 0xbf) \<or> (0xc0 \<le> code \<and> code \<le> 0xcf)
         \<or> (0xd0 \<le> code \<and> code \<le> 0xd7) then
       and_then decode_i32 (\<lambda>i. ret (Integer_Obj i))
     else nullptr)"

definition decode_object :: "bool \<Rightarrow> emplace_fn \<Rightarrow> (decoder, obj) comp" where
  "decode_object java_lite emp =
     and_then dec_byte_available (\<lambda>n. decode_object_fuel java_lite emp (Suc n))"

text \<open>\<open>encode(const Object&)\<close>; \<open>oor\<close> is the conversion of a double that does not fit \<open>int32_t\<close>.\<close>

function encode_object :: "bool \<Rightarrow> (f64 \<Rightarrow> i32) \<Rightarrow> obj \<Rightarrow> (encoder, bool) comp" where
  "encode_object java_lite oor p = (case p of
     Binary_Obj bs \<Rightarrow> encode_bytes bs
   | Boolean_Obj b \<Rightarrow> encode_bool b
   | Date_Obj t \<Rightarrow> encode_milliseconds t
   | Double_Obj x \<Rightarrow> encode_double oor x
   | Integer_Obj i \<Rightarrow> encode_i32 i
   | Long_Obj l \<Rightarrow> encode_i64 l
   | Null_Obj \<Rightarrow> encode_null
   | Ref_Obj a \<Rightarrow> encode_ref (Some a)
   | String_Obj s \<Rightarrow> encode_string java_lite s
   | Typed_List a ty vs \<Rightarrow> encode_typed_list java_lite (\<lambda>v. encode_object java_lite oor v) a ty vs
   | Untyped_List a vs \<Rightarrow> encode_untyped_list (\<lambda>v. encode_object java_lite oor v) a vs
   | Typed_Map a ty kvs \<Rightarrow> encode_typed_map java_lite (\<lambda>v. encode_object java_lite oor v) a ty kvs
   | Untyped_Map a kvs \<Rightarrow> encode_untyped_map (\<lambda>v. encode_object java_lite oor v) a kvs
   | Class_Instance a df vs \<Rightarrow> encode_class_instance java_lite (\<lambda>v. encode_object java_lite oor v) a df vs)"
  by pat_completeness auto
termination
  by (relation "measure (\<lambda>(java_lite, oor, p). size p)")
    (auto dest!: size_in_entries size_in_list simp: less_Suc_eq_le)

declare encode_object.simps [simp del]

lemma encode_object_simps [simp]:
  "encode_object java_lite oor (Binary_Obj bs) = encode_bytes bs"
  "encode_object java_lite oor (Boolean_Obj b) = encode_bool b"
  "encode_object java_lite oor (Date_Obj t) = encode_milliseconds t"
  "encode_object java_lite oor (Double_Obj x) = encode_double oor x"
  "encode_object java_lite oor (Integer_Obj i) = encode_i32 i"
  "encode_object java_lite oor (Long_Obj l) = encode_i64 l"
  "encode_object java_lite oor Null_Obj = encode_null"
  "encode_object java_lite oor (Ref_Obj a) = encode_ref (Some a)"
  "encode_object java_lite oor (String_Obj s) = encode_string java_lite s"
  "encode_object java_lite oor (Typed_List a ty vs) =
     encode_typed_list java_lite (encode_object java_lite oor) a ty vs"
  "encode_object java_lite oor (Untyped_List a vs) = encode_untyped_list (encode_object java_lite oor) a vs"
  "encode_object java_lite oor (Typed_Map a ty kvs) =
     encode_typed_map java_lite (encode_object java_lite oor) a ty kvs"
  "encode_object java_lite oor (Untyped_Map a kvs) = encode_untyped_map (encode_object java_lite oor) a kvs"
  "encode_object java_lite oor (Class_Instance a df vs) =
     encode_class_instance java_lite (encode_object java_lite oor) a df vs"
  by (simp_all add: encode_object.simps)

end
