(* ===== verification/Object_Safety.thy ===== *)
theory Object_Safety
  imports Object_Codec
begin

text \<open>
  The object decoder returns on every input, and stays within the buffer: every object it returns
  has at least one byte, so the fuel of \<open>decode_object\<close>, one more than the number of unread bytes,
  is never used up.
\<close>

section \<open>Progress\<close>

text \<open>\<open>eats n m\<close>: on at most \<open>n\<close> unread bytes, \<open>m\<close> returns a value only after reading a byte.\<close>

definition eats :: "nat \<Rightarrow> (decoder, 'v) comp \<Rightarrow> bool" where
  "eats n m \<longleftrightarrow> (\<forall>d v d'. wf_decoder d \<longrightarrow> length (unread d) \<le> n \<longrightarrow> m d = (Ret v, d') \<longrightarrow>
     length (unread d') < length (unread d))"

named_theorems eats_intros \<open>introduction rules for eats\<close>

lemma eatsD:
  "eats n m \<Longrightarrow> wf_decoder d \<Longrightarrow> length (unread d) \<le> n \<Longrightarrow> m d = (Ret v, d') \<Longrightarrow>
    length (unread d') < length (unread d)"
  by (auto simp: eats_def)

lemma eats_basic [eats_intros]: "eats n nullptr" "eats n abort"
  by (simp_all add: eats_def)

lemma eats_if [eats_intros]: "(b \<Longrightarrow> eats n m) \<Longrightarrow> (\<not> b \<Longrightarrow> eats n m') \<Longrightarrow> eats n (if b then m else m')"
  by simp

lemma eats_then_left:
  assumes m: "eats n m" "well_run True n m" and f: "\<And>x. well_run True n (f x)"
  shows "eats n (and_then m f)"
  unfolding eats_def
proof (intro allI impI)
  fix d v d' assume d: "wf_decoder d" "length (unread d) \<le> n" and run: "and_then m f d = (Ret v, d')"
  from run obtain x d1 where x: "m d = (Ret x, d1)" "f x d1 = (Ret v, d')" by (rule and_then_RetE)
  have "length (unread d1) < length (unread d)" by (rule eatsD [OF m(1) d x(1)])
  moreover from this have "length (unread d') \<le> length (unread d1)"
    using well_runD(3) [OF m(2) d x(1)] d(2) by (intro well_runD(5) [OF f _ _ x(2)]) simp_all
  ultimately show "length (unread d') < length (unread d)" by simp
qed

lemma eats_then_right:
  assumes m: "well_run True n m" and f: "\<And>x. eats n (f x)"
  shows "eats n (and_then m f)"
  unfolding eats_def
proof (intro allI impI)
  fix d v d' assume d: "wf_decoder d" "length (unread d) \<le> n" and run: "and_then m f d = (Ret v, d')"
  from run obtain x d1 where x: "m d = (Ret x, d1)" "f x d1 = (Ret v, d')" by (rule and_then_RetE)
  have "length (unread d1) \<le> length (unread d)" by (rule well_runD(5) [OF m d x(1)])
  moreover from this have "length (unread d') < length (unread d1)"
    using well_runD(3) [OF m d x(1)] d(2) by (intro eatsD [OF f _ _ x(2)]) simp_all
  ultimately show "length (unread d') < length (unread d)" by simp
qed

lemma eats_read_u8:
  assumes "eats n (f (False, 0))" and "\<And>b. 0 < n \<Longrightarrow> well_run True (n - 1) (f (True, b))"
  shows "eats n (and_then dec_read_u8 f)"
  unfolding eats_def
proof (intro allI impI)
  fix d v d' assume d: "wf_decoder d" "length (unread d) \<le> n" and run: "and_then dec_read_u8 f d = (Ret v, d')"
  show "length (unread d') < length (unread d)"
  proof (cases "unread d")
    case Nil
    with run d have "f (False, 0) d = (Ret v, d')" by (simp add: and_then_def dec_read_u8_run)
    then show ?thesis by (rule eatsD [OF assms(1) d])
  next
    case (Cons b bs)
    with run d have "f (True, b) (advance 1 d) = (Ret v, d')" by (simp add: and_then_def dec_read_u8_run)
    moreover have "wf_decoder (advance 1 d)" "length (unread (advance 1 d)) \<le> n - 1" "0 < n"
      using Cons d by auto
    ultimately have "length (unread d') \<le> length (unread (advance 1 d))"
      using well_runD(5) [OF assms(2)] by blast
    then show ?thesis using Cons by simp
  qed
qed

lemma be_val_single: "be_val [b] = unat b"
  by (simp add: be_val_def)

text \<open>Reading one byte with \<open>readBE\<close> is reading a byte.\<close>

lemma eats_readBE_u8:
  assumes "eats n (f (False, 0 :: u8))" and "\<And>b. well_run True (n - 1) (f (True, b))"
  shows "eats n (and_then dec_readBE f)"
proof -
  have run: "and_then dec_readBE f d = and_then dec_read_u8 f d" if "wf_decoder d" for d
    using that dec_readBE_run [of d, where 'a = 8]
    by (cases "unread d") (simp_all add: and_then_def dec_read_u8_run be_val_single)
  from eats_read_u8 [OF assms] show ?thesis unfolding eats_def by (simp add: run)
qed

lemma eats_with_fuel: "(\<And>n. eats n (f n)) \<Longrightarrow> eats k (and_then dec_byte_available f)"
  unfolding eats_def by (auto simp: and_then_def)

subsection \<open>The decoders of the leaves\<close>

lemma eats_decode_bool [eats_intros]: "eats n decode_bool"
  unfolding decode_bool_def
proof (rule eats_read_u8)
  show "eats n (let code = snd (False, 0 :: u8) in if code = 0x46 then ret False
     else if code = 0x54 then ret True else and_then (set_error UNEXPECTED_TYPE) (\<lambda>_. nullptr))"
    by (simp add: set_error_def eats_def)
qed (auto simp: Let_def set_error_def intro!: well_run_safe safe_intros)

lemma eats_decode_i32 [eats_intros]: "eats n decode_i32"
  unfolding decode_i32_def Let_def
  by (rule eats_readBE_u8) (simp add: eats_basic, intro well_run_safe safe_intros, simp_all)

lemma eats_decode_i64 [eats_intros]: "eats n decode_i64"
  unfolding decode_i64_def Let_def
  by (rule eats_readBE_u8) (simp add: eats_basic, intro well_run_safe safe_intros, simp_all)

lemma eats_decode_double [eats_intros]: "eats n decode_double"
  unfolding decode_double_def Let_def readBE_double4_def readBE_double8_def
  by (rule eats_readBE_u8)
    (simp add: eats_basic, (intro well_run_safe safe_guarded_read safe_intros; simp add: safe_basic))

lemma eats_decode_milliseconds [eats_intros]: "eats n decode_milliseconds"
  unfolding decode_milliseconds_def readDate_def Let_def
proof (rule eats_read_u8)
  have m: "safe (of_defined (duration_cast minutes milliseconds (word_of_int (sint (w :: i32)))))" for w
    by (simp add: minutes_to_millis safe_basic del: of_int_sint)
  have ms: "safe (of_defined (duration_cast milliseconds milliseconds w))" for w
    by (simp add: duration_cast_same safe_basic)
  show "well_run True (n - 1) (if snd (True, b) = 0x4b then
       and_then dec_byte_available (\<lambda>n. if n < 4 then nullptr else
       and_then dec_readBE (\<lambda>b :: bool \<times> i32.
         of_defined (duration_cast minutes milliseconds (word_of_int (sint (snd b))))))
     else if snd (True, b) = 0x4a then
       and_then dec_byte_available (\<lambda>n. if n < 8 then nullptr else
       and_then dec_readBE (\<lambda>b :: bool \<times> i64.
         of_defined (duration_cast milliseconds milliseconds (snd b))))
     else nullptr)" for b
    by (intro well_run_safe safe_intros m ms) simp_all
qed (simp add: eats_basic)

lemma eats_decode_string [eats_intros]: "eats n (decode_string java_lite)"
  unfolding decode_string_def
proof (rule eats_with_fuel)
  fix n
  have chunk: "well_run True (n - Suc 0) (readChunkString (decodeStringWithReader n) st len final)"
    if "0 < n" for st len final
    using that by (intro well_run_readChunkString well_run_decodeStringWithReader) simp
  have "eats n (decodeStringWithReader (Suc n) ([], False))"
    unfolding decodeStringWithReader.simps Let_def
    by (rule eats_read_u8)
      (auto intro!: chunk eats_basic well_run_intros well_run_safe [OF safe_basic(2)]
        well_run_safe [OF safe_read_u8] well_run_safe [OF safe_readBE])
  then show "eats n (and_then (decodeStringWithReader (Suc n) ([], False)) (\<lambda>st.
      if java_lite \<and> snd st then
        (let new_out = unescapeFourBytesUtf8Char (fst st)
         in if new_out = [] then nullptr else ret new_out)
      else ret (fst st)))"
    by (intro eats_then_left well_run_decodeStringWithReader) (auto intro!: well_run_safe safe_intros)
qed

lemma eats_decode_bytes [eats_intros]: "eats n decode_bytes"
  unfolding decode_bytes_def
proof (rule eats_with_fuel)
  fix n
  have chunk: "well_run True (n - Suc 0) (readBytes (decodeBytesWithReader n) out len final)"
    if "0 < n" for out len final
    using that by (intro well_run_readBytes well_run_decodeBytesWithReader) simp
  show "eats n (decodeBytesWithReader (Suc n) [])"
    unfolding decodeBytesWithReader.simps Let_def
    by (rule eats_read_u8)
      (auto intro!: chunk eats_basic well_run_intros well_run_safe [OF safe_basic(2)]
        well_run_safe [OF safe_read_u8] well_run_safe [OF safe_readBE])
qed

lemma eats_decode_definition [eats_intros]: "eats n (decode_definition java_lite)"
  unfolding decode_definition_def Let_def
  by (rule eats_read_u8)
    (simp add: eats_basic, (intro well_run_intros well_run_decode_field_names well_run_safe
      safe_decode_i32 safe_intros; simp))

lemma eats_find_definition [eats_intros]: "eats n (find_definition java_lite)"
  unfolding find_definition_def
  by (intro eats_then_right eats_intros well_run_intros well_run_decode_definition well_run_safe
      safe_intros)

lemma eats_decode_ref [eats_intros]: "eats n decode_ref"
  unfolding decode_ref_def
  by (rule eats_read_u8)
    (auto intro!: eats_basic well_run_intros well_run_safe safe_intros safe_decode_i32)

lemma eats_decode_null [eats_intros]: "eats n decode_null"
  unfolding decode_null_def
  by (rule eats_read_u8) (auto intro!: eats_basic well_run_intros well_run_safe safe_basic)

section \<open>The containers\<close>

text \<open>\<open>starts n m\<close>: both of \<open>well_run\<close> and \<open>eats\<close>.\<close>

definition starts :: "nat \<Rightarrow> (decoder, 'v) comp \<Rightarrow> bool" where
  "starts n m \<longleftrightarrow> well_run True n m \<and> eats n m"

lemma starts_run: "starts n m \<Longrightarrow> well_run True n m" "starts n m \<Longrightarrow> eats n m"
  by (simp_all add: starts_def)

lemma starts_then:
  assumes m: "starts n m" and f: "\<And>x. 0 < n \<Longrightarrow> well_run True (n - 1) (f x)"
  shows "starts n (and_then m f)"
  unfolding starts_def well_run_def eats_def
proof (intro conjI allI impI)
  fix d assume d: "wf_decoder d" "length (unread d) \<le> n"
  have rest: "0 < n" "wf_decoder d1" "length (unread d1) \<le> n - 1" "length (unread d1) < length (unread d)"
    if "m d = (Ret x, d1)" for x d1
    using eatsD [OF starts_run(2) [OF m] d that] well_runD(3) [OF starts_run(1) [OF m] d that] d(2) by auto
  show "length (unread d') < length (unread d)" if run: "and_then m f d = (Ret v, d')" for v d'
  proof -
    from run obtain x d1 where x: "m d = (Ret x, d1)" "f x d1 = (Ret v, d')" by (rule and_then_RetE)
    note r = rest [OF x(1)]
    from well_runD(5) [OF f [OF r(1)] r(2,3) x(2)] r(4) show ?thesis by simp
  qed
  fix r d' assume run: "and_then m f d = (r, d')"
  obtain r1 d1 where m1: "m d = (r1, d1)" by (cases "m d")
  note s1 = well_runD [OF starts_run(1) [OF m] d m1]
  have "r \<noteq> Hang \<and> wf_decoder d' \<and> (\<exists>j. unread d' = drop j (unread d))"
  proof (cases r1)
    case (Ret x)
    with m1 have x: "m d = (Ret x, d1)" by simp
    then have "f x d1 = (r, d')" using run by (simp add: and_then_def)
    from well_runD [OF f [OF rest(1) [OF x]] rest(2,3) [OF x] this] s1(4) show ?thesis
      by (auto simp: drop_drop)
  qed (use run m1 s1 in \<open>auto simp: and_then_def\<close>)
  then show "r \<noteq> Hang" "wf_decoder d'" "\<exists>j. unread d' = drop j (unread d)" by simp_all
qed simp

lemma starts_after: "well_run True n m \<Longrightarrow> (\<And>x. starts n (f x)) \<Longrightarrow> starts n (and_then m f)"
  unfolding starts_def by (intro conjI well_run_and_then eats_then_right) simp_all

lemma starts_read_u8:
  "starts n (f (False, 0)) \<Longrightarrow> (\<And>b. 0 < n \<Longrightarrow> well_run True (n - 1) (f (True, b))) \<Longrightarrow>
    starts n (and_then dec_read_u8 f)"
  unfolding starts_def by (intro conjI well_run_read_u8_then eats_read_u8) auto

lemma starts_if: "starts n m \<Longrightarrow> starts n m' \<Longrightarrow> starts n (if b then m else m')"
  by simp

lemma starts_fails: "starts n nullptr" "starts n abort"
  by (auto simp: starts_def eats_basic intro: well_run_safe safe_basic well_run_abort)

lemma well_run_eats_then:
  "eats n m \<Longrightarrow> well_run True n m \<Longrightarrow> (\<And>x. 0 < n \<Longrightarrow> well_run True (n - 1) (f x)) \<Longrightarrow>
    well_run True n (and_then m f)"
  by (rule starts_run(1), rule starts_then) (simp_all add: starts_def)

lemma eats_mono: "eats n m \<Longrightarrow> k \<le> n \<Longrightarrow> eats k m"
  by (auto simp: eats_def)

lemma safe_new_ref [safe_intros]: "safe new_ref"
  by (auto simp: safe_def new_ref_def wf_decoder_def unread_def intro: exI [of _ 0])

lemmas well_run_leaf = safe_basic [THEN well_run_safe] safe_peek_u8 [THEN well_run_safe]
  safe_read_u8 [THEN well_run_safe] safe_new_ref [THEN well_run_safe]
  safe_decode_type_ref [THEN well_run_safe] safe_decode_i32 [THEN well_run_safe]
  safe_decode_i64 [THEN well_run_safe] safe_decode_bool [THEN well_run_safe]
  safe_decode_double [THEN well_run_safe] safe_decode_milliseconds [THEN well_run_safe]
  safe_decode_string [THEN well_run_safe] safe_decode_bytes [THEN well_run_safe]
  well_run_decode_ref well_run_decode_definition well_run_find_definition

lemma well_run_decode_null: "well_run True n decode_null"
  unfolding decode_null_def by (intro well_run_intros well_run_leaf)

lemma well_run_dead: "well_run True n (modify (\<lambda>d. d\<lparr>d_dead := f (d_dead d)\<rparr>))"
  by (rule well_run_safe) (simp add: safe_modify)

lemma well_run_read_nums: "well_run True n dec \<Longrightarrow> well_run True n (read_nums dec c acc)"
  by (induction c arbitrary: acc) (auto intro!: well_run_intros well_run_leaf)

lemma well_run_read_until_end:
  "n < k \<Longrightarrow> well_run True n dec \<Longrightarrow> eats n dec \<Longrightarrow> well_run True n (read_until_end dec k acc)"
proof (induction k arbitrary: n acc)
  case (Suc k)
  have "well_run True (n - 1) (read_until_end dec k acc')" if "0 < n" for acc'
    using Suc.prems that by (intro Suc.IH) (auto intro: well_run_mono eats_mono)
  then show ?case
    unfolding read_until_end.simps
    by (intro well_run_if well_run_and_then [of _ _ dec_peek_u8] well_run_and_then [of _ _ dec_read_u8]
        well_run_eats_then [of _ dec] Suc.prems well_run_leaf)
qed simp

lemma well_run_insert_entry: "well_run True n (insert_entry emp kvs key val)"
  by (auto simp: well_run_def insert_entry_def Let_def wf_decoder_def unread_def split: if_splits
      intro: exI [of _ 0])

lemma well_run_read_entries:
  "n < k \<Longrightarrow> well_run True n dec \<Longrightarrow> eats n dec \<Longrightarrow> well_run True n (read_entries emp dec k kvs)"
proof (induction k arbitrary: n kvs)
  case (Suc k)
  have "well_run True (n - 1) (read_entries emp dec k kvs')" if "0 < n" for kvs'
    using Suc.prems that by (intro Suc.IH) (auto intro: well_run_mono eats_mono)
  moreover have "well_run True (n - 1) dec" using Suc.prems by (auto intro: well_run_mono)
  ultimately have "well_run True (n - 1) (and_then dec (\<lambda>val.
      and_then (insert_entry emp kvs key val) (\<lambda>kvs'. read_entries emp dec k kvs')))" if "0 < n" for key
    using that by (intro well_run_and_then well_run_insert_entry)
  then have "well_run True n (and_then dec (\<lambda>key. and_then dec (\<lambda>val.
      and_then (insert_entry emp kvs key val) (\<lambda>kvs'. read_entries emp dec k kvs'))))"
    by (rule well_run_eats_then [OF Suc.prems(3,2)])
  then show ?case
    unfolding read_entries.simps
    by (intro well_run_if well_run_and_then [of _ _ dec_peek_u8] well_run_and_then [of _ _ dec_read_u8]
        well_run_leaf)
qed simp

lemma dec_after_one:
  assumes "\<And>m. m < k \<Longrightarrow> starts m dec" and "n < Suc k" and "0 < n"
  shows "well_run True (n - 1) dec" "eats (n - 1) dec" "n - 1 < k"
  using assms by (auto simp: starts_def)

lemma starts_containers:
  assumes "\<And>m. m < k \<Longrightarrow> starts m dec" and "n < Suc k"
  shows "starts n (decode_typed_list java_lite dec k) \<and> starts n (decode_untyped_list dec k)
    \<and> starts n (decode_typed_map java_lite emp dec k) \<and> starts n (decode_untyped_map emp dec k)"
proof -
  note dec = dec_after_one [OF assms]
  show ?thesis
    unfolding decode_typed_list_def decode_untyped_list_def decode_typed_map_def decode_untyped_map_def Let_def
    by (intro conjI starts_after [of _ new_ref] starts_read_u8 well_run_leaf)
      (simp_all add: starts_fails del: One_nat_def,
       (intro well_run_if well_run_and_then well_run_read_until_end well_run_read_nums
          well_run_read_entries well_run_leaf well_run_abort impI conjI dec; assumption?)+)
qed

lemma starts_leaves:
  "starts n decode_bool" "starts n decode_i32" "starts n decode_i64" "starts n decode_double"
  "starts n decode_milliseconds" "starts n (decode_string java_lite)" "starts n decode_bytes"
  "starts n (decode_definition java_lite)" "starts n (find_definition java_lite)" "starts n decode_ref"
  "starts n decode_null"
  unfolding starts_def by (intro conjI eats_intros well_run_leaf well_run_decode_null)+

lemma starts_decode_class_instance:
  assumes "\<And>m. m < k \<Longrightarrow> starts m dec" and "n < Suc k"
  shows "starts n (decode_class_instance java_lite dec)"
  unfolding decode_class_instance_def
  by (intro starts_after [of _ new_ref] starts_after [of _ "modify _"] starts_then starts_leaves
      well_run_and_then well_run_read_nums well_run_dead well_run_leaf dec_after_one(1) [OF assms])

lemma starts_decode_object_fuel: "n < k \<Longrightarrow> starts n (decode_object_fuel java_lite emp k)"
proof (induction k arbitrary: n)
  case (Suc k)
  note containers = starts_containers [OF Suc.IH Suc.prems]
  show ?case
    unfolding decode_object_fuel.simps Let_def
    by (intro starts_after [of _ dec_peek_u8] starts_if starts_fails starts_leaves starts_then
        containers [THEN conjunct1] containers [THEN conjunct2, THEN conjunct1]
        containers [THEN conjunct2, THEN conjunct2, THEN conjunct1]
        containers [THEN conjunct2, THEN conjunct2, THEN conjunct2]
        starts_decode_class_instance [OF Suc.IH Suc.prems] well_run_leaf
        dec_after_one(1) [OF Suc.IH Suc.prems])
qed simp

section \<open>More fuel\<close>

text \<open>\<open>extends m m'\<close>: where \<open>m\<close> does not run out of fuel, \<open>m'\<close> does the same.\<close>

definition extends :: "(decoder, 'v) comp \<Rightarrow> (decoder, 'v) comp \<Rightarrow> bool" where
  "extends m m' \<longleftrightarrow> (\<forall>d. fst (m d) \<noteq> Hang \<longrightarrow> m' d = m d)"

lemma extends_refl: "extends m m"
  by (simp add: extends_def)

lemma extends_hang: "extends hang m"
  by (simp add: extends_def)

lemma extends_and_then:
  assumes m: "extends m m'" and f: "\<And>x. extends (f x) (f' x)"
  shows "extends (and_then m f) (and_then m' f')"
  unfolding extends_def
proof (intro allI impI)
  fix d assume h: "fst (and_then m f d) \<noteq> Hang"
  obtain r d1 where r: "m d = (r, d1)" by (cases "m d")
  with h have "r \<noteq> Hang" by (auto simp: and_then_def)
  then have m': "m' d = (r, d1)" using m r by (auto simp: extends_def)
  show "and_then m' f' d = and_then m f d"
    using h r m' f by (cases r) (auto simp: and_then_def extends_def)
qed

lemma extends_if: "extends m m' \<Longrightarrow> extends n n' \<Longrightarrow> extends (if b then m else n) (if b then m' else n')"
  by simp

lemma extends_read_nums: "extends dec dec' \<Longrightarrow> extends (read_nums dec c acc) (read_nums dec' c acc)"
  by (induction c arbitrary: acc) (simp_all add: extends_refl extends_and_then)

lemma extends_read_until_end:
  "extends dec dec' \<Longrightarrow> k \<le> k' \<Longrightarrow> extends (read_until_end dec k acc) (read_until_end dec' k' acc)"
proof (induction k arbitrary: k' acc)
  case (Suc k)
  then obtain j where "k' = Suc j" "k \<le> j" by (cases k') auto
  with Suc show ?case by (auto intro!: extends_and_then extends_refl)
qed (simp add: extends_hang)

lemma extends_read_entries:
  "extends dec dec' \<Longrightarrow> k \<le> k' \<Longrightarrow> extends (read_entries emp dec k kvs) (read_entries emp dec' k' kvs)"
proof (induction k arbitrary: k' kvs)
  case (Suc k)
  then obtain j where "k' = Suc j" "k \<le> j" by (cases k') auto
  with Suc show ?case by (auto intro!: extends_and_then extends_refl)
qed (simp add: extends_hang)

lemma extends_decode_object_fuel:
  "k \<le> k' \<Longrightarrow> extends (decode_object_fuel java_lite emp k) (decode_object_fuel java_lite emp k')"
proof (induction k arbitrary: k')
  case (Suc k)
  then obtain j where j: "k' = Suc j" "k \<le> j" by (cases k') auto
  note dec = Suc.IH [OF j(2)]
  show ?case
    unfolding j(1) decode_object_fuel.simps Let_def decode_typed_list_def decode_untyped_list_def
      decode_typed_map_def decode_untyped_map_def decode_class_instance_def
    by (intro extends_refl extends_if extends_and_then dec extends_read_nums
        extends_read_until_end [OF dec j(2)] extends_read_entries [OF dec j(2)])
qed (simp add: extends_hang)

section \<open>Properties\<close>

lemma decode_object_eq:
  "wf_decoder d \<Longrightarrow> decode_object java_lite emp d = decode_object_fuel java_lite emp (Suc (length (unread d))) d"
  by (simp add: decode_object_def and_then_def del: decode_object_fuel.simps)

lemma decode_object_run:
  assumes "wf_decoder d" and "decode_object java_lite emp d = (r, d')"
  shows "r \<noteq> Hang" "wf_decoder d'" "\<exists>j. unread d' = drop j (unread d)"
    "r = Ret v \<Longrightarrow> length (unread d') < length (unread d)"
proof -
  have run: "decode_object_fuel java_lite emp (Suc (length (unread d))) d = (r, d')"
    using assms by (simp add: decode_object_eq del: decode_object_fuel.simps)
  have s: "starts (length (unread d)) (decode_object_fuel java_lite emp (Suc (length (unread d))))"
    by (rule starts_decode_object_fuel) simp
  show "r \<noteq> Hang" "wf_decoder d'" "\<exists>j. unread d' = drop j (unread d)"
    using well_runD [OF starts_run(1) [OF s] assms(1) order_refl run] by auto
  show "r = Ret v \<Longrightarrow> length (unread d') < length (unread d)"
    using eatsD [OF starts_run(2) [OF s] assms(1) order_refl] run by simp
qed

text \<open>
  C3. Decoding an object ends on every input: a value, a null pointer or an abort, with any hash
  table and in either string mode. The fuel of the model is never used up.
\<close>

theorem decode_object_terminates:
  assumes "wf_decoder d"
  shows "fst (decode_object java_lite emp d) \<noteq> Hang"
  using assms decode_object_run(1) by (metis prod.collapse)

theorem decode_object_terminates_witness:
  "fst (decode_object False (append_entry (\<lambda>_. 0)) (new_decoder [0x57, 0x57, 0x57])) \<noteq> Hang"
  by (rule decode_object_terminates) simp





end
