(* ===== verification/Object_Grammar.thy ===== *)
theory Object_Grammar
  imports Object_Safety
begin

text \<open>
  The serialization format as a grammar, after the productions in the comments of the codecs and
  of Hessian 2.0: which texts stand for an object, whatever form a writer chooses. A text is read
  in the context of the tables that both sides keep (\<open>tables\<close>), and changes them. The object
  decoder implements the grammar, and the object encoder writes one of its texts; the round trip
  of objects follows.
\<close>

section \<open>The grammar\<close>

text \<open>Values without parts.\<close>

inductive leaf_text :: "bool \<Rightarrow> bytes \<Rightarrow> obj \<Rightarrow> bool" for java_lite where
  null: "leaf_text java_lite [0x4e] Null_Obj"
| true: "leaf_text java_lite [0x54] (Boolean_Obj True)"
| false: "leaf_text java_lite [0x46] (Boolean_Obj False)"
| int_1: "- 0x10 \<le> x \<Longrightarrow> x \<le> 0x2f \<Longrightarrow> uint b = x + 0x90 \<Longrightarrow>
    leaf_text java_lite [b] (Integer_Obj (word_of_int x))"
| int_2: "- 0x800 \<le> x \<Longrightarrow> x \<le> 0x7ff \<Longrightarrow> uint b = 0xc8 + x div 256 \<Longrightarrow>
    leaf_text java_lite [b, word_of_int x] (Integer_Obj (word_of_int x))"
| int_3: "- 0x40000 \<le> x \<Longrightarrow> x \<le> 0x3ffff \<Longrightarrow> uint b = 0xd4 + x div 65536 \<Longrightarrow>
    leaf_text java_lite [b, word_of_int (x div 256), word_of_int x] (Integer_Obj (word_of_int x))"
| int_5: "leaf_text java_lite (0x49 # be_bytes 4 (unat i)) (Integer_Obj i)"
| long_1: "- 0x08 \<le> x \<Longrightarrow> x \<le> 0x0f \<Longrightarrow> uint b = x + 0xe0 \<Longrightarrow>
    leaf_text java_lite [b] (Long_Obj (word_of_int x))"
| long_2: "- 0x800 \<le> x \<Longrightarrow> x \<le> 0x7ff \<Longrightarrow> uint b = 0xf8 + x div 256 \<Longrightarrow>
    leaf_text java_lite [b, word_of_int x] (Long_Obj (word_of_int x))"
| long_3: "- 0x40000 \<le> x \<Longrightarrow> x \<le> 0x3ffff \<Longrightarrow> uint b = 0x3c + x div 65536 \<Longrightarrow>
    leaf_text java_lite [b, word_of_int (x div 256), word_of_int x] (Long_Obj (word_of_int x))"
| long_5: "- 0x80000000 \<le> x \<Longrightarrow> x \<le> 0x7fffffff \<Longrightarrow>
    leaf_text java_lite (0x59 # be_bytes 4 (unat (word_of_int x :: i32))) (Long_Obj (word_of_int x))"
| long_9: "leaf_text java_lite (0x4c # be_bytes 8 (unat l)) (Long_Obj l)"
| double_zero: "leaf_text java_lite [0x5b] (Double_Obj (f64_of_int 0))"
| double_one: "leaf_text java_lite [0x5c] (Double_Obj (f64_of_int 1))"
| double_byte: "- 0x80 \<le> x \<Longrightarrow> x < 0x80 \<Longrightarrow> leaf_text java_lite [0x5d, word_of_int x] (Double_Obj (f64_of_int x))"
| double_short: "- 0x8000 \<le> x \<Longrightarrow> x < 0x8000 \<Longrightarrow>
    leaf_text java_lite [0x5e, word_of_int (x div 256), word_of_int x] (Double_Obj (f64_of_int x))"
| double_mill: "leaf_text java_lite (0x5f # be_bytes 4 (unat (w :: i32))) (Double_Obj (f64_mul_001 (sint w)))"
| double_full: "leaf_text java_lite (0x44 # be_bytes 8 (unat v)) (Double_Obj v)"
| date_ms: "leaf_text java_lite (0x4a # be_bytes 8 (unat t)) (Date_Obj t)"
| date_min: "leaf_text java_lite (0x4b # be_bytes 4 (unat (w :: i32))) (Date_Obj (word_of_int (sint w * 60000)))"
| binary: "binary_ok b \<Longrightarrow> leaf_text java_lite (binary_text b) (Binary_Obj (binary_value b))"
| string: "text_ok t \<Longrightarrow> readable java_lite (text_chars t) \<Longrightarrow>
    leaf_text java_lite (text_bytes t) (String_Obj (read_chars java_lite (text_chars t)))"

definition count_text :: "bytes \<Rightarrow> nat \<Rightarrow> bool" where
  "count_text bs n \<longleftrightarrow> n < 2 ^ 31 \<and> leaf_text False bs (Integer_Obj (of_nat n))"

text \<open>A name in full, which adds it to the table, or its index there.\<close>

inductive type_text_of :: "bool \<Rightarrow> tables \<Rightarrow> bytes \<Rightarrow> bytes \<Rightarrow> tables \<Rightarrow> bool" for java_lite T where
  type_new: "leaf_text java_lite bs (String_Obj ty) \<Longrightarrow>
    type_text_of java_lite T bs ty (T\<lparr>t_types := t_types T @ [ty]\<rparr>)"
| type_index: "count_text bs i \<Longrightarrow> i < length (t_types T) \<Longrightarrow> type_text_of java_lite T bs (t_types T ! i) T"

text \<open>\<open>'C' string int string*\<close>, and a reference to a definition.\<close>

inductive strings_text :: "bool \<Rightarrow> bytes \<Rightarrow> bytes list \<Rightarrow> bool" for java_lite where
  strings_nil: "strings_text java_lite [] []"
| strings_cons: "leaf_text java_lite bs (String_Obj s) \<Longrightarrow> strings_text java_lite cs ss \<Longrightarrow>
    strings_text java_lite (bs @ cs) (s # ss)"

inductive class_def_text :: "bool \<Rightarrow> bytes \<Rightarrow> raw_definition \<Rightarrow> bool" for java_lite where
  class_def: "leaf_text java_lite ts (String_Obj (def_type df)) \<Longrightarrow> count_text ns (length (field_names df)) \<Longrightarrow>
    strings_text java_lite fs (field_names df) \<Longrightarrow> class_def_text java_lite (0x43 # ts @ ns @ fs) df"

inductive def_ref_text_of :: "tables \<Rightarrow> bytes \<Rightarrow> raw_definition \<Rightarrow> bool" for T where
  def_short: "i < length (t_defs T) \<Longrightarrow> unat b = 0x60 + i \<Longrightarrow> i \<le> 15 \<Longrightarrow> def_ref_text_of T [b] (t_defs T ! i)"
| def_long: "count_text bs i \<Longrightarrow> i < length (t_defs T) \<Longrightarrow> def_ref_text_of T (0x4f # bs) (t_defs T ! i)"

text \<open>A container gets the next address.\<close>

definition add_value :: "tables \<Rightarrow> tables" where
  "add_value T = T\<lparr>t_vals := t_vals T @ [length (t_vals T)]\<rparr>"

definition is_ref :: "obj \<Rightarrow> bool" where
  "is_ref p \<longleftrightarrow> (case p of Ref_Obj a \<Rightarrow> True | _ \<Rightarrow> False)"

inductive value_text :: "bool \<Rightarrow> emplace_fn \<Rightarrow> tables \<Rightarrow> bytes \<Rightarrow> obj \<Rightarrow> tables \<Rightarrow> bool"
  and values_text :: "bool \<Rightarrow> emplace_fn \<Rightarrow> tables \<Rightarrow> bytes \<Rightarrow> obj list \<Rightarrow> tables \<Rightarrow> bool"
  and entries_text :: "bool \<Rightarrow> emplace_fn \<Rightarrow> tables \<Rightarrow> bytes \<Rightarrow> (obj \<times> obj) list \<Rightarrow> tables \<Rightarrow> bool"
  for java_lite emp where
  leaf: "leaf_text java_lite bs v \<Longrightarrow> value_text java_lite emp T bs v T"
| ref: "count_text bs i \<Longrightarrow> i < length (t_vals T) \<Longrightarrow>
    value_text java_lite emp T (0x51 # bs) (Ref_Obj (t_vals T ! i)) T"
| typed_list_var: "type_text_of java_lite (add_value T) ts ty T1 \<Longrightarrow> values_text java_lite emp T1 bs vs T2 \<Longrightarrow>
    value_text java_lite emp T (0x55 # ts @ bs @ [0x5a]) (Typed_List (length (t_vals T)) ty vs) T2"
| typed_list_fixed: "type_text_of java_lite (add_value T) ts ty T1 \<Longrightarrow> values_text java_lite emp T1 bs vs T2 \<Longrightarrow>
    count_text ns (length vs) \<Longrightarrow>
    value_text java_lite emp T (0x56 # ts @ ns @ bs) (Typed_List (length (t_vals T)) ty vs) T2"
| typed_list_short: "type_text_of java_lite (add_value T) ts ty T1 \<Longrightarrow> values_text java_lite emp T1 bs vs T2 \<Longrightarrow>
    unat b = 0x70 + length vs \<Longrightarrow> length vs \<le> 7 \<Longrightarrow>
    value_text java_lite emp T (b # ts @ bs) (Typed_List (length (t_vals T)) ty vs) T2"
| untyped_list_var: "values_text java_lite emp (add_value T) bs vs T2 \<Longrightarrow>
    value_text java_lite emp T (0x57 # bs @ [0x5a]) (Untyped_List (length (t_vals T)) vs) T2"
| untyped_list_fixed: "values_text java_lite emp (add_value T) bs vs T2 \<Longrightarrow> count_text ns (length vs) \<Longrightarrow>
    value_text java_lite emp T (0x58 # ns @ bs) (Untyped_List (length (t_vals T)) vs) T2"
| untyped_list_short: "values_text java_lite emp (add_value T) bs vs T2 \<Longrightarrow>
    unat b = 0x78 + length vs \<Longrightarrow> length vs \<le> 7 \<Longrightarrow>
    value_text java_lite emp T (b # bs) (Untyped_List (length (t_vals T)) vs) T2"
| typed_map: "type_text_of java_lite (add_value T) ts ty T1 \<Longrightarrow> entries_text java_lite emp T1 bs kvs T2 \<Longrightarrow>
    value_text java_lite emp T (0x4d # ts @ bs @ [0x5a]) (Typed_Map (length (t_vals T)) ty (foldl emp [] kvs)) T2"
| untyped_map: "entries_text java_lite emp (add_value T) bs kvs T2 \<Longrightarrow>
    value_text java_lite emp T (0x48 # bs @ [0x5a]) (Untyped_Map (length (t_vals T)) (foldl emp [] kvs)) T2"
| defined: "class_def_text java_lite ds df \<Longrightarrow>
    value_text java_lite emp (T\<lparr>t_defs := t_defs T @ [df]\<rparr>) bs v T2 \<Longrightarrow>
    value_text java_lite emp T (ds @ bs) v T2"
| text_instance: "def_ref_text_of T ds df \<Longrightarrow> values_text java_lite emp (add_value T) bs vs T2 \<Longrightarrow>
    length vs = length (field_names df) \<Longrightarrow>
    value_text java_lite emp T (ds @ bs) (Class_Instance (length (t_vals T)) df vs) T2"
| values_nil: "values_text java_lite emp T [] [] T"
| values_cons: "value_text java_lite emp T bs v T1 \<Longrightarrow> values_text java_lite emp T1 cs vs T2 \<Longrightarrow>
    values_text java_lite emp T (bs @ cs) (v # vs) T2"
| entries_nil: "entries_text java_lite emp T [] [] T"
| entries_cons: "value_text java_lite emp T bs k T1 \<Longrightarrow> \<not> is_ref k \<Longrightarrow> value_text java_lite emp T1 cs v T2 \<Longrightarrow>
    entries_text java_lite emp T2 ds kvs T3 \<Longrightarrow>
    entries_text java_lite emp T (bs @ cs @ ds) ((k, v) # kvs) T3"

inductive_cases leaf_integerE: "leaf_text java_lite bs (Integer_Obj i)"
inductive_cases leaf_stringE: "leaf_text java_lite bs (String_Obj s)"

section \<open>The dispatch on the first byte\<close>

definition i64_code :: "u8 \<Rightarrow> bool" where
  "i64_code c \<longleftrightarrow> (0x38 \<le> c \<and> c \<le> 0x3f) \<or> 0xd8 \<le> c \<or> c = 0x59 \<or> c = 0x4c"

definition binary_code :: "u8 \<Rightarrow> bool" where
  "binary_code c \<longleftrightarrow> (0x20 \<le> c \<and> c \<le> 0x2f) \<or> (0x34 \<le> c \<and> c \<le> 0x37) \<or> c = 0x41 \<or> c = 0x42"

definition double_code :: "u8 \<Rightarrow> bool" where
  "double_code c \<longleftrightarrow> (0x5b \<le> c \<and> c \<le> 0x5f) \<or> c = 0x44"

definition bool_code :: "u8 \<Rightarrow> bool" where
  "bool_code c \<longleftrightarrow> c = 0x46 \<or> c = 0x54"

definition date_code :: "u8 \<Rightarrow> bool" where
  "date_code c \<longleftrightarrow> c = 0x4a \<or> c = 0x4b"

definition typed_list_code :: "u8 \<Rightarrow> bool" where
  "typed_list_code c \<longleftrightarrow> c = 0x56 \<or> c = 0x55 \<or> (0x70 \<le> c \<and> c \<le> 0x77)"

definition untyped_list_code :: "u8 \<Rightarrow> bool" where
  "untyped_list_code c \<longleftrightarrow> c = 0x57 \<or> c = 0x58 \<or> (0x78 \<le> c \<and> c \<le> 0x7f)"

definition instance_code :: "u8 \<Rightarrow> bool" where
  "instance_code c \<longleftrightarrow> c = 0x4f \<or> (0x60 \<le> c \<and> c \<le> 0x6f)"

lemmas code_defs = i32_code_def i64_code_def string_code_def binary_code_def double_code_def bool_code_def
  date_code_def typed_list_code_def untyped_list_code_def instance_code_def byte_compare

declare decode_object_fuel.simps [simp del]

text \<open>The chain of tests of \<open>decode_object_fuel\<close>, and the branch each class of codes selects.\<close>

abbreviation code_case ::
    "u8 \<Rightarrow> 'a \<Rightarrow> 'a \<Rightarrow> 'a \<Rightarrow> 'a \<Rightarrow> 'a \<Rightarrow> 'a \<Rightarrow> 'a \<Rightarrow> 'a \<Rightarrow> 'a \<Rightarrow> 'a \<Rightarrow> 'a \<Rightarrow> 'a \<Rightarrow> 'a \<Rightarrow> 'a \<Rightarrow> 'a \<Rightarrow> 'a \<Rightarrow> 'a" where
  "code_case c a1 a2 a3 a4 a5 a6 a7 a8 a9 a10 a11 a12 a13 a14 a15 a16 \<equiv>
    (if c = 0x4e then a1
     else if c = 0x46 \<or> c = 0x54 then a2
     else if c = 0x4a \<or> c = 0x4b then a3
     else if (0x5b \<le> c \<and> c \<le> 0x5f) \<or> c = 0x44 then a4
     else if c = 0x56 \<or> c = 0x55 \<or> (0x70 \<le> c \<and> c \<le> 0x77) then a5
     else if c = 0x57 \<or> c = 0x58 \<or> (0x78 \<le> c \<and> c \<le> 0x7f) then a6
     else if c = 0x4d then a7
     else if c = 0x48 then a8
     else if c = 0x43 then a9
     else if c = 0x4f \<or> (0x60 \<le> c \<and> c \<le> 0x6f) then a10
     else if c = 0x51 then a11
     else if c \<le> 0x1f \<or> (0x30 \<le> c \<and> c \<le> 0x33) \<or> c = 0x52 \<or> c = 0x53 then a12
     else if (0x20 \<le> c \<and> c \<le> 0x2f) \<or> (0x34 \<le> c \<and> c \<le> 0x37) \<or> c = 0x41 \<or> c = 0x42 then a13
     else if (0x38 \<le> c \<and> c \<le> 0x3f) \<or> (0xd8 \<le> c \<and> c \<le> 0xef) \<or> 0xf0 \<le> c
         \<or> c = 0x59 \<or> c = 0x4c then a14
     else if c = 0x49 \<or> (0x80 \<le> c \<and> c \<le> 0xbf) \<or> (0xc0 \<le> c \<and> c \<le> 0xcf)
         \<or> (0xd0 \<le> c \<and> c \<le> 0xd7) then a15
     else a16)"

lemma code_cases:
  "bool_code c \<Longrightarrow> code_case c a1 a2 a3 a4 a5 a6 a7 a8 a9 a10 a11 a12 a13 a14 a15 a16 = a2"
  "date_code c \<Longrightarrow> code_case c a1 a2 a3 a4 a5 a6 a7 a8 a9 a10 a11 a12 a13 a14 a15 a16 = a3"
  "double_code c \<Longrightarrow> code_case c a1 a2 a3 a4 a5 a6 a7 a8 a9 a10 a11 a12 a13 a14 a15 a16 = a4"
  "typed_list_code c \<Longrightarrow> code_case c a1 a2 a3 a4 a5 a6 a7 a8 a9 a10 a11 a12 a13 a14 a15 a16 = a5"
  "untyped_list_code c \<Longrightarrow> code_case c a1 a2 a3 a4 a5 a6 a7 a8 a9 a10 a11 a12 a13 a14 a15 a16 = a6"
  "instance_code c \<Longrightarrow> code_case c a1 a2 a3 a4 a5 a6 a7 a8 a9 a10 a11 a12 a13 a14 a15 a16 = a10"
  "string_code c \<Longrightarrow> code_case c a1 a2 a3 a4 a5 a6 a7 a8 a9 a10 a11 a12 a13 a14 a15 a16 = a12"
  "binary_code c \<Longrightarrow> code_case c a1 a2 a3 a4 a5 a6 a7 a8 a9 a10 a11 a12 a13 a14 a15 a16 = a13"
  "i64_code c \<Longrightarrow> code_case c a1 a2 a3 a4 a5 a6 a7 a8 a9 a10 a11 a12 a13 a14 a15 a16 = a14"
  "i32_code c \<Longrightarrow> code_case c a1 a2 a3 a4 a5 a6 a7 a8 a9 a10 a11 a12 a13 a14 a15 a16 = a15"
  unfolding code_defs by (elim disjE conjE; simp; arith?)+

lemma decode_object_reads:
  "reads (code_case c decode_null (and_then decode_bool (\<lambda>b. ret (Boolean_Obj b)))
      (and_then decode_milliseconds (\<lambda>t. ret (Date_Obj t))) (and_then decode_double (\<lambda>x. ret (Double_Obj x)))
      (decode_typed_list java_lite (decode_object_fuel java_lite emp k) k)
      (decode_untyped_list (decode_object_fuel java_lite emp k) k)
      (decode_typed_map java_lite emp (decode_object_fuel java_lite emp k) k)
      (decode_untyped_map emp (decode_object_fuel java_lite emp k) k)
      (and_then (decode_definition java_lite) (\<lambda>_. decode_object_fuel java_lite emp k))
      (decode_class_instance java_lite (decode_object_fuel java_lite emp k))
      (and_then decode_ref (\<lambda>a. ret (Ref_Obj a))) (and_then (decode_string java_lite) (\<lambda>s. ret (String_Obj s)))
      (and_then decode_bytes (\<lambda>bs. ret (Binary_Obj bs))) (and_then decode_i64 (\<lambda>l. ret (Long_Obj l)))
      (and_then decode_i32 (\<lambda>i. ret (Integer_Obj i))) nullptr) T (c # bs) v T' \<Longrightarrow>
    reads (decode_object_fuel java_lite emp (Suc k)) T (c # bs) v T'"
  unfolding decode_object_fuel.simps Let_def
  by (rule reads_peek_then) (simp only: fst_conv snd_conv not_True_eq_False if_False)

lemma object_leaf_codes:
  "i32_code c \<Longrightarrow> decodes decode_i32 (c # bs) i \<Longrightarrow>
    reads (decode_object_fuel java_lite emp (Suc k)) T (c # bs) (Integer_Obj i) T"
  "i64_code c \<Longrightarrow> decodes decode_i64 (c # bs) l \<Longrightarrow>
    reads (decode_object_fuel java_lite emp (Suc k)) T (c # bs) (Long_Obj l) T"
  "string_code c \<Longrightarrow> decodes (decode_string java_lite) (c # bs) s \<Longrightarrow>
    reads (decode_object_fuel java_lite emp (Suc k)) T (c # bs) (String_Obj s) T"
  "binary_code c \<Longrightarrow> decodes decode_bytes (c # bs) b \<Longrightarrow>
    reads (decode_object_fuel java_lite emp (Suc k)) T (c # bs) (Binary_Obj b) T"
  "double_code c \<Longrightarrow> decodes decode_double (c # bs) x \<Longrightarrow>
    reads (decode_object_fuel java_lite emp (Suc k)) T (c # bs) (Double_Obj x) T"
  "bool_code c \<Longrightarrow> decodes decode_bool (c # bs) t \<Longrightarrow>
    reads (decode_object_fuel java_lite emp (Suc k)) T (c # bs) (Boolean_Obj t) T"
  "date_code c \<Longrightarrow> decodes decode_milliseconds (c # bs) d \<Longrightarrow>
    reads (decode_object_fuel java_lite emp (Suc k)) T (c # bs) (Date_Obj d) T"
  by (rule decode_object_reads, simp only: code_cases,
      rule reads_then_pure [OF reads_decodes], assumption, rule reads_ret)+

lemma binary_text_first: "binary_ok b \<Longrightarrow> \<exists>c cs. binary_text b = c # cs \<and> binary_code c"
proof (cases b)
  case (Short_Block bs)
  moreover assume "binary_ok b"
  ultimately have "unat (of_nat (0x20 + length bs) :: u8) = 0x20 + length bs" "length bs < 16"
    using unat_of_nat_u8 [of "0x20 + length bs"] by simp_all
  then have "binary_code (of_nat (0x20 + length bs))" by (simp add: binary_code_def byte_compare del: of_nat_add)
  then show ?thesis using Short_Block by (simp del: of_nat_add)
next
  case (Medium_Block bs)
  moreover assume "binary_ok b"
  ultimately have q: "length bs div 256 < 4" by (simp add: less_mult_imp_div_less)
  then have "unat (of_nat (0x34 + length bs div 256) :: u8) = 0x34 + length bs div 256"
    by (intro unat_of_nat_u8) simp
  then have "binary_code (of_nat (0x34 + length bs div 256))"
    using q by (simp add: binary_code_def byte_compare del: of_nat_add)
  then show ?thesis using Medium_Block by (simp del: of_nat_add)
qed (simp_all add: binary_code_def)

text \<open>The class of the first byte of a leaf is that of its value.\<close>

definition leaf_code :: "obj \<Rightarrow> u8 \<Rightarrow> bool" where
  "leaf_code v c \<longleftrightarrow> (case v of Null_Obj \<Rightarrow> c = 0x4e | Boolean_Obj t \<Rightarrow> bool_code c
     | Integer_Obj i \<Rightarrow> i32_code c | Long_Obj l \<Rightarrow> i64_code c | Double_Obj x \<Rightarrow> double_code c
     | Date_Obj t \<Rightarrow> date_code c | Binary_Obj b \<Rightarrow> binary_code c | String_Obj s \<Rightarrow> string_code c
     | _ \<Rightarrow> False)"

definition decodes_leaf :: "bool \<Rightarrow> bytes \<Rightarrow> obj \<Rightarrow> bool" where
  "decodes_leaf java_lite bs v \<longleftrightarrow> (case v of Null_Obj \<Rightarrow> decodes decode_null bs Null_Obj
     | Boolean_Obj t \<Rightarrow> decodes decode_bool bs t
     | Integer_Obj i \<Rightarrow> decodes decode_i32 bs i | Long_Obj l \<Rightarrow> decodes decode_i64 bs l
     | Double_Obj x \<Rightarrow> decodes decode_double bs x
     | Date_Obj t \<Rightarrow> decodes decode_milliseconds bs t | Binary_Obj b \<Rightarrow> decodes decode_bytes bs b
     | String_Obj s \<Rightarrow> decodes (decode_string java_lite) bs s | _ \<Rightarrow> False)"

lemma uint_codes:
  "0x80 \<le> uint c \<Longrightarrow> uint c \<le> 0xd7 \<Longrightarrow> i32_code c"
  "0xd8 \<le> uint c \<Longrightarrow> i64_code c" "0x38 \<le> uint c \<Longrightarrow> uint c \<le> 0x3f \<Longrightarrow> i64_code c"
  by (simp_all add: i32_code_def i64_code_def word_le_def)

lemma leaf_text_first: "leaf_text java_lite bs v \<Longrightarrow> \<exists>c cs. bs = c # cs \<and> leaf_code v c"
proof (induction rule: leaf_text.induct)
  case (int_2 x b)
  then have "- 8 \<le> x div 256" "x div 256 < 8" by auto
  with int_2 show ?case by (simp add: leaf_code_def uint_codes)
next
  case (int_3 x b)
  then have "- 4 \<le> x div 65536" "x div 65536 < 4" by auto
  with int_3 show ?case by (simp add: leaf_code_def uint_codes)
next
  case (long_2 x b)
  then have "- 8 \<le> x div 256" "x div 256 < 8" by auto
  with long_2 show ?case by (simp add: leaf_code_def uint_codes)
next
  case (long_3 x b)
  then have "- 4 \<le> x div 65536" "x div 65536 < 4" by auto
  with long_3 show ?case by (simp add: leaf_code_def uint_codes)
next
  case (binary b)
  then show ?case using binary_text_first by (simp add: leaf_code_def)
next
  case (string t)
  then show ?case using text_bytes_first by (simp add: leaf_code_def text_ok_def)
qed (simp_all add: leaf_code_def uint_codes i32_code_def i64_code_def double_code_def bool_code_def date_code_def word_le_def)

lemma decodes_null: "decodes decode_null [0x4e] Null_Obj"
  unfolding decode_null_def by (rule decodes_read_u8_then) (simp add: decodes_ret)

lemma leaf_text_decodes: "leaf_text java_lite bs v \<Longrightarrow> decodes_leaf java_lite bs v"
proof (induction rule: leaf_text.induct)
  case true
  then show ?case using bool_codec.dec_repr [of True] by (simp add: decodes_leaf_def bool_repr_def)
next
  case false
  then show ?case using bool_codec.dec_repr [of False] by (simp add: decodes_leaf_def bool_repr_def)
next
  case (date_ms t)
  then show ?case using readDate_millis [OF duration_cast_same] by (simp add: decodes_leaf_def decode_milliseconds_def)
next
  case (date_min w)
  then show ?case using readDate_minutes [OF minutes_to_millis]
    by (simp add: decodes_leaf_def decode_milliseconds_def del: of_int_mult)
qed (simp_all add: decodes_leaf_def decodes_null i32_decodes_one_octet i32_decodes_two_octets
    i32_decodes_three_octets i32_decodes_full i64_decodes_one_octet i64_decodes_two_octets
    i64_decodes_three_octets i64_decodes_int i64_decodes_full double_decodes_zero_one double_decodes_byte
    double_decodes_short double_decodes_single double_decodes_full decode_bytes_decodes decode_string_decodes)

lemma leaf_reads:
  assumes "leaf_text java_lite bs v"
  shows "reads (decode_object_fuel java_lite emp (Suc k)) T bs v T"
proof -
  obtain c cs where c: "bs = c # cs" "leaf_code v c" using leaf_text_first [OF assms] by blast
  have null: "reads (decode_object_fuel java_lite emp (Suc k)) T (0x4e # cs) Null_Obj T"
    if "decodes decode_null (0x4e # cs) Null_Obj"
    by (rule decode_object_reads) (simp add: reads_decodes [OF that])
  show ?thesis using leaf_text_decodes [OF assms] c null
    by (auto simp: leaf_code_def decodes_leaf_def intro: object_leaf_codes split: obj.splits)
qed

section \<open>The decoder implements the grammar\<close>

lemma leaf_string_reads: "leaf_text java_lite bs (String_Obj s) \<Longrightarrow> reads (decode_string java_lite) T bs s T"
  using leaf_text_decodes by (fastforce simp: decodes_leaf_def intro: reads_decodes)

lemma count_text_reads: "count_text bs n \<Longrightarrow> reads decode_i32 T bs (of_nat n) T"
  using leaf_text_decodes by (fastforce simp: count_text_def decodes_leaf_def intro: reads_decodes)

lemma count_text_value:
  assumes "count_text bs n"
  shows "unat (of_nat n :: i32) = n" "nat (sint (of_nat n :: i32)) = n" "\<not> sint (of_nat n :: i32) < 0"
  using assms sint_of_int_in_range [of "int n", where 'a = 32]
  by (simp_all add: count_text_def unat_of_nat)

lemma type_text_reads: "type_text_of java_lite T bs ty T' \<Longrightarrow> reads (decode_type_ref java_lite) T bs ty T'"
proof (induction rule: type_text_of.induct)
  case (type_new bs ty)
  obtain c cs where c: "bs = c # cs" "string_code c"
    using leaf_text_first [OF type_new] by (auto simp: leaf_code_def)
  have "reads (and_then (decode_string java_lite) (\<lambda>type_str.
       and_then (modify (\<lambda>d. d\<lparr>d_types := d_types d @ [type_str]\<rparr>)) (\<lambda>_. ret type_str)))
     T (c # cs) ty (T\<lparr>t_types := t_types T @ [ty]\<rparr>)"
    using type_new unfolding c(1)
    by (intro reads_then_pure [OF leaf_string_reads] reads_add_type) (assumption, rule reads_ret)
  then show ?case unfolding c(1) decode_type_ref_def using c(2) by (intro reads_peek_then) simp
next
  case (type_index bs i)
  obtain c cs where c: "bs = c # cs" "i32_code c"
    using leaf_text_first type_index(1) by (fastforce simp: leaf_code_def count_text_def)
  have "reads (and_then decode_i32 (\<lambda>ret_int. and_then (gets d_types) (\<lambda>types_ref.
         if length types_ref \<le> unat ret_int then nullptr else ret (types_ref ! unat ret_int))))
     T bs (t_types T ! i) T"
    using type_index
    by (intro reads_then_pure [OF count_text_reads [OF type_index(1)]] reads_gets_then)
      (simp add: count_text_value [OF type_index(1)] reads_ret)
  then show ?case
    unfolding c(1) decode_type_ref_def using i32_code_not_string [OF c(2)] by (intro reads_peek_then) simp
qed

lemma strings_reads:
  "strings_text java_lite bs ss \<Longrightarrow> reads (decode_field_names java_lite (length ss) names) T bs (names @ ss) T"
proof (induction arbitrary: names rule: strings_text.induct)
  case (strings_cons bs s cs ss)
  have "reads (decode_field_names java_lite (length ss) (names @ [s])) T cs (names @ s # ss) T"
    using strings_cons.IH [of "names @ [s]"] by simp
  then show ?case using reads_and_then [OF leaf_string_reads [OF strings_cons.hyps(1)]] by simp
qed (simp add: reads_ret)

lemma class_def_reads:
  assumes "class_def_text java_lite ds df"
  shows "reads (decode_definition java_lite) T ds df (T\<lparr>t_defs := t_defs T @ [df]\<rparr>)"
  using assms
proof cases
  case (class_def ts ns fs)
  note [simp] = count_text_value [OF class_def(3)]
  have df: "\<lparr>def_type = def_type df, field_names = field_names df\<rparr> = df" by simp
  have names: "reads (decode_field_names java_lite (length (field_names df)) []) T fs (field_names df) T"
    using strings_reads [OF class_def(4), of "[]"] by simp
  have "reads (and_then (decode_string java_lite) (\<lambda>type_name.
       and_then decode_i32 (\<lambda>field_len.
         if sint field_len < 0 then abort
         else and_then (decode_field_names java_lite (nat (sint field_len)) []) (\<lambda>names.
           let def = \<lparr>def_type = type_name, field_names = names\<rparr>
           in and_then (modify (\<lambda>d. d\<lparr>d_defs := d_defs d @ [def]\<rparr>)) (\<lambda>_. ret def)))))
     T (ts @ ns @ fs) df (T\<lparr>t_defs := t_defs T @ [df]\<rparr>)"
    by (intro reads_and_then [OF leaf_string_reads [OF class_def(2)]]
        reads_and_then [OF count_text_reads [OF class_def(3)]])
      (auto simp: Let_def reads_ret df intro!: reads_then_pure [OF names] reads_add_def)
  then show ?thesis unfolding class_def(1) decode_definition_def by (auto intro!: reads_byte_then)
qed

lemma class_def_first: "class_def_text java_lite ds df \<Longrightarrow> \<exists>cs. ds = 0x43 # cs"
  by (auto elim: class_def_text.cases)

lemma def_ref_reads:
  assumes "def_ref_text_of T ds df"
  shows "reads (decode_definition java_lite) T ds df T" "\<exists>c cs. ds = c # cs \<and> instance_code c"
  using assms
proof (induction rule: def_ref_text_of.induct)
  case (def_short i b)
  { case 1 show ?case
      unfolding decode_definition_def
      using def_short by (auto simp: Let_def byte_compare reads_ret intro!: reads_byte_then reads_gets_then) }
  { case 2 show ?case using def_short by (intro exI [of _ b]) (simp add: instance_code_def byte_compare) }
next
  case (def_long bs i)
  { case 1
    have "reads (and_then decode_i32 (\<lambda>ref_number. and_then (gets d_defs) (\<lambda>def_ref.
         if length def_ref \<le> unat ref_number then nullptr else ret (def_ref ! unat ref_number))))
      T bs (t_defs T ! i) T"
      using def_long
      by (intro reads_then_pure [OF count_text_reads [OF def_long(1)]] reads_gets_then)
        (simp add: count_text_value [OF def_long(1)] reads_ret)
    then show ?case unfolding decode_definition_def by (auto simp: Let_def intro!: reads_byte_then) }
  { case 2 show ?case by (simp add: instance_code_def) }
qed

lemma reads_new_ref_then:
  "reads (f (length (t_vals T))) (add_value T) bs v T' \<Longrightarrow> reads (and_then new_ref f) T bs v T'"
  by (simp add: reads_def dec_has_def add_value_def new_ref_def and_then_def wf_decoder_def unread_def)

lemma reads_dead_then:
  "reads (f ()) T bs v T' \<Longrightarrow> reads (and_then (modify (\<lambda>d. d\<lparr>d_dead := g d\<rparr>)) f) T bs v T'"
  by (simp add: reads_def dec_has_def wf_decoder_def unread_def)

lemma reads_insert_then:
  "\<not> is_ref k \<Longrightarrow> reads (f (emp kvs (k, w))) T bs v T' \<Longrightarrow>
    reads (and_then (insert_entry emp kvs k w) f) T bs v T'"
  unfolding reads_def and_then_def insert_entry_def is_ref_def
  by (auto simp: Let_def dec_has_def wf_decoder_def unread_def split: obj.splits)

text \<open>Every value has a first byte, and it is not the terminator of a list or map.\<close>

lemma code_not_end:
  "i32_code c \<Longrightarrow> c \<noteq> 0x5a" "i64_code c \<Longrightarrow> c \<noteq> 0x5a" "string_code c \<Longrightarrow> c \<noteq> 0x5a"
  "binary_code c \<Longrightarrow> c \<noteq> 0x5a" "double_code c \<Longrightarrow> c \<noteq> 0x5a" "bool_code c \<Longrightarrow> c \<noteq> 0x5a"
  "date_code c \<Longrightarrow> c \<noteq> 0x5a" "instance_code c \<Longrightarrow> c \<noteq> 0x5a"
  by (auto simp: code_defs)

lemma leaf_code_not_end: "leaf_code v c \<Longrightarrow> c \<noteq> 0x5a"
  by (auto simp: leaf_code_def code_not_end split: obj.splits)

lemma value_text_first:
  "value_text java_lite emp T bs v T' \<Longrightarrow> \<exists>c cs. bs = c # cs \<and> c \<noteq> 0x5a"
  by (cases rule: value_text.cases)
    (auto dest!: leaf_text_first class_def_first def_ref_reads(2) leaf_code_not_end code_not_end
      simp: byte_compare intro: exI [of _ "0x43 :: u8"])

text \<open>Reading the parts of a container, once the decoder of the parts is known to read each.\<close>

lemma reads_read_until_end:
  assumes "reads dec T bs v T1" and "\<exists>c cs. bs = c # cs \<and> c \<noteq> 0x5a"
    and "reads (read_until_end dec j (acc @ [v])) T1 cs vs T2"
  shows "reads (read_until_end dec (Suc j) acc) T (bs @ cs) vs T2"
proof -
  obtain c bs' where c: "bs = c # bs'" "c \<noteq> 0x5a" using assms(2) by blast
  have "reads (and_then dec (\<lambda>v. read_until_end dec j (acc @ [v]))) T (bs @ cs) vs T2"
    using assms by (intro reads_and_then) simp_all
  then show ?thesis unfolding c(1) using c(2) by (auto intro!: reads_peek_then)
qed

lemma reads_end: "reads (and_then dec_read_u8 (\<lambda>_. ret x)) T [0x5a] x T"
  by (auto intro!: reads_byte_then simp: reads_ret)

definition reads_value :: "bool \<Rightarrow> emplace_fn \<Rightarrow> tables \<Rightarrow> bytes \<Rightarrow> obj \<Rightarrow> tables \<Rightarrow> bool" where
  "reads_value java_lite emp T bs v T' \<longleftrightarrow>
     (\<forall>k. length bs \<le> k \<longrightarrow> reads (decode_object_fuel java_lite emp k) T bs v T')"

definition reads_values :: "bool \<Rightarrow> emplace_fn \<Rightarrow> tables \<Rightarrow> bytes \<Rightarrow> obj list \<Rightarrow> tables \<Rightarrow> bool" where
  "reads_values java_lite emp T bs vs T' \<longleftrightarrow> (\<forall>k acc. length bs \<le> k \<longrightarrow>
     reads (read_nums (decode_object_fuel java_lite emp k) (length vs) acc) T bs (acc @ vs) T'
     \<and> (\<forall>j. length bs < j \<longrightarrow>
          reads (read_until_end (decode_object_fuel java_lite emp k) j acc) T (bs @ [0x5a]) (acc @ vs) T'))"

definition reads_entries :: "bool \<Rightarrow> emplace_fn \<Rightarrow> tables \<Rightarrow> bytes \<Rightarrow> (obj \<times> obj) list \<Rightarrow> tables \<Rightarrow> bool" where
  "reads_entries java_lite emp T bs kvs T' \<longleftrightarrow> (\<forall>k m j. length bs \<le> k \<longrightarrow> length bs < j \<longrightarrow>
     reads (read_entries emp (decode_object_fuel java_lite emp k) j m) T (bs @ [0x5a]) (foldl emp m kvs) T')"

lemma reads_valueD:
  "reads_value java_lite emp T bs v T' \<Longrightarrow> length bs \<le> k \<Longrightarrow> reads (decode_object_fuel java_lite emp k) T bs v T'"
  by (simp add: reads_value_def)

lemma reads_valuesD:
  assumes "reads_values java_lite emp T bs vs T'" and "length bs \<le> k"
  shows "reads (read_nums (decode_object_fuel java_lite emp k) (length vs) acc) T bs (acc @ vs) T'"
    and "length bs < j \<Longrightarrow>
      reads (read_until_end (decode_object_fuel java_lite emp k) j acc) T (bs @ [0x5a]) (acc @ vs) T'"
  using assms unfolding reads_values_def by blast+

lemma reads_entriesD:
  "reads_entries java_lite emp T bs kvs T' \<Longrightarrow> length bs \<le> k \<Longrightarrow> length bs < j \<Longrightarrow>
    reads (read_entries emp (decode_object_fuel java_lite emp k) j m) T (bs @ [0x5a]) (foldl emp m kvs) T'"
  unfolding reads_entries_def by blast

lemma reads_values_nil: "reads_values java_lite emp T [] [] T"
proof -
  have "reads (read_until_end dec (Suc j) acc) T [0x5a] acc T" for dec j acc
    by (auto intro!: reads_peek_then reads_end)
  then have "reads (read_until_end dec j acc) T [0x5a] acc T" if "0 < j" for dec j acc
    using that by (cases j) simp_all
  then show ?thesis by (simp add: reads_values_def reads_ret)
qed

lemma reads_values_cons:
  assumes "\<exists>c cs. bs = c # cs \<and> c \<noteq> 0x5a" and v: "reads_value java_lite emp T bs v T1"
    and vs: "reads_values java_lite emp T1 cs vs T2"
  shows "reads_values java_lite emp T (bs @ cs) (v # vs) T2"
  unfolding reads_values_def
proof (intro allI impI conjI)
  fix k acc assume k: "length (bs @ cs) \<le> k"
  let ?dec = "decode_object_fuel java_lite emp k"
  have one: "reads ?dec T bs v T1" using v k by (simp add: reads_value_def)
  have rest: "reads (read_nums ?dec (length vs) (acc @ [v])) T1 cs ((acc @ [v]) @ vs) T2"
    using k by (intro reads_valuesD(1) [OF vs]) simp
  show "reads (read_nums ?dec (length (v # vs)) acc) T (bs @ cs) (acc @ v # vs) T2"
    using reads_and_then [OF one, of "\<lambda>v. read_nums ?dec (length vs) (acc @ [v])"] rest by simp
  fix j assume j: "length (bs @ cs) < j"
  then obtain i where i: "j = Suc i" by (cases j) auto
  have "length cs < i" using assms(1) i j by auto
  then have "reads (read_until_end ?dec i (acc @ [v])) T1 (cs @ [0x5a]) ((acc @ [v]) @ vs) T2"
    using k by (intro reads_valuesD(2) [OF vs]) simp_all
  then show "reads (read_until_end ?dec j acc) T ((bs @ cs) @ [0x5a]) (acc @ v # vs) T2"
    using reads_read_until_end [OF one assms(1)] i by simp
qed

lemma reads_entries_nil: "reads_entries java_lite emp T [] [] T"
proof -
  have "reads (read_entries emp dec (Suc j) m) T [0x5a] m T" for dec j m
    by (auto intro!: reads_peek_then reads_end)
  then have "reads (read_entries emp dec j m) T [0x5a] m T" if "0 < j" for dec j m
    using that by (cases j) simp_all
  then show ?thesis by (simp add: reads_entries_def)
qed

lemma reads_entries_cons:
  assumes "\<exists>c cs. bs = c # cs \<and> c \<noteq> 0x5a" and key: "reads_value java_lite emp T bs k T1" "\<not> is_ref k"
    and v: "reads_value java_lite emp T1 cs v T2" and kvs: "reads_entries java_lite emp T2 ds kvs T3"
  shows "reads_entries java_lite emp T (bs @ cs @ ds) ((k, v) # kvs) T3"
  unfolding reads_entries_def
proof (intro allI impI)
  fix n m j assume n: "length (bs @ cs @ ds) \<le> n" and j: "length (bs @ cs @ ds) < j"
  let ?dec = "decode_object_fuel java_lite emp n"
  obtain c bs' where c: "bs = c # bs'" "c \<noteq> 0x5a" using assms(1) by blast
  obtain i where i: "j = Suc i" using j by (cases j) auto
  have "reads (read_entries emp ?dec i (emp m (k, v))) T2 (ds @ [0x5a]) (foldl emp (emp m (k, v)) kvs) T3"
    using n i j c by (intro reads_entriesD [OF kvs]) simp_all
  then have "reads (and_then ?dec (\<lambda>key. and_then ?dec (\<lambda>val.
       and_then (insert_entry emp m key val) (\<lambda>m'. read_entries emp ?dec i m'))))
      T (bs @ cs @ ds @ [0x5a]) (foldl emp m ((k, v) # kvs)) T3"
    using n
    by (intro reads_and_then [OF reads_valueD [OF key(1)]] reads_and_then [OF reads_valueD [OF v]]
        reads_insert_then [of k, OF key(2)]) simp_all
  then show "reads (read_entries emp ?dec j m) T ((bs @ cs @ ds) @ [0x5a]) (foldl emp m ((k, v) # kvs)) T3"
    unfolding c(1) i using c(2) by (auto intro!: reads_peek_then)
qed

text \<open>A container whose text is \<open>c # bs\<close>, when its decoder reads that with one unit of fuel less.\<close>

lemma reads_value_container:
  assumes "\<And>k. length bs \<le> k \<Longrightarrow> reads (m k) T (c # bs) v T'"
    and "\<And>k. reads (m k) T (c # bs) v T' \<Longrightarrow> reads (decode_object_fuel java_lite emp (Suc k)) T (c # bs) v T'"
  shows "reads_value java_lite emp T (c # bs) v T'"
  unfolding reads_value_def
proof (intro allI impI)
  fix k assume k: "length (c # bs) \<le> k"
  then obtain k' where "k = Suc k'" by (cases k) auto
  then show "reads (decode_object_fuel java_lite emp k) T (c # bs) v T'"
    using assms k by simp
qed

lemma typed_list_dispatch:
  "typed_list_code c \<Longrightarrow> reads (decode_typed_list java_lite (decode_object_fuel java_lite emp k) k) T (c # bs) v T' \<Longrightarrow>
    reads (decode_object_fuel java_lite emp (Suc k)) T (c # bs) v T'"
  by (rule decode_object_reads) (simp only: code_cases)

lemma untyped_list_dispatch:
  "untyped_list_code c \<Longrightarrow> reads (decode_untyped_list (decode_object_fuel java_lite emp k) k) T (c # bs) v T' \<Longrightarrow>
    reads (decode_object_fuel java_lite emp (Suc k)) T (c # bs) v T'"
  by (rule decode_object_reads) (simp only: code_cases)

lemma instance_dispatch:
  "instance_code c \<Longrightarrow> reads (decode_class_instance java_lite (decode_object_fuel java_lite emp k)) T (c # bs) v T' \<Longrightarrow>
    reads (decode_object_fuel java_lite emp (Suc k)) T (c # bs) v T'"
  by (rule decode_object_reads) (simp only: code_cases)

lemma reads_then_ret: "reads m T bs v T' \<Longrightarrow> reads (and_then m (\<lambda>v. ret (f v))) T bs (f v) T'"
  by (rule reads_then_pure, assumption, rule reads_ret)

lemma reads_typed_list:
  assumes ts: "type_text_of java_lite (add_value T) ts ty T1" and vs: "reads_values java_lite emp T1 bs vs T2"
  shows "reads_value java_lite emp T (0x55 # ts @ bs @ [0x5a]) (Typed_List (length (t_vals T)) ty vs) T2"
    and "count_text ns (length vs) \<Longrightarrow>
      reads_value java_lite emp T (0x56 # ts @ ns @ bs) (Typed_List (length (t_vals T)) ty vs) T2"
    and "unat b = 0x70 + length vs \<Longrightarrow> length vs \<le> 7 \<Longrightarrow>
      reads_value java_lite emp T (b # ts @ bs) (Typed_List (length (t_vals T)) ty vs) T2"
proof -
  show "reads_value java_lite emp T (0x55 # ts @ bs @ [0x5a]) (Typed_List (length (t_vals T)) ty vs) T2"
  proof (rule reads_value_container [OF _ typed_list_dispatch])
    fix k assume k: "length (ts @ bs @ [0x5a]) \<le> k"
    note items = reads_valuesD(2) [OF vs, of k k "[]", unfolded append_Nil]
    show "reads (decode_typed_list java_lite (decode_object_fuel java_lite emp k) k) T
        (0x55 # ts @ bs @ [0x5a]) (Typed_List (length (t_vals T)) ty vs) T2"
      unfolding decode_typed_list_def Let_def
      by (intro reads_new_ref_then reads_byte_then)
        (use k in \<open>simp add: reads_and_then [OF type_text_reads [OF ts]] reads_then_ret [OF items]\<close>)
  qed (simp add: typed_list_code_def)
  show "reads_value java_lite emp T (0x56 # ts @ ns @ bs) (Typed_List (length (t_vals T)) ty vs) T2"
    if ns: "count_text ns (length vs)"
  proof (rule reads_value_container [OF _ typed_list_dispatch])
    fix k assume k: "length (ts @ ns @ bs) \<le> k"
    note items = reads_valuesD(1) [OF vs, of k "[]", unfolded append_Nil]
    show "reads (decode_typed_list java_lite (decode_object_fuel java_lite emp k) k) T
        (0x56 # ts @ ns @ bs) (Typed_List (length (t_vals T)) ty vs) T2"
      unfolding decode_typed_list_def Let_def
      by (intro reads_new_ref_then reads_byte_then)
        (use k in \<open>simp add: reads_and_then [OF type_text_reads [OF ts]] reads_and_then [OF count_text_reads [OF ns]]
           count_text_value [OF ns] reads_then_ret [OF items]\<close>)
  qed (simp add: typed_list_code_def)
  show "reads_value java_lite emp T (b # ts @ bs) (Typed_List (length (t_vals T)) ty vs) T2"
    if b: "unat b = 0x70 + length vs" "length vs \<le> 7"
  proof (rule reads_value_container [OF _ typed_list_dispatch])
    fix k assume k: "length (ts @ bs) \<le> k"
    note items = reads_valuesD(1) [OF vs, of k "[]", unfolded append_Nil]
    show "reads (decode_typed_list java_lite (decode_object_fuel java_lite emp k) k) T
        (b # ts @ bs) (Typed_List (length (t_vals T)) ty vs) T2"
      unfolding decode_typed_list_def Let_def
      by (intro reads_new_ref_then reads_byte_then)
        (use k b in \<open>simp add: byte_compare reads_and_then [OF type_text_reads [OF ts]] reads_then_ret [OF items]\<close>)
  qed (use b in \<open>simp add: typed_list_code_def byte_compare\<close>)
qed

lemma reads_untyped_list:
  assumes vs: "reads_values java_lite emp (add_value T) bs vs T2"
  shows "reads_value java_lite emp T (0x57 # bs @ [0x5a]) (Untyped_List (length (t_vals T)) vs) T2"
    and "count_text ns (length vs) \<Longrightarrow>
      reads_value java_lite emp T (0x58 # ns @ bs) (Untyped_List (length (t_vals T)) vs) T2"
    and "unat b = 0x78 + length vs \<Longrightarrow> length vs \<le> 7 \<Longrightarrow>
      reads_value java_lite emp T (b # bs) (Untyped_List (length (t_vals T)) vs) T2"
proof -
  show "reads_value java_lite emp T (0x57 # bs @ [0x5a]) (Untyped_List (length (t_vals T)) vs) T2"
  proof (rule reads_value_container [OF _ untyped_list_dispatch])
    fix k assume k: "length (bs @ [0x5a]) \<le> k"
    note items = reads_valuesD(2) [OF vs, of k k "[]", unfolded append_Nil]
    show "reads (decode_untyped_list (decode_object_fuel java_lite emp k) k) T
        (0x57 # bs @ [0x5a]) (Untyped_List (length (t_vals T)) vs) T2"
      unfolding decode_untyped_list_def Let_def
      by (intro reads_new_ref_then reads_byte_then) (use k in \<open>simp add: reads_then_ret [OF items]\<close>)
  qed (simp add: untyped_list_code_def)
  show "reads_value java_lite emp T (0x58 # ns @ bs) (Untyped_List (length (t_vals T)) vs) T2"
    if ns: "count_text ns (length vs)"
  proof (rule reads_value_container [OF _ untyped_list_dispatch])
    fix k assume k: "length (ns @ bs) \<le> k"
    note items = reads_valuesD(1) [OF vs, of k "[]", unfolded append_Nil]
    show "reads (decode_untyped_list (decode_object_fuel java_lite emp k) k) T
        (0x58 # ns @ bs) (Untyped_List (length (t_vals T)) vs) T2"
      unfolding decode_untyped_list_def Let_def
      by (intro reads_new_ref_then reads_byte_then)
        (use k in \<open>simp add: reads_and_then [OF count_text_reads [OF ns]] count_text_value [OF ns]
           reads_then_ret [OF items]\<close>)
  qed (simp add: untyped_list_code_def)
  show "reads_value java_lite emp T (b # bs) (Untyped_List (length (t_vals T)) vs) T2"
    if b: "unat b = 0x78 + length vs" "length vs \<le> 7"
  proof (rule reads_value_container [OF _ untyped_list_dispatch])
    fix k assume k: "length bs \<le> k"
    note items = reads_valuesD(1) [OF vs, of k "[]", unfolded append_Nil]
    show "reads (decode_untyped_list (decode_object_fuel java_lite emp k) k) T
        (b # bs) (Untyped_List (length (t_vals T)) vs) T2"
      unfolding decode_untyped_list_def Let_def
      by (intro reads_new_ref_then reads_byte_then)
        (use k b in \<open>simp add: byte_compare reads_then_ret [OF items]\<close>)
  qed (use b in \<open>simp add: untyped_list_code_def byte_compare\<close>)
qed

lemma reads_typed_map:
  assumes ts: "type_text_of java_lite (add_value T) ts ty T1" and kvs: "reads_entries java_lite emp T1 bs kvs T2"
  shows "reads_value java_lite emp T (0x4d # ts @ bs @ [0x5a])
    (Typed_Map (length (t_vals T)) ty (foldl emp [] kvs)) T2"
proof (rule reads_value_container)
  fix k assume k: "length (ts @ bs @ [0x5a]) \<le> k"
  note items = reads_entriesD [OF kvs, of k k "[]"]
  show "reads (decode_typed_map java_lite emp (decode_object_fuel java_lite emp k) k) T
      (0x4d # ts @ bs @ [0x5a]) (Typed_Map (length (t_vals T)) ty (foldl emp [] kvs)) T2"
    unfolding decode_typed_map_def
    by (intro reads_new_ref_then reads_byte_then)
      (use k in \<open>simp add: reads_and_then [OF type_text_reads [OF ts]] reads_then_ret [OF items]\<close>)
next
  show "reads (decode_object_fuel java_lite emp (Suc k)) T (0x4d # bs) v T'"
    if "reads (decode_typed_map java_lite emp (decode_object_fuel java_lite emp k) k) T (0x4d # bs) v T'"
    for k bs v T'
    by (rule decode_object_reads) (simp add: that)
qed

lemma reads_untyped_map:
  assumes kvs: "reads_entries java_lite emp (add_value T) bs kvs T2"
  shows "reads_value java_lite emp T (0x48 # bs @ [0x5a])
    (Untyped_Map (length (t_vals T)) (foldl emp [] kvs)) T2"
proof (rule reads_value_container)
  fix k assume k: "length (bs @ [0x5a]) \<le> k"
  note items = reads_entriesD [OF kvs, of k k "[]"]
  show "reads (decode_untyped_map emp (decode_object_fuel java_lite emp k) k) T
      (0x48 # bs @ [0x5a]) (Untyped_Map (length (t_vals T)) (foldl emp [] kvs)) T2"
    unfolding decode_untyped_map_def
    by (intro reads_new_ref_then reads_byte_then) (use k in \<open>simp add: reads_then_ret [OF items]\<close>)
next
  show "reads (decode_object_fuel java_lite emp (Suc k)) T (0x48 # bs) v T'"
    if "reads (decode_untyped_map emp (decode_object_fuel java_lite emp k) k) T (0x48 # bs) v T'"
    for k bs v T'
    by (rule decode_object_reads) (simp add: that)
qed

lemma reads_defined:
  assumes ds: "class_def_text java_lite ds df"
    and v: "reads_value java_lite emp (T\<lparr>t_defs := t_defs T @ [df]\<rparr>) bs v T2"
  shows "reads_value java_lite emp T (ds @ bs) v T2"
proof -
  obtain cs where c: "ds = 0x43 # cs" using class_def_first [OF ds] by blast
  have "reads_value java_lite emp T (0x43 # cs @ bs) v T2"
  proof (rule reads_value_container)
    fix k assume "length (cs @ bs) \<le> k"
    then have "reads (decode_object_fuel java_lite emp k) (T\<lparr>t_defs := t_defs T @ [df]\<rparr>) bs v T2"
      by (intro reads_valueD [OF v]) simp
    from reads_and_then [OF class_def_reads [OF ds], OF this]
    show "reads (and_then (decode_definition java_lite) (\<lambda>_. decode_object_fuel java_lite emp k)) T
        (0x43 # cs @ bs) v T2" by (simp add: c)
  next
    show "reads (decode_object_fuel java_lite emp (Suc k)) T (0x43 # bs) v T'"
      if "reads (and_then (decode_definition java_lite) (\<lambda>_. decode_object_fuel java_lite emp k)) T (0x43 # bs) v T'"
      for k bs v T'
      by (rule decode_object_reads) (simp add: that)
  qed
  then show ?thesis by (simp add: c)
qed

lemma reads_instance:
  assumes ds: "def_ref_text_of T ds df" and vs: "reads_values java_lite emp (add_value T) bs vs T2"
    and len: "length vs = length (field_names df)"
  shows "reads_value java_lite emp T (ds @ bs) (Class_Instance (length (t_vals T)) df vs) T2"
proof -
  obtain c cs where c: "ds = c # cs" "instance_code c" using def_ref_reads(2) [OF ds] by blast
  have ds': "def_ref_text_of (add_value T) ds df"
    using ds
  proof cases
    case (def_short i b)
    then show ?thesis using def_ref_text_of.def_short [of i "add_value T" b] by (simp add: add_value_def)
  next
    case (def_long bs i)
    then show ?thesis using def_ref_text_of.def_long [of bs i "add_value T"] by (simp add: add_value_def)
  qed
  have find: "reads (find_definition java_lite) (add_value T) ds df (add_value T)"
    unfolding find_definition_def c(1)
    using def_ref_reads(1) [OF ds', of java_lite] c by (intro reads_peek_then) (auto simp: code_defs)
  have "reads_value java_lite emp T (c # cs @ bs) (Class_Instance (length (t_vals T)) df vs) T2"
  proof (rule reads_value_container [OF _ instance_dispatch [OF c(2)]])
    fix k assume k: "length (cs @ bs) \<le> k"
    note items = reads_valuesD(1) [OF vs, of k "[]", unfolded append_Nil len]
    let ?f = "\<lambda>df. and_then (read_nums (decode_object_fuel java_lite emp k) (length (field_names df)) []) (\<lambda>vs.
        and_then (modify (\<lambda>d. d\<lparr>d_dead := remove1 (length (t_vals T)) (d_dead d)\<rparr>)) (\<lambda>_.
        ret (Class_Instance (length (t_vals T)) df vs)))"
    have "reads (?f df) (add_value T) bs (Class_Instance (length (t_vals T)) df vs) T2"
      using k by (intro reads_then_pure [OF items] reads_dead_then reads_ret) simp
    then have "reads (and_then (find_definition java_lite) ?f) (add_value T) (ds @ bs)
        (Class_Instance (length (t_vals T)) df vs) T2"
      by (rule reads_and_then [OF find])
    then show "reads (decode_class_instance java_lite (decode_object_fuel java_lite emp k)) T
        (c # cs @ bs) (Class_Instance (length (t_vals T)) df vs) T2"
      unfolding decode_class_instance_def by (intro reads_new_ref_then reads_dead_then) (simp add: c(1))
  qed
  then show ?thesis by (simp add: c(1))
qed

lemma reads_object_ref:
  assumes "count_text bs i" and "i < length (t_vals T)"
  shows "reads_value java_lite emp T (0x51 # bs) (Ref_Obj (t_vals T ! i)) T"
proof (rule reads_value_container)
  have "reads decode_ref T (0x51 # bs) (t_vals T ! i) T"
    unfolding decode_ref_def using assms(2)
    by (intro reads_byte_then) (auto simp: count_text_value [OF assms(1)] reads_ret
      intro!: reads_then_pure [OF count_text_reads [OF assms(1)]] reads_gets_then)
  then show "reads (and_then decode_ref (\<lambda>a. ret (Ref_Obj a))) T (0x51 # bs) (Ref_Obj (t_vals T ! i)) T" for k :: nat
    by (rule reads_then_ret)
next
  show "reads (decode_object_fuel java_lite emp (Suc k)) T (0x51 # bs) v T'"
    if "reads (and_then decode_ref (\<lambda>a. ret (Ref_Obj a))) T (0x51 # bs) v T'" for k bs v T'
    by (rule decode_object_reads) (simp add: that)
qed

lemma reads_leaf: "leaf_text java_lite bs v \<Longrightarrow> reads_value java_lite emp T bs v T"
  unfolding reads_value_def
proof (intro allI impI)
  fix k assume v: "leaf_text java_lite bs v" and "length bs \<le> k"
  moreover have "bs \<noteq> []" using leaf_text_first [OF v] by blast
  ultimately obtain k' where "k = Suc k'" by (cases k) auto
  then show "reads (decode_object_fuel java_lite emp k) T bs v T" using leaf_reads [OF v] by simp
qed

theorem grammar_reads:
  "value_text java_lite emp T bs v T' \<Longrightarrow> reads_value java_lite emp T bs v T'"
  "values_text java_lite emp T bs vs T' \<Longrightarrow> reads_values java_lite emp T bs vs T'"
  "entries_text java_lite emp T bs kvs T' \<Longrightarrow> reads_entries java_lite emp T bs kvs T'"
  by (induction rule: value_text_values_text_entries_text.inducts)
    (blast intro: reads_leaf reads_object_ref reads_typed_list reads_untyped_list reads_typed_map
      reads_untyped_map reads_defined reads_instance reads_values_nil reads_values_cons reads_entries_nil
      reads_entries_cons dest: value_text_first)+

end
