(* ===== verification/Object_Round_Trip.thy ===== *)
theory Object_Round_Trip
  imports Object_Grammar
begin

text \<open>
  The object encoder writes texts of the grammar, and the round trip of objects. The addresses of an
  object are canonical when its containers have the addresses \<open>n\<close>, \<open>n + 1\<close>, and so on in the order in
  which they are written and every reference goes back to one of them or to an earlier one:
  \<open>number n p = Some m\<close>, where \<open>m\<close> is the next address. \<open>encodable\<close> bounds the sizes and the
  strings of an object by what the format can hold; \<open>rebuild\<close> inserts the entries of its maps into
  the hash table of the reader.
\<close>

section \<open>The leaves\<close>

lemma i32_repr_leaf: "leaf_text java_lite (i32_repr v) (Integer_Obj v)"
proof -
  let ?x = "sint v"
  note code_bytes = code_byte [of "?x + 0x90"] code_byte [of "0xc8 + ?x div 256"]
    code_byte [of "0xd4 + ?x div 65536"]
  consider "- 0x10 \<le> ?x \<and> ?x \<le> 0x2f"
    | "\<not> (- 0x10 \<le> ?x \<and> ?x \<le> 0x2f)" "- 0x800 \<le> ?x \<and> ?x \<le> 0x7ff"
    | "\<not> (- 0x800 \<le> ?x \<and> ?x \<le> 0x7ff)" "- 0x40000 \<le> ?x \<and> ?x \<le> 0x3ffff"
    | "\<not> (- 0x40000 \<le> ?x \<and> ?x \<le> 0x3ffff)" by blast
  then show ?thesis
  proof cases
    case 1
    with leaf_text.int_1 [OF _ _ code_bytes(1)] show ?thesis
      by (simp add: i32_repr_def Let_def del: of_int_add)
  next
    case 2
    moreover from this(2) have "- 8 \<le> ?x div 256" "?x div 256 < 8" by auto
    ultimately show ?thesis using leaf_text.int_2 [OF _ _ code_bytes(2)]
      by (auto simp add: i32_repr_def Let_def simp del: of_int_add)
  next
    case 3
    moreover from this(2) have "- 4 \<le> ?x div 65536" "?x div 65536 < 4" by auto
    ultimately show ?thesis using leaf_text.int_3 [OF _ _ code_bytes(3)]
      by (auto simp add: i32_repr_def Let_def simp del: of_int_add)
  next
    case 4
    with leaf_text.int_5 [of java_lite v] show ?thesis by (auto simp add: i32_repr_def Let_def)
  qed
qed

lemma i64_repr_leaf: "leaf_text java_lite (i64_repr v) (Long_Obj v)"
proof -
  let ?x = "sint v"
  note code_bytes = code_byte [of "?x + 0xe0"] code_byte [of "0xf8 + ?x div 256"]
    code_byte [of "0x3c + ?x div 65536"]
  consider "- 0x08 \<le> ?x \<and> ?x \<le> 0x0f"
    | "\<not> (- 0x08 \<le> ?x \<and> ?x \<le> 0x0f)" "- 0x800 \<le> ?x \<and> ?x \<le> 0x7ff"
    | "\<not> (- 0x800 \<le> ?x \<and> ?x \<le> 0x7ff)" "- 0x40000 \<le> ?x \<and> ?x \<le> 0x3ffff"
    | "\<not> (- 0x40000 \<le> ?x \<and> ?x \<le> 0x3ffff)" "- 0x80000000 \<le> ?x \<and> ?x \<le> 0x7fffffff"
    | "\<not> (- 0x80000000 \<le> ?x \<and> ?x \<le> 0x7fffffff)" by blast
  then show ?thesis
  proof cases
    case 1
    with leaf_text.long_1 [OF _ _ code_bytes(1)] show ?thesis
      by (simp add: i64_repr_def Let_def del: of_int_add)
  next
    case 2
    moreover from this(2) have "- 8 \<le> ?x div 256" "?x div 256 < 8" by auto
    ultimately show ?thesis using leaf_text.long_2 [OF _ _ code_bytes(2)]
      by (auto simp add: i64_repr_def Let_def simp del: of_int_add)
  next
    case 3
    moreover from this(2) have "- 4 \<le> ?x div 65536" "?x div 65536 < 4" by auto
    ultimately show ?thesis using leaf_text.long_3 [OF _ _ code_bytes(3)]
      by (auto simp add: i64_repr_def Let_def simp del: of_int_add)
  next
    case 4
    with leaf_text.long_5 [of ?x java_lite] show ?thesis
      by (auto simp add: i64_repr_def Let_def)
  next
    case 5
    with leaf_text.long_9 [of java_lite v] show ?thesis by (auto simp add: i64_repr_def Let_def)
  qed
qed

lemma double_repr_leaf:
  assumes "v \<noteq> f64_neg_zero"
  shows "leaf_text java_lite (double_repr oor v) (Double_Obj v)"
proof -
  let ?x = "sint (f64_to_i32 oor v)"
  show ?thesis
  proof (cases "f64_eq (f64_of_int ?x) v \<and> - 0x8000 \<le> ?x \<and> ?x < 0x8000")
    case True
    then have v: "f64_of_int ?x = v"
      by (intro f64_eq_of_int [OF _ assms, symmetric]) (rule conjunct1)
    have "leaf_text java_lite (double_repr oor v) (Double_Obj (f64_of_int ?x))"
      using True leaf_text.double_byte [of ?x] leaf_text.double_short [of ?x] leaf_text.double_zero
        leaf_text.double_one
      unfolding double_repr_def Let_def by (cases "?x = 0"; cases "?x = 1") auto
    then show ?thesis by (simp add: v)
  next
    case False
    then show ?thesis using leaf_text.double_full [of java_lite v]
      unfolding double_repr_def Let_def by (simp only: if_False)
  qed
qed

lemma date_repr_leaf:
  assumes "date_ok (sint v)"
  shows "leaf_text java_lite (date_repr (sint v)) (Date_Obj v)"
proof (cases "60000 dvd sint v")
  case True
  with assms have m: "sint (word_of_int (sint v div 60000) :: i32) = sint v div 60000"
    by (intro sint_i32_of_int) (simp_all add: date_ok_def)
  have "leaf_text java_lite (date_repr (sint v)) (Date_Obj (word_of_int (sint v div 60000 * 60000)))"
    using leaf_text.date_min [of java_lite "word_of_int (sint v div 60000)", unfolded m] True
    by (simp only: date_repr_def if_True)
  then show ?thesis using True by simp
next
  case False
  then show ?thesis using leaf_text.date_ms [of java_lite v] by (simp add: date_repr_def)
qed

lemma string_repr_leaf:
  assumes "string_ok java_lite s"
  shows "leaf_text java_lite (string_repr java_lite s) (String_Obj s)"
  using assms by (rule string_repr_text) (metis leaf_text.string)

lemma count_repr: "n < 2 ^ 31 \<Longrightarrow> count_text (i32_repr (of_nat n)) n"
  by (simp add: count_text_def i32_repr_leaf)

section \<open>Types and definitions\<close>

lemma type_text_grammar:
  assumes "type_ok java_lite T ty"
  shows "type_text_of java_lite T (type_text java_lite T ty) ty (add_type T ty)"
proof (cases "index_of ty (t_types T)")
  case None
  then show ?thesis
    using assms type_text_of.type_new [OF string_repr_leaf, of java_lite ty T] index_of_None [of ty "t_types T"]
    by (simp add: type_text_def add_type_def type_ok_def)
next
  case (Some i)
  then have "i < length (t_types T)" "t_types T ! i = ty" "ty \<in> set (t_types T)"
    using index_of_Some [OF Some] by auto
  then show ?thesis
    using assms Some type_text_of.type_index [OF count_repr, of i T java_lite]
    by (simp add: type_text_def add_type_def type_ok_def)
qed

lemma strings_repr:
  "\<forall>s \<in> set ss. string_ok java_lite s \<Longrightarrow> strings_text java_lite (concat (map (string_repr java_lite) ss)) ss"
  by (induction ss) (auto intro: strings_text.intros string_repr_leaf)

lemma def_ref_grammar:
  assumes "i < length (t_defs T)" and "i \<le> 32767"
  shows "def_ref_text_of T (def_ref_text i) (t_defs T ! i)"
proof (cases "i \<le> 15")
  case True
  then show ?thesis using assms def_ref_text_of.def_short [of i T] unat_of_nat_u8 [of "0x60 + i"]
    by (simp add: def_ref_text_def del: of_nat_add)
next
  case False
  then show ?thesis using assms def_ref_text_of.def_long [OF count_repr, of i T]
    by (simp add: def_ref_text_def)
qed

lemma add_value_defs: "add_value (T\<lparr>t_defs := ds\<rparr>) = (add_value T)\<lparr>t_defs := ds\<rparr>"
  by (cases T) (simp add: add_value_def)

text \<open>A new definition precedes the instance that is its first use.\<close>

lemma instance_grammar:
  assumes ok: "def_ok java_lite (add_value T) df" and len: "length vs = length (field_names df)"
    and vs: "values_text java_lite emp (add_def (add_value T) df) bs vs T2"
  shows "value_text java_lite emp T (def_text java_lite (add_value T) df @ bs)
    (Class_Instance (length (t_vals T)) df vs) T2"
proof (cases "index_of df (t_defs T)")
  case (Some i)
  then have i: "i < length (t_defs T)" "t_defs T ! i = df" "df \<in> set (t_defs T)" "i \<le> 32767"
    using index_of_Some [OF Some] ok by (auto simp: def_ok_def add_value_def)
  then have vs': "values_text java_lite emp (add_value T) bs vs T2"
    using vs by (simp add: add_def_def add_value_def)
  show ?thesis
    using value_text_values_text_entries_text.text_instance [OF def_ref_grammar vs', of i] i len Some
    by (simp add: def_text_def add_value_def)
next
  case None
  let ?T = "T\<lparr>t_defs := t_defs T @ [df]\<rparr>"
  have n: "length (t_defs T) \<le> 32767" using ok by (simp add: def_ok_def add_value_def)
  have new: "df \<notin> set (t_defs T)" using None by (simp add: index_of_None)
  then have vs': "values_text java_lite emp (add_value ?T) bs vs T2"
    using vs unfolding add_value_defs by (simp add: add_def_def add_value_def)
  have "class_def_text java_lite (0x43 # string_repr java_lite (def_type df)
      @ i32_repr (of_nat (length (field_names df))) @ concat (map (string_repr java_lite) (field_names df))) df"
    using ok by (intro class_def_text.intros string_repr_leaf count_repr strings_repr) (simp_all add: def_ok_def)
  moreover have "value_text java_lite emp ?T (def_ref_text (length (t_defs T)) @ bs)
      (Class_Instance (length (t_vals ?T)) df vs) T2"
    using value_text_values_text_entries_text.text_instance [OF def_ref_grammar vs', of "length (t_defs T)"] n len
    by simp
  ultimately show ?thesis
    using value_text_values_text_entries_text.defined [of java_lite _ df emp T] None
    by (fastforce simp: def_text_def add_value_def)
qed

section \<open>Numbering\<close>

fun number_each :: "(nat \<Rightarrow> 'v \<Rightarrow> nat option) \<Rightarrow> nat \<Rightarrow> 'v list \<Rightarrow> nat option" where
  "number_each f n [] = Some n"
| "number_each f n (v # vs) = (case f n v of None \<Rightarrow> None | Some m \<Rightarrow> number_each f m vs)"

fun number_entries :: "(nat \<Rightarrow> 'v \<Rightarrow> nat option) \<Rightarrow> nat \<Rightarrow> ('v \<times> 'v) list \<Rightarrow> nat option" where
  "number_entries f n [] = Some n"
| "number_entries f n ((k, v) # kvs) = (case f n k of None \<Rightarrow> None | Some m \<Rightarrow>
     (case f m v of None \<Rightarrow> None | Some l \<Rightarrow> number_entries f l kvs))"

lemma number_each_cong [fundef_cong]:
  "vs = vs' \<Longrightarrow> n = n' \<Longrightarrow> (\<And>m v. v \<in> set vs' \<Longrightarrow> f m v = f' m v) \<Longrightarrow> number_each f n vs = number_each f' n' vs'"
  by (induction vs arbitrary: vs' n n') (auto split: option.splits)

lemma number_entries_cong [fundef_cong]:
  assumes "kvs = kvs'" "n = n'" "\<And>m k v. (k, v) \<in> set kvs' \<Longrightarrow> f m k = f' m k"
    "\<And>m k v. (k, v) \<in> set kvs' \<Longrightarrow> f m v = f' m v"
  shows "number_entries f n kvs = number_entries f' n' kvs'"
  unfolding assms(1,2) using assms(3,4)
proof (induction kvs' arbitrary: n')
  case (Cons kv kvs)
  obtain k v where kv: "kv = (k, v)" by (cases kv)
  have "number_entries f l kvs = number_entries f' l kvs" for l
  proof (rule Cons.IH)
    show "f m k' = f' m k'" "f m v' = f' m v'" if "(k', v') \<in> set kvs" for m k' v'
      using Cons.prems [of k' v' m] that by auto
  qed
  moreover have "f m k = f' m k" "f m v = f' m v" for m
    using Cons.prems [of k v m] kv by auto
  ultimately show ?case unfolding kv by (simp split: option.splits)
qed simp

function number :: "nat \<Rightarrow> obj \<Rightarrow> nat option" where
  "number n p = (case p of
     Ref_Obj d \<Rightarrow> if d < n then Some n else None
   | Untyped_List a vs \<Rightarrow> if a = n then number_each (\<lambda>m v. number m v) (Suc n) vs else None
   | Typed_List a ty vs \<Rightarrow> if a = n then number_each (\<lambda>m v. number m v) (Suc n) vs else None
   | Typed_Map a ty kvs \<Rightarrow> if a = n then number_entries (\<lambda>m v. number m v) (Suc n) kvs else None
   | Untyped_Map a kvs \<Rightarrow> if a = n then number_entries (\<lambda>m v. number m v) (Suc n) kvs else None
   | Class_Instance a df vs \<Rightarrow> if a = n then number_each (\<lambda>m v. number m v) (Suc n) vs else None
   | _ \<Rightarrow> Some n)"
  by pat_completeness auto
termination
  by (relation "measure (\<lambda>(n, p). size p)") (auto dest!: size_in_entries size_in_list simp: less_Suc_eq_le)

declare number.simps [simp del]

lemma number_simps [simp]:
  "number n (Ref_Obj d) = (if d < n then Some n else None)"
  "number n (Untyped_List a vs) = (if a = n then number_each number (Suc n) vs else None)"
  "number n (Typed_List a ty vs) = (if a = n then number_each number (Suc n) vs else None)"
  "number n (Typed_Map a ty kvs) = (if a = n then number_entries number (Suc n) kvs else None)"
  "number n (Untyped_Map a kvs) = (if a = n then number_entries number (Suc n) kvs else None)"
  "number n (Class_Instance a df vs) = (if a = n then number_each number (Suc n) vs else None)"
  "number n Null_Obj = Some n" "number n (Boolean_Obj b) = Some n" "number n (Integer_Obj i) = Some n"
  "number n (Double_Obj x) = Some n" "number n (Date_Obj t) = Some n" "number n (Long_Obj l) = Some n"
  "number n (Binary_Obj bs) = Some n" "number n (String_Obj s) = Some n"
  by (simp_all add: number.simps)

text \<open>What can be encoded, apart from the numbering.\<close>

fun encodable :: "bool \<Rightarrow> obj \<Rightarrow> bool" where
  "encodable java_lite (String_Obj s) \<longleftrightarrow> string_ok java_lite s"
| "encodable java_lite (Binary_Obj bs) \<longleftrightarrow> length bs \<le> 2 ^ 32"
| "encodable java_lite (Double_Obj x) \<longleftrightarrow> x \<noteq> f64_neg_zero"
| "encodable java_lite (Date_Obj t) \<longleftrightarrow> date_ok (sint t)"
| "encodable java_lite (Untyped_List a vs) \<longleftrightarrow> length vs < 2 ^ 31 \<and> list_all (\<lambda>v. encodable java_lite v) vs"
| "encodable java_lite (Typed_List a ty vs) \<longleftrightarrow> string_ok java_lite ty \<and> length vs < 2 ^ 31
     \<and> list_all (\<lambda>v. encodable java_lite v) vs"
| "encodable java_lite (Typed_Map a ty kvs) \<longleftrightarrow> string_ok java_lite ty
     \<and> list_all (\<lambda>(k, v). \<not> is_ref k \<and> encodable java_lite k \<and> encodable java_lite v) kvs"
| "encodable java_lite (Untyped_Map a kvs) \<longleftrightarrow>
     list_all (\<lambda>(k, v). \<not> is_ref k \<and> encodable java_lite k \<and> encodable java_lite v) kvs"
| "encodable java_lite (Class_Instance a df vs) \<longleftrightarrow> string_ok java_lite (def_type df)
     \<and> list_all (string_ok java_lite) (field_names df) \<and> length (field_names df) < 2 ^ 31
     \<and> length vs = length (field_names df) \<and> list_all (\<lambda>v. encodable java_lite v) vs"
| "encodable java_lite _ \<longleftrightarrow> True"

text \<open>What the decoder makes of it: the entries of every map are inserted again, one by one.\<close>

fun rebuild :: "emplace_fn \<Rightarrow> obj \<Rightarrow> obj" where
  "rebuild emp (Untyped_List a vs) = Untyped_List a (map (\<lambda>v. rebuild emp v) vs)"
| "rebuild emp (Typed_List a ty vs) = Typed_List a ty (map (\<lambda>v. rebuild emp v) vs)"
| "rebuild emp (Typed_Map a ty kvs) =
     Typed_Map a ty (foldl emp [] (map (\<lambda>(k, v). (rebuild emp k, rebuild emp v)) kvs))"
| "rebuild emp (Untyped_Map a kvs) =
     Untyped_Map a (foldl emp [] (map (\<lambda>(k, v). (rebuild emp k, rebuild emp v)) kvs))"
| "rebuild emp (Class_Instance a df vs) = Class_Instance a df (map (\<lambda>v. rebuild emp v) vs)"
| "rebuild emp p = p"

lemma is_ref_rebuild [simp]: "is_ref (rebuild emp p) \<longleftrightarrow> is_ref p"
  by (cases p) (simp_all add: is_ref_def)

section \<open>The encoder writes the grammar\<close>

definition small :: "tables \<Rightarrow> nat \<Rightarrow> bool" where
  "small T n \<longleftrightarrow> t_vals T = [0..<n] \<and> length (t_types T) \<le> n \<and> length (t_defs T) \<le> n"

lemma small_vals [simp]: "small T n \<Longrightarrow> length (t_vals T) = n"
  by (simp add: small_def)

lemma small_add:
  "small T n \<Longrightarrow> small (add_value T) (Suc n)"
  "small T n \<Longrightarrow> small (add_type (add_value T) ty) (Suc n)"
  "small T n \<Longrightarrow> small (add_def (add_value T) df) (Suc n)"
  by (auto simp: small_def add_value_def add_type_def add_def_def)

lemma number_each_mono:
  "(\<And>v n m. v \<in> set vs \<Longrightarrow> f n v = Some m \<Longrightarrow> n \<le> m) \<Longrightarrow> number_each f n vs = Some m \<Longrightarrow> n \<le> m"
proof (induction vs arbitrary: n)
  case (Cons v vs)
  then obtain l where l: "f n v = Some l" "number_each f l vs = Some m" by (auto split: option.splits)
  then have "n \<le> l" using Cons.prems(1) [of v n l] by simp
  also have "l \<le> m"
  proof (rule Cons.IH [OF _ l(2)])
    show "n' \<le> m'" if "v' \<in> set vs" "f n' v' = Some m'" for v' n' m'
      using Cons.prems(1) [of v' n' m'] that by simp
  qed
  finally show ?case .
qed simp

lemma number_entries_mono:
  "(\<And>k v n m. (k, v) \<in> set kvs \<Longrightarrow> f n k = Some m \<Longrightarrow> n \<le> m) \<Longrightarrow>
    (\<And>k v n m. (k, v) \<in> set kvs \<Longrightarrow> f n v = Some m \<Longrightarrow> n \<le> m) \<Longrightarrow> number_entries f n kvs = Some m \<Longrightarrow> n \<le> m"
proof (induction kvs arbitrary: n)
  case (Cons kv kvs)
  obtain k v where kv: "kv = (k, v)" by (cases kv)
  then obtain l j where l: "f n k = Some l" "f l v = Some j" "number_entries f j kvs = Some m"
    using Cons.prems(3) by (auto split: option.splits)
  have "n \<le> l" "l \<le> j" using Cons.prems(1,2) [of k v] l kv by simp_all
  moreover have "j \<le> m"
  proof (rule Cons.IH [OF _ _ l(3)])
    show "n' \<le> m'" if "(k', v') \<in> set kvs" "f n' k' = Some m'" for k' v' n' m'
      using Cons.prems(1) [of k' v' n' m'] that by simp
    show "n' \<le> m'" if "(k', v') \<in> set kvs" "f n' v' = Some m'" for k' v' n' m'
      using Cons.prems(2) [of k' v' n' m'] that by simp
  qed
  ultimately show ?case by simp
qed simp

lemma number_mono: "number n p = Some m \<Longrightarrow> n \<le> m"
proof (induction p arbitrary: n m)
  case (Typed_Map a ty kvs)
  then have "number_entries number (Suc n) kvs = Some m" by (simp split: if_splits)
  then have "Suc n \<le> m" by (rule number_entries_mono [rotated 2]) (use Typed_Map.IH in auto)
  then show ?case by simp
next
  case (Untyped_Map a kvs)
  then have "number_entries number (Suc n) kvs = Some m" by (simp split: if_splits)
  then have "Suc n \<le> m" by (rule number_entries_mono [rotated 2]) (use Untyped_Map.IH in auto)
  then show ?case by simp
qed (auto split: if_splits dest!: number_each_mono [rotated])

lemma writes_register_then:
  assumes "small T n" and "writes m (add_value T) bs T'"
  shows "writes (and_then (register n) (\<lambda>_. m)) T bs T'"
proof -
  have "emplace n (of_nat n) (indexed [0..<n]) = indexed ([0..<n] @ [n])"
    using emplace_indexed [of n "[0..<n]"] by (simp add: index_of_None del: upt_Suc)
  then have reg: "and_then (register n) (\<lambda>_. m) e = m (e\<lparr>e_values := indexed ([0..<n] @ [n])\<rparr>)"
    if "enc_has T e" for e
    using that assms(1) by (simp add: register_def enc_has_def small_def)
  have "enc_has (add_value T) (e\<lparr>e_values := indexed ([0..<n] @ [n])\<rparr>)" if "enc_has T e" for e
    using that assms(1) by (simp add: enc_has_def small_def add_value_def)
  with assms(2) have "\<exists>e'. m (e\<lparr>e_values := indexed ([0..<n] @ [n])\<rparr>) = (Ret True, e')
      \<and> e_out e' = e_out e @ bs \<and> enc_has T' e'" if "enc_has T e" for e
    using that unfolding writes_def
    by (auto dest: spec [of _ "e\<lparr>e_values := indexed ([0..<n] @ [n])\<rparr>"])
  then show ?thesis by (simp add: writes_def reg)
qed

lemma unat_length_code: "l \<le> 7 \<Longrightarrow> unat (word_of_int (0x70 + int l) :: u8) = 0x70 + l"
  "l \<le> 7 \<Longrightarrow> unat (word_of_int (0x78 + int l) :: u8) = 0x78 + l"
  using unat_of_nat_u8 [of "0x70 + l"] unat_of_nat_u8 [of "0x78 + l"] by simp_all

text \<open>\<open>p\<close> is written as a text of the grammar, in any context in which it is numbered.\<close>

definition writes_value :: "bool \<Rightarrow> emplace_fn \<Rightarrow> (f64 \<Rightarrow> i32) \<Rightarrow> obj \<Rightarrow> bool" where
  "writes_value java_lite emp oor p \<longleftrightarrow> (\<forall>T n m. small T n \<longrightarrow> number n p = Some m \<longrightarrow> m \<le> 32768 \<longrightarrow>
     (\<exists>bs T'. value_text java_lite emp T bs (rebuild emp p) T' \<and> small T' m
       \<and> writes (encode_object java_lite oor p) T bs T'))"

lemma writes_value_leaf:
  assumes "leaf_text java_lite bs p" and "encodes (encode_object java_lite oor p) bs"
  shows "writes_value java_lite emp oor p"
proof -
  have "rebuild emp p = p \<and> number n p = Some n" for n
    using leaf_text_first [OF assms(1)] by (cases p) (auto simp: leaf_code_def)
  then show ?thesis
    using assms by (auto simp: writes_value_def intro!: exI [of _ bs] writes_encodes
      value_text_values_text_entries_text.leaf)
qed

lemma encode_each_nil_then: "and_then (encode_each enc []) f = f ()"
  by (simp only: encode_each.simps and_then_simps)

lemma writes_each:
  assumes "\<forall>v \<in> set vs. writes_value java_lite emp oor v" and "small T n"
    and "number_each number n vs = Some m" and "m \<le> 32768"
  obtains bs T' where "values_text java_lite emp T bs (map (rebuild emp) vs) T'" and "small T' m"
    and "\<And>f cs T''. writes f T' cs T'' \<Longrightarrow>
      writes (and_then (encode_each (encode_object java_lite oor) vs) (\<lambda>_. f)) T (bs @ cs) T''"
proof -
  have "\<exists>bs T'. values_text java_lite emp T bs (map (rebuild emp) vs) T' \<and> small T' m
      \<and> (\<forall>f cs T''. writes f T' cs T'' \<longrightarrow>
        writes (and_then (encode_each (encode_object java_lite oor) vs) (\<lambda>_. f)) T (bs @ cs) T'')"
    using assms
  proof (induction vs arbitrary: T n)
    case Nil
    then show ?case by (intro exI [of _ "[]"] exI [of _ T])
        (simp add: value_text_values_text_entries_text.values_nil encode_each_nil_then del: encode_each.simps)
  next
    case (Cons v vs)
    then obtain l where l: "number n v = Some l" "number_each number l vs = Some m"
      by (auto split: option.splits)
    have lm: "l \<le> m" by (rule number_each_mono [OF _ l(2)]) (rule number_mono)
    have "\<exists>bs T'. value_text java_lite emp T bs (rebuild emp v) T' \<and> small T' l
        \<and> writes (encode_object java_lite oor v) T bs T'"
      using Cons.prems(1,2,4) l(1) lm unfolding writes_value_def by (simp add: order_trans)
    then obtain bs T1 where v: "value_text java_lite emp T bs (rebuild emp v) T1" "small T1 l"
        "writes (encode_object java_lite oor v) T bs T1" by blast
    obtain cs T2 where vs: "values_text java_lite emp T1 cs (map (rebuild emp) vs) T2" "small T2 m"
        "\<And>f ds T3. writes f T2 ds T3 \<Longrightarrow>
          writes (and_then (encode_each (encode_object java_lite oor) vs) (\<lambda>_. f)) T1 (cs @ ds) T3"
      using Cons.IH [OF _ v(2) l(2) Cons.prems(4)] Cons.prems(1) by auto
    have "writes (and_then (encode_each (encode_object java_lite oor) (v # vs)) (\<lambda>_. f)) T ((bs @ cs) @ ds) T3"
      if "writes f T2 ds T3" for f ds T3
      using writes_and_then [OF v(3), of "\<lambda>_. and_then (encode_each (encode_object java_lite oor) vs) (\<lambda>_. f)"]
        vs(3) [OF that] by (simp add: and_then_assoc)
    then show ?case
      using value_text_values_text_entries_text.values_cons [OF v(1) vs(1)] vs(2)
      by (intro exI [of _ "bs @ cs"] exI [of _ T2]) simp
  qed
  then show ?thesis using that by blast
qed

lemma encode_entries_nil_then: "and_then (encode_entries enc []) f = f ()"
  by (simp only: encode_entries.simps and_then_simps)

lemma writes_entries:
  assumes "\<forall>(k, v) \<in> set kvs. \<not> is_ref k \<and> writes_value java_lite emp oor k \<and> writes_value java_lite emp oor v"
    and "small T n" and "number_entries number n kvs = Some m" and "m \<le> 32768"
  obtains bs T' where "entries_text java_lite emp T bs (map (\<lambda>(k, v). (rebuild emp k, rebuild emp v)) kvs) T'"
    and "small T' m"
    and "\<And>f cs T''. writes f T' cs T'' \<Longrightarrow>
      writes (and_then (encode_entries (encode_object java_lite oor) kvs) (\<lambda>_. f)) T (bs @ cs) T''"
proof -
  let ?enc = "encode_object java_lite oor" and ?re = "\<lambda>(k, v). (rebuild emp k, rebuild emp v)"
  have "\<exists>bs T'. entries_text java_lite emp T bs (map ?re kvs) T' \<and> small T' m
      \<and> (\<forall>f cs T''. writes f T' cs T'' \<longrightarrow>
        writes (and_then (encode_entries ?enc kvs) (\<lambda>_. f)) T (bs @ cs) T'')"
    using assms
  proof (induction kvs arbitrary: T n)
    case Nil
    then show ?case by (intro exI [of _ "[]"] exI [of _ T])
        (simp add: value_text_values_text_entries_text.entries_nil encode_entries_nil_then
          del: encode_entries.simps)
  next
    case (Cons kv kvs)
    obtain k v where kv: "kv = (k, v)" by (cases kv)
    from Cons.prems(3) obtain j l where l: "number n k = Some j" "number j v = Some l"
        "number_entries number l kvs = Some m"
      by (auto simp: kv split: option.splits)
    have lm: "l \<le> m" by (rule number_entries_mono [OF _ _ l(3)]) (erule number_mono)+
    have jl: "j \<le> l" using l(2) by (rule number_mono)
    have ok: "\<not> is_ref k" "writes_value java_lite emp oor k" "writes_value java_lite emp oor v"
      using Cons.prems(1) kv by simp_all
    obtain bs T1 where k: "value_text java_lite emp T bs (rebuild emp k) T1" "small T1 j"
        "writes (?enc k) T bs T1"
      using ok(2) Cons.prems(2,4) l(1) jl lm unfolding writes_value_def by (meson order_trans)
    obtain cs T2 where v: "value_text java_lite emp T1 cs (rebuild emp v) T2" "small T2 l"
        "writes (?enc v) T1 cs T2"
      using ok(3) k(2) Cons.prems(4) l(2) lm unfolding writes_value_def by (meson order_trans)
    obtain ds T3 where kvs: "entries_text java_lite emp T2 ds (map ?re kvs) T3" "small T3 m"
        "\<And>f es T4. writes f T3 es T4 \<Longrightarrow> writes (and_then (encode_entries ?enc kvs) (\<lambda>_. f)) T2 (ds @ es) T4"
      using Cons.IH [OF _ v(2) l(3) Cons.prems(4)] Cons.prems(1) by auto
    have "writes (and_then (encode_entries ?enc (kv # kvs)) (\<lambda>_. f)) T ((bs @ cs @ ds) @ es) T4"
      if "writes f T3 es T4" for f es T4
      using writes_and_then [OF k(3), of "\<lambda>_. and_then (?enc v) (\<lambda>_. and_then (encode_entries ?enc kvs) (\<lambda>_. f))"]
        writes_and_then [OF v(3), of "\<lambda>_. and_then (encode_entries ?enc kvs) (\<lambda>_. f)"] kvs(3) [OF that]
      by (simp add: kv and_then_assoc)
    then show ?case
      using value_text_values_text_entries_text.entries_cons [OF k(1) _ v(1) kvs(1)] kvs(2) ok(1) kv
      by (intro exI [of _ "bs @ cs @ ds"] exI [of _ T3]) simp
  qed
  then show ?thesis using that by blast
qed

lemma writes_valueI:
  assumes "\<And>T n m. small T n \<Longrightarrow> number n p = Some m \<Longrightarrow> m \<le> 32768 \<Longrightarrow>
    \<exists>bs T'. value_text java_lite emp T bs (rebuild emp p) T' \<and> small T' m
      \<and> writes (encode_object java_lite oor p) T bs T'"
  shows "writes_value java_lite emp oor p"
  using assms by (simp add: writes_value_def)

lemma writes_code_then:
  "word_of_int v = c \<Longrightarrow> writes (f ()) T bs T' \<Longrightarrow> writes (and_then (enc_write_byte v) f) T (c # bs) T'"
  using writes_byte_then by blast

text \<open>A length of up to seven is part of the first byte.\<close>

lemma writes_length_then:
  assumes "writes f T bs T'"
  shows "writes (and_then (encode_i32 (of_nat l)) (\<lambda>_. f)) T (i32_repr (of_nat l) @ bs) T'"
  by (rule writes_and_then [OF writes_encodes [OF encode_i32_encodes]]) (rule assms)

lemma writes_untyped_list:
  assumes "\<forall>v \<in> set vs. writes_value java_lite emp oor v" and len: "length vs < 2 ^ 31"
  shows "writes_value java_lite emp oor (Untyped_List a vs)"
proof (rule writes_valueI)
  fix T n m assume T: "small T n" and num: "number n (Untyped_List a vs) = Some m" and m: "m \<le> 32768"
  from num have a: "a = n" "number_each number (Suc n) vs = Some m" by (simp_all split: if_splits)
  obtain bs T' where bs: "values_text java_lite emp (add_value T) bs (map (rebuild emp) vs) T'" "small T' m"
      "\<And>f cs T''. writes f T' cs T'' \<Longrightarrow>
        writes (and_then (encode_each (encode_object java_lite oor) vs) (\<lambda>_. f)) (add_value T) (bs @ cs) T''"
    using writes_each [OF assms(1) small_add(1) [OF T] a(2) m] by blast
  have items: "writes (and_then (encode_each (encode_object java_lite oor) vs) (\<lambda>_. ret True)) (add_value T) bs T'"
    using bs(3) [OF writes_ret] by simp
  show "\<exists>bs T'. value_text java_lite emp T bs (rebuild emp (Untyped_List a vs)) T' \<and> small T' m
      \<and> writes (encode_object java_lite oor (Untyped_List a vs)) T bs T'"
  proof (cases "length vs \<le> 7")
    case True
    let ?b = "word_of_int (0x78 + int (length vs)) :: u8"
    have "value_text java_lite emp T (?b # bs) (rebuild emp (Untyped_List a vs)) T'"
      using value_text_values_text_entries_text.untyped_list_short [OF bs(1), of ?b]
        unat_length_code(2) [OF True] True a(1) T by simp
    moreover have "writes (encode_object java_lite oor (Untyped_List a vs)) T (?b # bs) T'"
      using True items T unfolding encode_object_simps encode_untyped_list_def Let_def a(1)
      by (intro writes_register_then) (auto intro!: writes_code_then simp del: of_int_add)
    ultimately show ?thesis using bs(2) by blast
  next
    case False
    have "value_text java_lite emp T (0x58 # i32_repr (of_nat (length vs)) @ bs) (rebuild emp (Untyped_List a vs)) T'"
      using value_text_values_text_entries_text.untyped_list_fixed [OF bs(1), of "i32_repr (of_nat (length vs))"]
        count_repr [OF len] a(1) T by simp
    moreover have "writes (encode_object java_lite oor (Untyped_List a vs)) T
        (0x58 # i32_repr (of_nat (length vs)) @ bs) T'"
      using False writes_length_then [OF items] T unfolding encode_object_simps encode_untyped_list_def Let_def a(1)
      by (intro writes_register_then) (auto intro!: writes_code_then simp: and_then_assoc)
    ultimately show ?thesis using bs(2) by blast
  qed
qed

lemma writes_typed_list:
  assumes "\<forall>v \<in> set vs. writes_value java_lite emp oor v" and len: "length vs < 2 ^ 31"
    and ty: "string_ok java_lite ty"
  shows "writes_value java_lite emp oor (Typed_List a ty vs)"
proof (rule writes_valueI)
  fix T n m assume T: "small T n" and num: "number n (Typed_List a ty vs) = Some m" and m: "m \<le> 32768"
  from num have a: "a = n" "number_each number (Suc n) vs = Some m" by (simp_all split: if_splits)
  have "Suc n \<le> m" by (rule number_each_mono [OF _ a(2)]) (rule number_mono)
  then have tok: "type_ok java_lite (add_value T) ty"
    using ty T m by (simp add: type_ok_def small_def add_value_def)
  note tt = type_text_grammar [OF tok] and wt = encode_type_ref_writes [OF tok]
  obtain bs T' where bs: "values_text java_lite emp (add_type (add_value T) ty) bs (map (rebuild emp) vs) T'"
      "small T' m"
      "\<And>f cs T''. writes f T' cs T'' \<Longrightarrow>
        writes (and_then (encode_each (encode_object java_lite oor) vs) (\<lambda>_. f)) (add_type (add_value T) ty) (bs @ cs) T''"
    using writes_each [OF assms(1) small_add(2) [OF T] a(2) m] by blast
  have items: "writes (and_then (encode_each (encode_object java_lite oor) vs) (\<lambda>_. ret True))
      (add_type (add_value T) ty) bs T'"
    using bs(3) [OF writes_ret] by simp
  show "\<exists>bs T'. value_text java_lite emp T bs (rebuild emp (Typed_List a ty vs)) T' \<and> small T' m
      \<and> writes (encode_object java_lite oor (Typed_List a ty vs)) T bs T'"
  proof (cases "length vs \<le> 7")
    case True
    let ?b = "word_of_int (0x70 + int (length vs)) :: u8"
    have "value_text java_lite emp T (?b # type_text java_lite (add_value T) ty @ bs) (rebuild emp (Typed_List a ty vs)) T'"
      using value_text_values_text_entries_text.typed_list_short [OF tt bs(1), of ?b]
        unat_length_code(1) [OF True] True a(1) T by simp
    moreover have "writes (encode_object java_lite oor (Typed_List a ty vs)) T
        (?b # type_text java_lite (add_value T) ty @ bs) T'"
      using True items T unfolding encode_object_simps encode_typed_list_def Let_def a(1)
      by (intro writes_register_then)
        (auto intro!: writes_code_then writes_and_then [OF wt] simp del: of_int_add)
    ultimately show ?thesis using bs(2) by blast
  next
    case False
    let ?text = "0x56 # type_text java_lite (add_value T) ty @ i32_repr (of_nat (length vs)) @ bs"
    have "value_text java_lite emp T ?text (rebuild emp (Typed_List a ty vs)) T'"
      using value_text_values_text_entries_text.typed_list_fixed [OF tt bs(1), of "i32_repr (of_nat (length vs))"]
        count_repr [OF len] a(1) T by simp
    moreover have "writes (encode_object java_lite oor (Typed_List a ty vs)) T ?text T'"
      using False writes_length_then [OF items] T unfolding encode_object_simps encode_typed_list_def Let_def a(1)
      by (intro writes_register_then)
        (auto intro!: writes_code_then writes_and_then [OF wt] simp: and_then_assoc)
    ultimately show ?thesis using bs(2) by blast
  qed
qed

lemma writes_end: "writes (and_then (enc_write_byte 0x5a) (\<lambda>_. ret True)) T [0x5a] T"
  by (rule writes_code_then) (simp_all add: writes_ret)

lemma writes_map:
  assumes kvs: "\<forall>(k, v) \<in> set kvs. \<not> is_ref k \<and> writes_value java_lite emp oor k \<and> writes_value java_lite emp oor v"
  shows "writes_value java_lite emp oor (Untyped_Map a kvs)"
    and "string_ok java_lite ty \<Longrightarrow> writes_value java_lite emp oor (Typed_Map a ty kvs)"
proof -
  show "writes_value java_lite emp oor (Untyped_Map a kvs)"
  proof (rule writes_valueI)
    fix T n m assume T: "small T n" and num: "number n (Untyped_Map a kvs) = Some m" and m: "m \<le> 32768"
    from num have a: "a = n" "number_entries number (Suc n) kvs = Some m" by (simp_all split: if_splits)
    obtain bs T' where bs: "entries_text java_lite emp (add_value T) bs
        (map (\<lambda>(k, v). (rebuild emp k, rebuild emp v)) kvs) T'" "small T' m"
        "\<And>f cs T''. writes f T' cs T'' \<Longrightarrow>
          writes (and_then (encode_entries (encode_object java_lite oor) kvs) (\<lambda>_. f)) (add_value T) (bs @ cs) T''"
      using writes_entries [OF kvs small_add(1) [OF T] a(2) m] by blast
    have "value_text java_lite emp T (0x48 # bs @ [0x5a]) (rebuild emp (Untyped_Map a kvs)) T'"
      using value_text_values_text_entries_text.untyped_map [OF bs(1)] a(1) T by simp
    moreover have "writes (encode_object java_lite oor (Untyped_Map a kvs)) T (0x48 # bs @ [0x5a]) T'"
      using bs(3) [OF writes_end] T unfolding encode_object_simps encode_untyped_map_def a(1)
      by (intro writes_register_then) (auto intro!: writes_code_then)
    ultimately show "\<exists>bs T'. value_text java_lite emp T bs (rebuild emp (Untyped_Map a kvs)) T' \<and> small T' m
      \<and> writes (encode_object java_lite oor (Untyped_Map a kvs)) T bs T'" using bs(2) by blast
  qed
  show "writes_value java_lite emp oor (Typed_Map a ty kvs)" if ty: "string_ok java_lite ty"
  proof (rule writes_valueI)
    fix T n m assume T: "small T n" and num: "number n (Typed_Map a ty kvs) = Some m" and m: "m \<le> 32768"
    from num have a: "a = n" "number_entries number (Suc n) kvs = Some m" by (simp_all split: if_splits)
    have "Suc n \<le> m" by (rule number_entries_mono [OF _ _ a(2)]) (erule number_mono)+
    then have tok: "type_ok java_lite (add_value T) ty"
      using ty T m by (simp add: type_ok_def small_def add_value_def)
    obtain bs T' where bs: "entries_text java_lite emp (add_type (add_value T) ty) bs
        (map (\<lambda>(k, v). (rebuild emp k, rebuild emp v)) kvs) T'" "small T' m"
        "\<And>f cs T''. writes f T' cs T'' \<Longrightarrow> writes (and_then (encode_entries (encode_object java_lite oor) kvs)
          (\<lambda>_. f)) (add_type (add_value T) ty) (bs @ cs) T''"
      using writes_entries [OF kvs small_add(2) [OF T] a(2) m] by blast
    let ?text = "0x4d # type_text java_lite (add_value T) ty @ bs @ [0x5a]"
    have "value_text java_lite emp T ?text (rebuild emp (Typed_Map a ty kvs)) T'"
      using value_text_values_text_entries_text.typed_map [OF type_text_grammar [OF tok] bs(1)] a(1) T by simp
    moreover have "writes (encode_object java_lite oor (Typed_Map a ty kvs)) T ?text T'"
      using bs(3) [OF writes_end] T unfolding encode_object_simps encode_typed_map_def a(1)
      by (intro writes_register_then)
        (auto intro!: writes_code_then writes_and_then [OF encode_type_ref_writes [OF tok]])
    ultimately show "\<exists>bs T'. value_text java_lite emp T bs (rebuild emp (Typed_Map a ty kvs)) T' \<and> small T' m
      \<and> writes (encode_object java_lite oor (Typed_Map a ty kvs)) T bs T'" using bs(2) by blast
  qed
qed

lemma writes_instance:
  assumes vs: "\<forall>v \<in> set vs. writes_value java_lite emp oor v" and len: "length vs = length (field_names df)"
    and df: "string_ok java_lite (def_type df)" "\<forall>f \<in> set (field_names df). string_ok java_lite f"
      "length (field_names df) < 2 ^ 31"
  shows "writes_value java_lite emp oor (Class_Instance a df vs)"
proof (rule writes_valueI)
  fix T n m assume T: "small T n" and num: "number n (Class_Instance a df vs) = Some m" and m: "m \<le> 32768"
  from num have a: "a = n" "number_each number (Suc n) vs = Some m" by (simp_all split: if_splits)
  have "Suc n \<le> m" by (rule number_each_mono [OF _ a(2)]) (rule number_mono)
  then have dok: "def_ok java_lite (add_value T) df"
    using df T m by (simp add: def_ok_def small_def add_value_def)
  obtain bs T' where bs: "values_text java_lite emp (add_def (add_value T) df) bs (map (rebuild emp) vs) T'"
      "small T' m"
      "\<And>f cs T''. writes f T' cs T'' \<Longrightarrow>
        writes (and_then (encode_each (encode_object java_lite oor) vs) (\<lambda>_. f)) (add_def (add_value T) df) (bs @ cs) T''"
    using writes_each [OF vs small_add(3) [OF T] a(2) m] by blast
  let ?text = "def_text java_lite (add_value T) df @ bs"
  have "value_text java_lite emp T ?text (rebuild emp (Class_Instance a df vs)) T'"
    using instance_grammar [OF dok _ bs(1)] len a(1) T by simp
  moreover have "writes (encode_object java_lite oor (Class_Instance a df vs)) T ?text T'"
    using bs(3) [OF writes_ret] T unfolding encode_object_simps encode_class_instance_def a(1)
    by (intro writes_register_then) (auto intro!: writes_and_then [OF encode_raw_definition_writes [OF dok]])
  ultimately show "\<exists>bs T'. value_text java_lite emp T bs (rebuild emp (Class_Instance a df vs)) T' \<and> small T' m
      \<and> writes (encode_object java_lite oor (Class_Instance a df vs)) T bs T'" using bs(2) by blast
qed

lemma writes_ref: "writes_value java_lite emp oor (Ref_Obj d)"
proof (rule writes_valueI)
  fix T n m assume T: "small T n" and num: "number n (Ref_Obj d) = Some m" and m: "m \<le> 32768"
  from num have d: "d < n" "m = n" by (simp_all split: if_splits)
  have "index_of d (t_vals T) \<noteq> None" using T d by (simp add: small_def index_of_None)
  then obtain i where i: "index_of d (t_vals T) = Some i" by blast
  then have "i = d" "d < length (t_vals T)" "t_vals T ! d = d"
    using index_of_Some [OF i] T d by (auto simp: small_def)
  then have "value_text java_lite emp T (0x51 # i32_repr (of_nat d)) (Ref_Obj d) T"
    using value_text_values_text_entries_text.ref [OF count_repr, of d T] d m by simp
  moreover have "writes (encode_object java_lite oor (Ref_Obj d)) T (0x51 # i32_repr (of_nat d)) T"
    using encode_ref_writes [OF i] \<open>i = d\<close> d m by simp
  ultimately show "\<exists>bs T'. value_text java_lite emp T bs (rebuild emp (Ref_Obj d)) T' \<and> small T' m
      \<and> writes (encode_object java_lite oor (Ref_Obj d)) T bs T'"
    using T d(2) by auto
qed

theorem encodable_writes: "encodable java_lite p \<Longrightarrow> writes_value java_lite emp oor p"
proof (induction p)
  case Null_Obj
  then show ?case by (intro writes_value_leaf [OF leaf_text.null]) (simp add: encodes_def encode_null_def)
next
  case (Ref_Obj d)
  show ?case by (rule writes_ref)
next
  case (Boolean_Obj b)
  then show ?case using leaf_text.true leaf_text.false bool_codec.enc_repr [of b]
    by (cases b) (auto intro!: writes_value_leaf simp: bool_repr_def)
next
  case (Integer_Obj i)
  then show ?case by (intro writes_value_leaf [OF i32_repr_leaf]) (simp add: encode_i32_encodes)
next
  case (Double_Obj x)
  then show ?case by (intro writes_value_leaf [OF double_repr_leaf [of x java_lite oor]]) (simp_all add: encode_double_encodes)
next
  case (Date_Obj t)
  then show ?case by (intro writes_value_leaf [OF date_repr_leaf]) (simp_all add: encode_milliseconds_encodes)
next
  case (Long_Obj l)
  then show ?case by (intro writes_value_leaf [OF i64_repr_leaf]) (simp add: encode_i64_encodes)
next
  case (Binary_Obj bs)
  then show ?case
    using leaf_text.binary [of "binary_of bs" java_lite] encode_bytes_encodes [of bs]
    by (intro writes_value_leaf [of _ "binary_text (binary_of bs)"]) simp_all
next
  case (String_Obj s)
  then show ?case by (intro writes_value_leaf [OF string_repr_leaf]) (simp_all add: encode_string_encodes)
next
  case (Untyped_List a vs)
  then show ?case by (intro writes_untyped_list) (simp_all add: list_all_iff)
next
  case (Typed_List a ty vs)
  then show ?case by (intro writes_typed_list) (simp_all add: list_all_iff)
next
  case (Typed_Map a ty kvs)
  have "\<not> is_ref k \<and> writes_value java_lite emp oor k \<and> writes_value java_lite emp oor v" if "(k, v) \<in> set kvs" for k v
    using Typed_Map.IH [of "(k, v)"] Typed_Map.prems that by (auto simp: list_all_iff)
  then show ?case using Typed_Map.prems by (intro writes_map(2)) auto
next
  case (Untyped_Map a kvs)
  have "\<not> is_ref k \<and> writes_value java_lite emp oor k \<and> writes_value java_lite emp oor v" if "(k, v) \<in> set kvs" for k v
    using Untyped_Map.IH [of "(k, v)"] Untyped_Map.prems that by (auto simp: list_all_iff)
  then show ?case by (intro writes_map(1)) auto
next
  case (Class_Instance a df vs)
  then show ?case by (intro writes_instance) (simp_all add: list_all_iff)
qed

section \<open>Streams of objects\<close>

lemma value_text_reads_object:
  assumes "value_text java_lite emp T bs v T'"
  shows "reads (decode_object java_lite emp) T bs v T'"
  unfolding reads_def
proof (intro allI impI)
  fix d rest assume d: "wf_decoder d" "dec_has T d" "unread d = bs @ rest"
  have "reads (decode_object_fuel java_lite emp (Suc (length (unread d)))) T bs v T'"
    using d(3) by (intro reads_valueD [OF grammar_reads(1) [OF assms]]) simp
  then show "\<exists>d'. decode_object java_lite emp d = (Ret v, d') \<and> wf_decoder d' \<and> unread d' = rest \<and> dec_has T' d'"
    using d unfolding reads_def decode_object_eq [OF d(1)] by blast
qed

inductive_cases values_text_nilE: "values_text java_lite emp T bs [] T'"
inductive_cases values_text_consE: "values_text java_lite emp T bs (v # vs) T'"

lemma values_text_reads_seq:
  "values_text java_lite emp T bs vs T' \<Longrightarrow> reads (decode_seq (decode_object java_lite emp) (length vs)) T bs vs T'"
proof (induction vs arbitrary: T bs)
  case Nil
  then show ?case by (auto elim: values_text_nilE simp: reads_ret simp del: ret_run)
next
  case (Cons v vs)
  from Cons.prems obtain cs ds T1 where t: "bs = cs @ ds" "value_text java_lite emp T cs v T1"
      "values_text java_lite emp T1 ds vs T'" by (rule values_text_consE)
  have "reads (and_then (decode_seq (decode_object java_lite emp) (length vs)) (\<lambda>vs. ret (v # vs))) T1 ds (v # vs) T'"
    by (rule reads_then_ret [OF Cons.IH [OF t(3)]])
  from reads_and_then [OF value_text_reads_object [OF t(2)], of "\<lambda>v. and_then (decode_seq (decode_object java_lite emp) (length vs)) (\<lambda>vs. ret (v # vs))", OF this]
  show ?case by (simp add: t(1))
qed

text \<open>Encoding numbered objects one after the other, and decoding as many.\<close>

lemma encode_seq_objects:
  assumes "\<forall>p \<in> set ps. encodable java_lite p" and "number_each number n ps = Some m" and "m \<le> 32768"
    and "small T n"
  shows "\<exists>bs T'. values_text java_lite emp T bs (map (rebuild emp) ps) T' \<and> small T' m
    \<and> writes (encode_seq (encode_object java_lite oor) ps) T bs T'"
proof -
  have seq: "encode_seq enc ps = and_then (encode_each enc ps) (\<lambda>_. ret True)"
    for enc :: "obj \<Rightarrow> (encoder, bool) comp"
    by (induction ps) (simp_all add: and_then_assoc encode_each_nil_then del: ret_run)
  obtain bs T' where "values_text java_lite emp T bs (map (rebuild emp) ps) T'" "small T' m"
      "\<And>f cs T''. writes f T' cs T'' \<Longrightarrow>
        writes (and_then (encode_each (encode_object java_lite oor) ps) (\<lambda>_. f)) T (bs @ cs) T''"
    using writes_each [OF _ assms(4,2,3), of java_lite emp oor] assms(1) encodable_writes by blast
  then show ?thesis using writes_ret unfolding seq by (metis append_Nil2)
qed

lemma object_stream_grammar:
  assumes "\<forall>p \<in> set ps. encodable java_lite p" and "number_each number 0 ps = Some m" and "m \<le> 32768"
  obtains T' where
    "values_text java_lite emp no_tables (encoded (encode_seq (encode_object java_lite oor) ps)) (map (rebuild emp) ps) T'"
proof -
  have "small no_tables 0" by (simp add: small_def no_tables_def)
  from encode_seq_objects [OF assms this, of emp oor] obtain bs T' where
    t: "values_text java_lite emp no_tables bs (map (rebuild emp) ps) T'"
    and w: "writes (encode_seq (encode_object java_lite oor) ps) no_tables bs T'" by blast
  obtain e' where "encode_seq (encode_object java_lite oor) ps (new_encoder []) = (Ret True, e')"
      "e_out e' = e_out (new_encoder []) @ bs"
    using w enc_has_new unfolding writes_def by blast
  then have "encoded (encode_seq (encode_object java_lite oor) ps) = bs"
    by (simp add: encoded_def new_encoder_def)
  then show ?thesis using t that by simp
qed

lemma encoded_object_text:
  assumes "encodable java_lite p" and "number 0 p = Some m" and "m \<le> 32768"
  shows "\<exists>T'. value_text java_lite emp no_tables (encoded (encode_object java_lite oor p)) (rebuild emp p) T'"
proof -
  have "small no_tables 0" by (simp add: small_def no_tables_def)
  then obtain bs T' where t: "value_text java_lite emp no_tables bs (rebuild emp p) T'"
      "writes (encode_object java_lite oor p) no_tables bs T'"
    using encodable_writes [OF assms(1), of emp oor] assms(2,3) unfolding writes_value_def by blast
  obtain e' where "encode_object java_lite oor p (new_encoder []) = (Ret True, e')"
      "e_out e' = e_out (new_encoder []) @ bs"
    using t(2) enc_has_new unfolding writes_def by blast
  then show ?thesis using t(1) by (auto simp: encoded_def new_encoder_def)
qed

lemma object_round_trip:
  assumes "encodable java_lite p" and "number 0 p = Some m" and "m \<le> 32768"
    and "length (encoded (encode_object java_lite oor p)) < 2 ^ 63"
  shows "decoded (decode_object java_lite emp) (encoded (encode_object java_lite oor p)) = Ret (rebuild emp p)"
proof -
  obtain T' where "value_text java_lite emp no_tables (encoded (encode_object java_lite oor p)) (rebuild emp p) T'"
    using encoded_object_text [OF assms(1-3)] by blast
  from value_text_reads_object [OF this] show ?thesis
    using wf_new_decoder [OF assms(4)] dec_has_new unread_new_decoder unfolding reads_def decoded_def
    by (metis append_Nil2 fst_conv)
qed

section \<open>Properties\<close>

text \<open>
  C1. Objects written one after the other by one encoder are read back by one decoder, in order,
  for all kinds of objects and any nesting, repeated types and definitions and references between
  the objects included. A map comes back as its entries inserted one by one into a hash table.
\<close>

theorem object_stream_round_trip:
  assumes "\<forall>p \<in> set ps. encodable java_lite p" and "number_each number 0 ps = Some m" and "m \<le> 32768"
    and "length (encoded (encode_seq (encode_object java_lite oor) ps)) < 2 ^ 63"
  shows "decoded (decode_seq (decode_object java_lite emp) (length ps))
      (encoded (encode_seq (encode_object java_lite oor) ps)) = Ret (map (rebuild emp) ps)"
proof -
  obtain T' where t: "values_text java_lite emp no_tables
      (encoded (encode_seq (encode_object java_lite oor) ps)) (map (rebuild emp) ps) T'"
    by (rule object_stream_grammar [OF assms(1-3)])
  have "reads (decode_seq (decode_object java_lite emp) (length ps)) no_tables
      (encoded (encode_seq (encode_object java_lite oor) ps)) (map (rebuild emp) ps) T'"
    using values_text_reads_seq [OF t] by simp
  then show ?thesis
    using wf_new_decoder [OF assms(4)] dec_has_new unread_new_decoder unfolding reads_def decoded_def
    by (metis append_Nil2 fst_conv)
qed

text \<open>Two objects: a list with a number and a reference to itself, and one more reference to it.\<close>

definition example_objects :: "obj list" where
  "example_objects = [Untyped_List 0 [Integer_Obj 1, Ref_Obj 0], Ref_Obj 0]"

lemma encoded_example_objects:
  "encoded (encode_seq (encode_object False (\<lambda>_. 0)) example_objects) = [0x7a, 0x91, 0x51, 0x90, 0x51, 0x90]"
  by (simp add: example_objects_def encoded_def encode_untyped_list_def register_def emplace_def and_then_def
      new_encoder_def encode_i32_def encode_ref_def getValueRef_def emit_def)

theorem object_stream_round_trip_witness:
  "decoded (decode_seq (decode_object False (append_entry (\<lambda>_. 0))) (Suc (Suc 0)))
     [0x7a, 0x91, 0x51, 0x90, 0x51, 0x90] = Ret example_objects"
  using object_stream_round_trip [of example_objects False "Suc 0" "\<lambda>_. 0" "append_entry (\<lambda>_. 0)"]
  by (simp add: encoded_example_objects del: decode_seq.simps encode_seq.simps)
    (simp add: example_objects_def del: decode_seq.simps encode_seq.simps)


lemma int_text: "- 0x10 \<le> x \<Longrightarrow> x \<le> 0x2f \<Longrightarrow> uint b = x + 0x90 \<Longrightarrow>
    value_text java_lite emp T [b] (Integer_Obj (word_of_int x)) T"
  by (intro value_text_values_text_entries_text.leaf leaf_text.int_1)


text \<open>
  C6. The object encoder writes a text of the grammar, the one that stands for the object it was
  given, whatever the hash tables of the reader do.
\<close>

theorem encode_object_grammar:
  assumes "encodable java_lite p" and "number 0 p = Some m" and "m \<le> 32768"
  shows "\<exists>T'. value_text java_lite emp no_tables (encoded (encode_object java_lite oor p)) (rebuild emp p) T'"
  by (rule encoded_object_text [OF assms])

theorem encode_object_grammar_witness:
  "\<exists>T'. value_text False (append_entry (\<lambda>_. 0)) no_tables
     (encoded (encode_object False (\<lambda>_. 0) (Untyped_List 0 [Integer_Obj 1, Ref_Obj 0])))
     (Untyped_List 0 [Integer_Obj 1, Ref_Obj 0]) T'"
  using encode_object_grammar [of False "Untyped_List 0 [Integer_Obj 1, Ref_Obj 0]" "Suc 0"] by simp

section \<open>Maps\<close>

text \<open>
  The contract of the hash table of a map, of which the decoder only calls \<open>emplace\<close>. What a map
  holds after its entries have been read follows from it.
\<close>

locale object_map =
  fixes hsh :: "obj \<Rightarrow> u64" and emp :: emplace_fn
  assumes emplace_law: "(emp kvs kv = kvs \<and> (\<exists>kv' \<in> set kvs. obj_equal hsh (fst kv') (fst kv)))
     \<or> mset (emp kvs kv) = add_mset kv (mset kvs)"
begin

text \<open>No entry is made up, whatever the keys are.\<close>

lemma entries_subset: "set (foldl emp acc kvs) \<subseteq> set acc \<union> set kvs"
proof (induction kvs arbitrary: acc)
  case (Cons kv kvs)
  have "set (emp acc kv) \<subseteq> insert kv (set acc)"
    using emplace_law [of acc kv] by (metis set_mset_add_mset_insert set_mset_mset subset_insertI order_refl)
  then show ?case using Cons [of "emp acc kv"] by auto
qed simp

text \<open>When no two keys are equal, nothing is lost either.\<close>

lemma entries_kept:
  assumes "sorted_wrt (\<lambda>x y. \<not> obj_equal hsh (fst x) (fst y)) (acc @ kvs)"
    and "mset m = mset acc"
  shows "mset (foldl emp m kvs) = mset (acc @ kvs)"
  using assms
proof (induction kvs arbitrary: acc m)
  case (Cons kv kvs)
  have "\<not> obj_equal hsh (fst kv') (fst kv)" if "kv' \<in> set m" for kv'
    using Cons.prems that mset_eq_setD [OF Cons.prems(2)] by (auto simp: sorted_wrt_append)
  then have "mset (emp m kv) = mset (acc @ [kv])" using emplace_law [of m kv] Cons.prems(2) by auto
  from Cons.IH [OF _ this] Cons.prems(1) show ?case by simp
qed simp

text \<open>Every key that was inserted is there, or one equal to it.\<close>

lemma keys_present:
  assumes "kv \<in> set kvs"
  shows "kv \<in> set (foldl emp m kvs) \<or> (\<exists>kv' \<in> set (foldl emp m kvs). obj_equal hsh (fst kv') (fst kv))"
proof -
  have step: "set acc \<subseteq> set (emp acc x)" for acc x
    using emplace_law [of acc x] by (metis set_mset_add_mset_insert set_mset_mset subset_insertI order_refl)
  have mono: "set acc \<subseteq> set (foldl emp acc xs)" for acc xs
  proof (induction xs arbitrary: acc)
    case (Cons x xs)
    from step [of acc x] Cons [of "emp acc x"] show ?case by simp
  qed simp
  show ?thesis using assms
  proof (induction kvs arbitrary: m)
    case (Cons x kvs)
    show ?case
    proof (cases "kv = x")
      case True
      have "kv \<in> set (emp m x) \<or> (\<exists>kv' \<in> set (emp m x). obj_equal hsh (fst kv') (fst kv))"
        using emplace_law [of m x] True by (metis set_mset_add_mset_insert set_mset_mset insertI1)
      then show ?thesis using mono [of "emp m x" kvs] by auto
    qed (use Cons in auto)
  qed simp
qed

end

lemma emplace_contract_iff: "emplace_contract hsh emp \<longleftrightarrow> object_map hsh emp"
  by (auto simp: emplace_contract_def object_map_def)

interpretation append_map: object_map hsh "append_entry hsh" for hsh
  using append_entry_contract emplace_contract_iff by blast



text \<open>No two keys of a map are equal, in the object and in all its parts.\<close>

fun keys_differ :: "(obj \<Rightarrow> u64) \<Rightarrow> obj \<Rightarrow> bool" where
  "keys_differ hsh (Untyped_List a vs) \<longleftrightarrow> list_all (\<lambda>v. keys_differ hsh v) vs"
| "keys_differ hsh (Typed_List a ty vs) \<longleftrightarrow> list_all (\<lambda>v. keys_differ hsh v) vs"
| "keys_differ hsh (Typed_Map a ty kvs) \<longleftrightarrow> sorted_wrt (\<lambda>x y. \<not> obj_equal hsh (fst x) (fst y)) kvs
     \<and> list_all (\<lambda>(k, v). keys_differ hsh k \<and> keys_differ hsh v) kvs"
| "keys_differ hsh (Untyped_Map a kvs) \<longleftrightarrow> sorted_wrt (\<lambda>x y. \<not> obj_equal hsh (fst x) (fst y)) kvs
     \<and> list_all (\<lambda>(k, v). keys_differ hsh k \<and> keys_differ hsh v) kvs"
| "keys_differ hsh (Class_Instance a df vs) \<longleftrightarrow> list_all (\<lambda>v. keys_differ hsh v) vs"
| "keys_differ hsh _ \<longleftrightarrow> True"

lemma foldl_append_entry:
  "sorted_wrt (\<lambda>x y. \<not> obj_equal hsh (fst x) (fst y)) (acc @ kvs) \<Longrightarrow>
    foldl (append_entry hsh) acc kvs = acc @ kvs"
proof (induction kvs arbitrary: acc)
  case (Cons kv kvs)
  have "map_find hsh (obj_equal hsh) acc (fst kv) = None"
    using Cons.prems by (fastforce simp: map_find_def find_None_iff sorted_wrt_append)
  then have "append_entry hsh acc kv = acc @ [kv]" by (simp add: append_entry_def)
  then show ?case using Cons.IH [of "acc @ [kv]"] Cons.prems by simp
qed simp

lemma rebuild_append_entry: "keys_differ hsh p \<Longrightarrow> rebuild (append_entry hsh) p = p"
proof (induction p)
  case (Typed_Map a ty kvs)
  have "map (\<lambda>(k, v). (rebuild (append_entry hsh) k, rebuild (append_entry hsh) v)) kvs = kvs"
    using Typed_Map by (intro map_idI) (fastforce simp: list_all_iff)
  then show ?case using Typed_Map.prems foldl_append_entry [of hsh "[]" kvs] by simp
next
  case (Untyped_Map a kvs)
  have "map (\<lambda>(k, v). (rebuild (append_entry hsh) k, rebuild (append_entry hsh) v)) kvs = kvs"
    using Untyped_Map by (intro map_idI) (fastforce simp: list_all_iff)
  then show ?case using Untyped_Map.prems foldl_append_entry [of hsh "[]" kvs] by simp
qed (auto simp: list_all_iff intro: map_idI)



end
