(* ===== verification/Object_Evaluation.thy ===== *)
theory Object_Evaluation
  imports Object_Round_Trip
begin

text \<open>
  What the decoder does on concrete inputs: the equations that evaluate it, and the behaviours of
  src/hessian2/basic_codec/object_codec.cc, map_codec.cc and class_instance_codec.cc on inputs that
  no encoder writes.
\<close>

section \<open>Evaluation\<close>

lemma read_nums_numeral:
  "read_nums dec (numeral n) acc = and_then dec (\<lambda>v. read_nums dec (pred_numeral n) (acc @ [v]))"
  by (simp add: numeral_eq_Suc)

lemmas eval_decoder = read_nums_numeral Let_def and_then_run dec_peek_u8_run dec_read_u8_run dec_readBE_run
  dec_read_n_bytes_run be_val_def decoded_def

lemmas eval_string = decode_string_def readChunkString_def getUtf8StringLength_def char_length_def
  UTF_8_CHAR_LENGTHS_def

lemmas eval_object = decode_object_def decode_object_fuel.simps decode_i32_def decode_null_def
  decode_ref_def new_ref_def decode_untyped_list_def decode_typed_list_def decode_untyped_map_def
  decode_typed_map_def insert_entry_def decode_class_instance_def find_definition_def
  decode_definition_def decode_type_ref_def

section \<open>Properties\<close>

text \<open>Five first bytes, 0x40, 0x45, 0x47, 0x50 and 0x5a, start no object: decoding returns a
  null pointer and consumes nothing, not even that byte, so the error is not seen in the reader.\<close>

lemma reserved_code_is_no_object:
  assumes "wf_decoder d" and "unread d = b # bs" and "b \<in> {0x40, 0x45, 0x47, 0x50, 0x5a}"
  shows "decode_object java_lite emp d = (Null, d)"
proof -
  have "decode_object_fuel java_lite emp (Suc k) d = (Null, d)" for k
    using assms(3)
    by (elim insertE emptyE)
      (simp_all add: decode_object_fuel.simps(2) and_then_run dec_peek_u8_run assms(1,2) Let_def cong: if_weak_cong)
  then show ?thesis using assms(1,2)
    by (simp add: decode_object_def and_then_run dec_byte_available_run)
qed

lemma reserved_code_is_no_object_witness:
  "decode_object True (append_entry (\<lambda>_. 0)) (new_decoder [0x5a]) = (Null, new_decoder [0x5a])"
  by (rule reserved_code_is_no_object [where bs = "[]" and b = "0x5a"]) simp_all



end
