(* ===== verification/Object_Invariant.thy ===== *)
theory Object_Invariant
  imports Object_Evaluation
begin

text \<open>
  The invariant of a decoder: its value table holds the addresses it has given out, in order. On
  any input the tables only grow, and a decoded object is well typed in them: its type names and
  definitions are entries, every address in it has been given out, and an instance has a value for
  each field of its definition. The steps are verified with pre- and postconditions (\<open>triple\<close>).
\<close>

section \<open>The invariant\<close>

definition values_ok :: "decoder \<Rightarrow> bool" where
  "values_ok d \<longleftrightarrow> d_values d = [0..<d_next d]"

definition grown :: "decoder \<Rightarrow> decoder \<Rightarrow> bool" where
  "grown d d' \<longleftrightarrow> (\<exists>ts. d_types d' = d_types d @ ts) \<and> (\<exists>ds. d_defs d' = d_defs d @ ds)
     \<and> (\<exists>as. d_values d' = d_values d @ as) \<and> d_next d \<le> d_next d'"

lemma grown_refl [simp]: "grown d d"
  by (simp add: grown_def)

lemma grown_trans: "grown d1 d2 \<Longrightarrow> grown d2 d3 \<Longrightarrow> grown d1 d3"
  by (auto simp: grown_def)

text \<open>What larger tables cannot break.\<close>

definition lasting :: "(decoder \<Rightarrow> bool) \<Rightarrow> bool" where
  "lasting A \<longleftrightarrow> (\<forall>d d'. grown d d' \<longrightarrow> A d \<longrightarrow> A d')"

named_theorems lasting_intros \<open>rules for lasting\<close>

lemma lasting_rules [lasting_intros]:
  "lasting (\<lambda>_. c)" "lasting (\<lambda>d. a < d_next d)" "lasting (\<lambda>d. ty \<in> set (d_types d))"
  "lasting (\<lambda>d. df \<in> set (d_defs d))"
  by (auto simp: lasting_def grown_def)

lemma lasting_conj [lasting_intros]: "lasting A \<Longrightarrow> lasting B \<Longrightarrow> lasting (\<lambda>d. A d \<and> B d)"
  unfolding lasting_def by blast

lemma lastingD: "lasting A \<Longrightarrow> grown d d' \<Longrightarrow> A d \<Longrightarrow> A d'"
  by (simp add: lasting_def)

definition triple :: "(decoder \<Rightarrow> bool) \<Rightarrow> (decoder, 'v) comp \<Rightarrow> (decoder \<Rightarrow> 'v \<Rightarrow> bool) \<Rightarrow> bool" where
  "triple A m P \<longleftrightarrow> (\<forall>d r d'. values_ok d \<longrightarrow> A d \<longrightarrow> m d = (r, d') \<longrightarrow>
     values_ok d' \<and> grown d d' \<and> (\<forall>v. r = Ret v \<longrightarrow> P d' v))"

lemma tripleD:
  "triple A m P \<Longrightarrow> values_ok d \<Longrightarrow> A d \<Longrightarrow> m d = (r, d') \<Longrightarrow>
    values_ok d' \<and> grown d d' \<and> (\<forall>v. r = Ret v \<longrightarrow> P d' v)"
  by (simp add: triple_def)

lemma triple_and_then:
  assumes m: "triple A m Q" and f: "\<And>x. triple (\<lambda>d. Q d x) (f x) P"
  shows "triple A (and_then m f) P"
  unfolding triple_def
proof (intro allI impI)
  fix d r d' assume d: "values_ok d" "A d" and run: "and_then m f d = (r, d')"
  obtain r1 d1 where m1: "m d = (r1, d1)" by (cases "m d")
  note s1 = tripleD [OF m d m1]
  show "values_ok d' \<and> grown d d' \<and> (\<forall>v. r = Ret v \<longrightarrow> P d' v)"
  proof (cases r1)
    case (Ret x)
    then have "f x d1 = (r, d')" using run m1 by (simp add: and_then_def)
    then show ?thesis using tripleD [OF f, of d1 x r d'] s1 Ret by (auto intro: grown_trans)
  qed (use run m1 s1 in \<open>auto simp: and_then_def\<close>)
qed

lemma triple_frame:
  assumes "triple (\<lambda>_. True) m P" and "lasting A"
  shows "triple A m (\<lambda>d v. A d \<and> P d v)"
  using assms unfolding triple_def lasting_def by blast

lemma triple_weaken:
  "triple A m P \<Longrightarrow> (\<And>d. A' d \<Longrightarrow> A d) \<Longrightarrow> (\<And>d v. P d v \<Longrightarrow> P' d v) \<Longrightarrow> triple A' m P'"
  unfolding triple_def by blast

text \<open>The next step keeps what is known.\<close>

lemma triple_step:
  "triple (\<lambda>_. True) m P \<Longrightarrow> lasting A \<Longrightarrow> (\<And>x. triple (\<lambda>d. A d \<and> P d x) (f x) Q) \<Longrightarrow> triple A (and_then m f) Q"
  by (rule triple_and_then [OF triple_frame])

lemma triple_basic:
  "triple A nullptr P" "triple A abort P" "triple A hang P"
  by (simp_all add: triple_def)

lemma triple_ret: "(\<And>d. A d \<Longrightarrow> P d v) \<Longrightarrow> triple A (ret v) P"
  by (simp add: triple_def)

lemma triple_if: "triple A m P \<Longrightarrow> triple A m' P \<Longrightarrow> triple A (if b then m else m') P"
  by simp

section \<open>Steps that leave the tables alone\<close>

definition quiet :: "(decoder, 'v) comp \<Rightarrow> bool" where
  "quiet m \<longleftrightarrow> (\<forall>d r d'. m d = (r, d') \<longrightarrow> d_types d' = d_types d \<and> d_defs d' = d_defs d
     \<and> d_values d' = d_values d \<and> d_next d' = d_next d)"

named_theorems quiet_intros \<open>rules for quiet\<close>

lemma quiet_basic [quiet_intros]:
  "quiet (ret x)" "quiet nullptr" "quiet abort" "quiet hang" "quiet (gets f)"
  by (simp_all add: quiet_def)

lemma quiet_lift [quiet_intros]: "quiet (lift_read f)"
  by (auto simp: quiet_def lift_read_def split: option.splits)

lemma quiet_reads [quiet_intros]:
  "quiet dec_read_u8" "quiet dec_peek_u8" "quiet dec_readBE" "quiet (dec_read_n_bytes k)" "quiet dec_byte_available"
  unfolding dec_read_u8_def dec_peek_u8_def dec_readBE_def dec_read_n_bytes_def dec_byte_available_def
  by (rule quiet_intros)+

lemma quiet_and_then [quiet_intros]: "quiet m \<Longrightarrow> (\<And>x. quiet (f x)) \<Longrightarrow> quiet (and_then m f)"
  unfolding quiet_def and_then_def by (fastforce split: prod.splits result.splits)

lemma quiet_if [quiet_intros]: "quiet m \<Longrightarrow> quiet m' \<Longrightarrow> quiet (if b then m else m')"
  by simp

lemma quiet_of_defined [quiet_intros]: "quiet (of_defined r)"
  by (cases r) (simp_all add: quiet_basic)

lemma quiet_set_error [quiet_intros]: "quiet (set_error c)"
  by (simp add: quiet_def set_error_def)

lemma quiet_numbers [quiet_intros]:
  "quiet decode_bool" "quiet decode_i32" "quiet decode_i64" "quiet decode_double" "quiet decode_milliseconds"
  unfolding decode_bool_def decode_i32_def decode_i64_def decode_double_def decode_milliseconds_def
    readDate_def readBE_double4_def readBE_double8_def Let_def
  by (intro quiet_intros)+

lemma quiet_finalRead [quiet_intros]: "quiet (finalReadUtf8String k st len)"
  by (induction k st len rule: finalReadUtf8String.induct)
    (simp_all add: Let_def quiet_intros split: prod.splits)

lemma quiet_decodeStringWithReader: "quiet (decodeStringWithReader k st)"
  by (induction k arbitrary: st) (auto simp: Let_def readChunkString_def intro!: quiet_intros)

lemma quiet_decodeBytesWithReader: "quiet (decodeBytesWithReader k out)"
  by (induction k arbitrary: out) (auto simp: Let_def readBytes_def intro!: quiet_intros)

lemma quiet_strings [quiet_intros]: "quiet (decode_string java_lite)" "quiet decode_bytes"
  unfolding decode_string_def decode_bytes_def Let_def
  by (intro quiet_intros quiet_decodeStringWithReader quiet_decodeBytesWithReader)+

lemma quiet_decode_field_names: "quiet (decode_field_names java_lite k names)"
  by (induction k arbitrary: names) (auto intro!: quiet_intros)

lemma quiet_decode_null [quiet_intros]: "quiet decode_null"
  unfolding decode_null_def by (intro quiet_intros)

section \<open>Steps that use the tables\<close>

lemma quiet_triple: "quiet m \<Longrightarrow> triple (\<lambda>_. True) m (\<lambda>_ _. True)"
  unfolding quiet_def triple_def grown_def values_ok_def by (metis append_Nil2 order_refl)

lemma triple_skip:
  assumes "quiet m" and "lasting A" and "\<And>x. triple A (f x) P"
  shows "triple A (and_then m f) P"
  by (rule triple_step [OF quiet_triple [OF assms(1)] assms(2)]) (rule triple_weaken [OF assms(3)], simp_all)

text \<open>An index of a table that is in bounds.\<close>

lemma triple_lookup:
  assumes "\<And>d i. values_ok d \<Longrightarrow> i < length (table d) \<Longrightarrow> P d (table d ! i)"
  shows "triple (\<lambda>_. True) (and_then (gets table) (\<lambda>t. if length t \<le> i then nullptr else ret (t ! i))) P"
  using assms by (auto simp: triple_def and_then_def gets_def nullptr_def split: if_splits)

lemma triple_add_type: "triple (\<lambda>_. True) (modify (\<lambda>d. d\<lparr>d_types := d_types d @ [ty]\<rparr>)) (\<lambda>d _. ty \<in> set (d_types d))"
  by (simp add: triple_def grown_def values_ok_def)

lemma triple_add_def: "triple (\<lambda>_. True) (modify (\<lambda>d. d\<lparr>d_defs := d_defs d @ [df]\<rparr>)) (\<lambda>d _. df \<in> set (d_defs d))"
  by (simp add: triple_def grown_def values_ok_def)

lemma triple_dead: "triple (\<lambda>_. True) (modify (\<lambda>d. d\<lparr>d_dead := g (d_dead d)\<rparr>)) (\<lambda>_ _. True)"
  by (simp add: triple_def grown_def values_ok_def)

lemma triple_new_ref: "triple (\<lambda>_. True) new_ref (\<lambda>d a. a < d_next d)"
  by (simp add: triple_def grown_def values_ok_def new_ref_def)

lemma triple_decode_type_ref: "triple (\<lambda>_. True) (decode_type_ref java_lite) (\<lambda>d ty. ty \<in> set (d_types d))"
  unfolding decode_type_ref_def
  by (intro triple_skip triple_and_then [OF triple_add_type] triple_if triple_basic triple_lookup
      quiet_intros lasting_intros triple_ret nth_mem)

lemma triple_decode_definition: "triple (\<lambda>_. True) (decode_definition java_lite) (\<lambda>d df. df \<in> set (d_defs d))"
  unfolding decode_definition_def Let_def
  by (intro triple_if triple_basic triple_lookup [of d_defs] triple_and_then [OF triple_add_def] triple_ret nth_mem
      triple_skip quiet_intros quiet_decode_field_names lasting_intros)

lemma triple_find_definition: "triple (\<lambda>_. True) (find_definition java_lite) (\<lambda>d df. df \<in> set (d_defs d))"
proof -
  have first: "triple (\<lambda>_. True) (if b then and_then (decode_definition java_lite) (\<lambda>_. ret ()) else ret ()) (\<lambda>_ _. True)" for b
    by (intro triple_if triple_and_then [OF triple_decode_definition] triple_ret TrueI)
  show ?thesis unfolding find_definition_def
    by (intro triple_skip triple_if triple_basic triple_and_then [OF first] triple_decode_definition quiet_intros lasting_intros)
qed

text \<open>A back reference is an entry of the value table, which holds addresses given out.\<close>

lemma triple_decode_ref: "triple (\<lambda>_. True) decode_ref (\<lambda>d a. a < d_next d)"
proof -
  have look: "triple (\<lambda>_. True) (and_then (gets d_values) (\<lambda>t. if length t \<le> i then nullptr else ret (t ! i)))
      (\<lambda>d a. a < d_next d)" for i
    by (rule triple_lookup) (simp add: values_ok_def)
  show ?thesis unfolding decode_ref_def
    by (intro triple_if triple_basic look triple_skip quiet_intros lasting_intros)
qed

section \<open>Well-typed objects\<close>

fun well_typed :: "decoder \<Rightarrow> obj \<Rightarrow> bool" where
  "well_typed d (Ref_Obj a) \<longleftrightarrow> a < d_next d"
| "well_typed d (Untyped_List a vs) \<longleftrightarrow> a < d_next d \<and> list_all (\<lambda>v. well_typed d v) vs"
| "well_typed d (Typed_List a ty vs) \<longleftrightarrow>
     a < d_next d \<and> ty \<in> set (d_types d) \<and> list_all (\<lambda>v. well_typed d v) vs"
| "well_typed d (Typed_Map a ty kvs) \<longleftrightarrow>
     a < d_next d \<and> ty \<in> set (d_types d) \<and> list_all (\<lambda>(k, v). well_typed d k \<and> well_typed d v) kvs"
| "well_typed d (Untyped_Map a kvs) \<longleftrightarrow>
     a < d_next d \<and> list_all (\<lambda>(k, v). well_typed d k \<and> well_typed d v) kvs"
| "well_typed d (Class_Instance a df vs) \<longleftrightarrow>
     a < d_next d \<and> df \<in> set (d_defs d) \<and> length vs = length (field_names df)
     \<and> list_all (\<lambda>v. well_typed d v) vs"
| "well_typed d _ \<longleftrightarrow> True"

lemma grown_member:
  assumes "grown d d'"
  shows "a < d_next d \<Longrightarrow> a < d_next d'" "ty \<in> set (d_types d) \<Longrightarrow> ty \<in> set (d_types d')"
    "df \<in> set (d_defs d) \<Longrightarrow> df \<in> set (d_defs d')"
  using assms by (auto simp: grown_def)

lemma well_typed_mono:
  assumes "grown d d'"
  shows "well_typed d p \<Longrightarrow> well_typed d' p"
proof (induction p)
  case (Typed_Map a ty kvs)
  have "well_typed d' k \<and> well_typed d' v" if "(k, v) \<in> set kvs" for k v
    using Typed_Map.IH [of "(k, v)"] Typed_Map.prems that by (auto simp: list_all_iff)
  then show ?case using Typed_Map.prems by (auto simp: list_all_iff intro: grown_member [OF assms])
next
  case (Untyped_Map a kvs)
  have "well_typed d' k \<and> well_typed d' v" if "(k, v) \<in> set kvs" for k v
    using Untyped_Map.IH [of "(k, v)"] Untyped_Map.prems that by (auto simp: list_all_iff)
  then show ?case using Untyped_Map.prems by (auto simp: list_all_iff intro: grown_member [OF assms])
qed (auto simp: list_all_iff intro: grown_member [OF assms])

definition values_typed :: "decoder \<Rightarrow> obj list \<Rightarrow> bool" where
  "values_typed d vs \<longleftrightarrow> list_all (well_typed d) vs"

definition entries_typed :: "decoder \<Rightarrow> (obj \<times> obj) list \<Rightarrow> bool" where
  "entries_typed d kvs \<longleftrightarrow> list_all (\<lambda>(k, v). well_typed d k \<and> well_typed d v) kvs"

lemma lasting_typed [lasting_intros]:
  "lasting (\<lambda>d. well_typed d p)" "lasting (\<lambda>d. values_typed d vs)" "lasting (\<lambda>d. entries_typed d kvs)"
  by (auto simp: lasting_def values_typed_def entries_typed_def list_all_iff intro: well_typed_mono)

lemma typed_basics:
  "values_typed d []" "values_typed d (vs @ [v]) \<longleftrightarrow> values_typed d vs \<and> well_typed d v" "entries_typed d []"
  by (auto simp: values_typed_def entries_typed_def)

section \<open>Loops\<close>

lemma triple_read_nums:
  assumes dec: "triple (\<lambda>_. True) dec well_typed"
  shows "triple (\<lambda>d. values_typed d acc) (read_nums dec c acc)
    (\<lambda>d vs. values_typed d vs \<and> length vs = length acc + c)"
proof (induction c arbitrary: acc)
  case (Suc c)
  have "triple (\<lambda>d. values_typed d acc \<and> well_typed d v) (read_nums dec c (acc @ [v]))
      (\<lambda>d vs. values_typed d vs \<and> length vs = length acc + Suc c)" for v
    by (rule triple_weaken [OF Suc.IH]) (auto simp: typed_basics)
  then show ?case
    unfolding read_nums.simps by (intro triple_step [OF dec] lasting_intros)
qed (simp add: triple_ret del: ret_run)

lemma triple_read_until_end:
  assumes dec: "triple (\<lambda>_. True) dec well_typed"
  shows "triple (\<lambda>d. values_typed d acc) (read_until_end dec k acc) values_typed"
proof (induction k arbitrary: acc)
  case (Suc k)
  have "triple (\<lambda>d. values_typed d acc \<and> well_typed d v) (read_until_end dec k (acc @ [v])) values_typed" for v
    by (rule triple_weaken [OF Suc.IH]) (auto simp: typed_basics)
  then have step: "triple (\<lambda>d. values_typed d acc) (and_then dec (\<lambda>v. read_until_end dec k (acc @ [v]))) values_typed"
    by (intro triple_step [OF dec] lasting_intros)
  show ?case
    unfolding read_until_end.simps
    by (intro step triple_skip triple_if triple_basic quiet_intros lasting_intros triple_ret)
qed (simp add: triple_basic del: hang_run)

text \<open>An insertion keeps every entry, adds the new one, or drops the new one.\<close>

lemma emplace_typed:
  assumes "emplace_contract hsh emp" and "entries_typed d kvs" and "well_typed d key" and "well_typed d val"
  shows "entries_typed d (emp kvs (key, val))"
proof (cases "emp kvs (key, val) = kvs")
  case False
  then have "mset (emp kvs (key, val)) = add_mset (key, val) (mset kvs)"
    using assms(1) unfolding emplace_contract_def by blast
  then have "set (emp kvs (key, val)) = insert (key, val) (set kvs)"
    by (metis set_mset_add_mset_insert set_mset_mset)
  then show ?thesis using assms by (simp add: entries_typed_def list_all_iff)
qed (use assms in simp)

lemma well_typed_dead: "well_typed (d\<lparr>d_dead := xs\<rparr>) p = well_typed d p"
  by (rule iffI; erule well_typed_mono [rotated]) (simp_all add: grown_def)

lemma triple_insert_entry:
  assumes "emplace_contract hsh emp"
  shows "triple (\<lambda>d. (entries_typed d kvs \<and> well_typed d key) \<and> well_typed d val)
    (insert_entry emp kvs key val) entries_typed"
  using emplace_typed [OF assms]
  by (auto simp: triple_def insert_entry_def Let_def grown_def values_ok_def entries_typed_def well_typed_dead
      split: if_splits)

lemma triple_read_entries:
  assumes emp: "emplace_contract hsh emp" and dec: "triple (\<lambda>_. True) dec well_typed"
  shows "triple (\<lambda>d. entries_typed d kvs) (read_entries emp dec k kvs) entries_typed"
proof (induction k arbitrary: kvs)
  case (Suc k)
  have step: "triple (\<lambda>d. entries_typed d kvs) (and_then dec (\<lambda>key. and_then dec (\<lambda>val.
      and_then (insert_entry emp kvs key val) (\<lambda>kvs'. read_entries emp dec k kvs')))) entries_typed"
    by (intro triple_step [OF dec] triple_and_then [OF triple_insert_entry [OF emp]] lasting_intros Suc.IH)
  show ?case
    unfolding read_entries.simps
    by (intro step triple_skip triple_if triple_basic quiet_intros lasting_intros triple_ret)
qed (simp add: triple_basic del: hang_run)

section \<open>Containers and objects\<close>

text \<open>A container: its address and its type, then its contents.\<close>

lemma triple_contents:
  assumes "triple (\<lambda>_. True) m Q" and "lasting A" and "\<And>d v. A d \<Longrightarrow> Q d v \<Longrightarrow> well_typed d (f v)"
  shows "triple A (and_then m (\<lambda>v. ret (f v))) well_typed"
  by (rule triple_step [OF assms(1,2)]) (rule triple_ret, auto intro: assms(3))

lemma triple_typed_list:
  assumes dec: "triple (\<lambda>_. True) dec well_typed"
  shows "triple (\<lambda>_. True) (decode_typed_list java_lite dec k) well_typed"
proof -
  have until: "triple (\<lambda>_. True) (read_until_end dec k []) values_typed"
    by (rule triple_weaken [OF triple_read_until_end [OF dec]]) (simp_all add: typed_basics)
  have nums: "triple (\<lambda>_. True) (read_nums dec c []) values_typed" for c
    by (rule triple_weaken [OF triple_read_nums [OF dec]]) (simp_all add: typed_basics)
  show ?thesis unfolding decode_typed_list_def Let_def
    by (intro triple_and_then [OF triple_new_ref] triple_if triple_basic triple_step [OF triple_decode_type_ref]
        triple_contents [OF until] triple_contents [OF nums] triple_skip quiet_intros lasting_intros)
      (simp_all add: values_typed_def)
qed

lemma triple_untyped_list:
  assumes dec: "triple (\<lambda>_. True) dec well_typed"
  shows "triple (\<lambda>_. True) (decode_untyped_list dec k) well_typed"
proof -
  have until: "triple (\<lambda>_. True) (read_until_end dec k []) values_typed"
    by (rule triple_weaken [OF triple_read_until_end [OF dec]]) (simp_all add: typed_basics)
  have nums: "triple (\<lambda>_. True) (read_nums dec c []) values_typed" for c
    by (rule triple_weaken [OF triple_read_nums [OF dec]]) (simp_all add: typed_basics)
  show ?thesis unfolding decode_untyped_list_def Let_def
    by (intro triple_and_then [OF triple_new_ref] triple_if triple_basic
        triple_contents [OF until] triple_contents [OF nums] triple_ret triple_skip quiet_intros lasting_intros)
      (simp_all add: values_typed_def)
qed

lemma triple_maps:
  assumes emp: "emplace_contract hsh emp" and dec: "triple (\<lambda>_. True) dec well_typed"
  shows "triple (\<lambda>_. True) (decode_typed_map java_lite emp dec k) well_typed"
    and "triple (\<lambda>_. True) (decode_untyped_map emp dec k) well_typed"
proof -
  have entries: "triple (\<lambda>_. True) (read_entries emp dec k []) entries_typed"
    by (rule triple_weaken [OF triple_read_entries [OF assms]]) (simp_all add: typed_basics)
  show "triple (\<lambda>_. True) (decode_typed_map java_lite emp dec k) well_typed"
    unfolding decode_typed_map_def
    by (intro triple_and_then [OF triple_new_ref] triple_if triple_basic triple_step [OF triple_decode_type_ref]
        triple_contents [OF entries] triple_skip quiet_intros lasting_intros) (simp add: entries_typed_def)
  show "triple (\<lambda>_. True) (decode_untyped_map emp dec k) well_typed"
    unfolding decode_untyped_map_def
    by (intro triple_and_then [OF triple_new_ref] triple_if triple_basic
        triple_contents [OF entries] triple_skip quiet_intros lasting_intros) (simp add: entries_typed_def)
qed

lemma triple_class_instance:
  assumes dec: "triple (\<lambda>_. True) dec well_typed"
  shows "triple (\<lambda>_. True) (decode_class_instance java_lite dec) well_typed"
proof -
  have nums: "triple (\<lambda>_. True) (read_nums dec c []) (\<lambda>d vs. values_typed d vs \<and> length vs = c)" for c
    by (rule triple_weaken [OF triple_read_nums [OF dec]]) (simp_all add: typed_basics)
  show ?thesis unfolding decode_class_instance_def
    by (intro triple_and_then [OF triple_new_ref] triple_step [OF triple_dead] triple_step [OF triple_find_definition]
        triple_step [OF nums] lasting_intros triple_ret) (simp_all add: values_typed_def)
qed

lemma triple_leaf: "quiet m \<Longrightarrow> (\<And>d v. well_typed d (f v)) \<Longrightarrow> triple (\<lambda>_. True) (and_then m (\<lambda>v. ret (f v))) well_typed"
  by (rule triple_contents [OF quiet_triple lasting_rules(1)])

lemma triple_null: "triple (\<lambda>_. True) decode_null well_typed"
  unfolding decode_null_def
  by (intro triple_skip triple_if triple_basic triple_ret quiet_intros lasting_intros) simp

lemma triple_decode_object_fuel:
  assumes emp: "emplace_contract hsh emp"
  shows "triple (\<lambda>_. True) (decode_object_fuel java_lite emp k) well_typed"
proof (induction k)
  case (Suc k)
  have ref: "triple (\<lambda>_. True) (and_then decode_ref (\<lambda>a. ret (Ref_Obj a))) well_typed"
    by (rule triple_contents [OF triple_decode_ref lasting_rules(1)]) simp
  have def: "triple (\<lambda>_. True) (and_then (decode_definition java_lite) (\<lambda>_. decode_object_fuel java_lite emp k)) well_typed"
    by (rule triple_and_then [OF triple_decode_definition]) (rule triple_weaken [OF Suc], simp_all)
  show ?case
    unfolding decode_object_fuel.simps Let_def
    by (intro triple_skip [OF quiet_reads(2) lasting_rules(1)] triple_if triple_basic triple_null ref def
        triple_leaf [OF quiet_numbers(1)] triple_leaf [OF quiet_numbers(2)] triple_leaf [OF quiet_numbers(3)]
        triple_leaf [OF quiet_numbers(4)] triple_leaf [OF quiet_numbers(5)] triple_leaf [OF quiet_strings(1)]
        triple_leaf [OF quiet_strings(2)] triple_typed_list [OF Suc] triple_untyped_list [OF Suc]
        triple_maps [OF emp Suc] triple_class_instance [OF Suc]) simp_all
qed (simp add: decode_object_fuel.simps triple_basic del: hang_run)

lemma triple_decode_object:
  "emplace_contract hsh emp \<Longrightarrow> triple (\<lambda>_. True) (decode_object java_lite emp) well_typed"
  unfolding decode_object_def
  by (rule triple_skip [OF quiet_reads(5) lasting_rules(1)]) (rule triple_decode_object_fuel)

section \<open>Properties\<close>

text \<open>C8. Decoding an object from any input, valid or not, keeps the invariant of the decoder: its
  value table holds exactly the addresses it has given out, in order. The tables of types, of
  definitions and of values only grow, by appending, also when the decoder fails.\<close>

theorem decode_object_keeps_tables:
  assumes "emplace_contract hsh emp" and "values_ok d" and "decode_object java_lite emp d = (r, d')"
  shows "values_ok d' \<and> grown d d'"
  using tripleD [OF triple_decode_object [OF assms(1)] assms(2) _ assms(3)] by simp

theorem decode_object_keeps_tables_witness:
  "values_ok (snd (decode_object False (append_entry (\<lambda>_. 0)) (new_decoder [0x79, 0x51, 0x90])))
    \<and> grown (new_decoder [0x79, 0x51, 0x90])
      (snd (decode_object False (append_entry (\<lambda>_. 0)) (new_decoder [0x79, 0x51, 0x90])))"
  using decode_object_keeps_tables [OF append_entry_contract _ prod.collapse [symmetric],
      of "new_decoder [0x79, 0x51, 0x90]" False "\<lambda>_. 0"]
  by (simp add: values_ok_def new_decoder_def del: prod.collapse)

text \<open>C9. Whatever the input, a decoded object is well typed in the tables of its decoder: every
  instance of a class has as many values as its definition has fields, its definition and the type
  names of lists and maps are entries of the tables, and every address, that of a container or that a
  reference points to, was given out by this decoder.\<close>

theorem decoded_object_is_well_typed:
  assumes "emplace_contract hsh emp" and "values_ok d" and "decode_object java_lite emp d = (Ret p, d')"
  shows "well_typed d' p"
  using tripleD [OF triple_decode_object [OF assms(1)] assms(2) _ assms(3)] by simp

theorem decoded_object_is_well_typed_witness:
  "\<exists>d'. decode_object False (append_entry (\<lambda>_. 0)) (new_decoder [0x43, 1, 0x61, 0x91, 1, 0x62, 0x60, 0x90])
     = (Ret (Class_Instance 0 \<lparr>def_type = [0x61], field_names = [[0x62]]\<rparr> [Integer_Obj 0]), d')
   \<and> well_typed d' (Class_Instance 0 \<lparr>def_type = [0x61], field_names = [[0x62]]\<rparr> [Integer_Obj 0])"
proof -
  let ?d = "new_decoder [0x43, 1, 0x61, 0x91, 1, 0x62, 0x60, 0x90]"
  have "fst (decode_object False (append_entry (\<lambda>_. 0)) ?d)
      = Ret (Class_Instance 0 \<lparr>def_type = [0x61], field_names = [[0x62]]\<rparr> [Integer_Obj 0])"
    by (simp add: eval_decoder eval_object eval_string)
  then obtain d' where run: "decode_object False (append_entry (\<lambda>_. 0)) ?d
      = (Ret (Class_Instance 0 \<lparr>def_type = [0x61], field_names = [[0x62]]\<rparr> [Integer_Obj 0]), d')"
    by (metis prod.collapse)
  have "values_ok ?d" by (simp add: values_ok_def new_decoder_def)
  from run decoded_object_is_well_typed [OF append_entry_contract this run] show ?thesis by blast
qed

end
