(* ===== verification/Object_Weight.thy ===== *)
theory Object_Weight
  imports Object_Evaluation
begin

text \<open>
  A bound on what the decoder builds: an object, counted as one unit for each object in it and for
  each byte of its strings and binary data, is not larger than the input it was read from. Only
  type names and definitions are shared between objects.
\<close>

lemma unread_advance_length: "length (unread (advance n d)) = length (unread d) - n"
  by simp

section \<open>Paying for a value with bytes\<close>

definition costs :: "(decoder, 'v) comp \<Rightarrow> ('v \<Rightarrow> nat) \<Rightarrow> bool" where
  "costs m w \<longleftrightarrow> (\<forall>d v d'. wf_decoder d \<longrightarrow> m d = (Ret v, d') \<longrightarrow>
     wf_decoder d' \<and> w v + length (unread d') \<le> length (unread d))"

lemma costsD:
  "costs m w \<Longrightarrow> wf_decoder d \<Longrightarrow> m d = (Ret v, d') \<Longrightarrow>
    wf_decoder d' \<and> w v + length (unread d') \<le> length (unread d)"
  unfolding costs_def by blast

lemma costs_and_then:
  assumes m: "costs m u" and f: "\<And>x. costs (f x) (\<lambda>v. w v - u x)"
  shows "costs (and_then m f) w"
  unfolding costs_def
proof (intro allI impI)
  fix d v d' assume d: "wf_decoder d" and run: "and_then m f d = (Ret v, d')"
  from run obtain x d1 where x: "m d = (Ret x, d1)" "f x d1 = (Ret v, d')" by (rule and_then_RetE)
  from costsD [OF m d x(1)] have 1: "wf_decoder d1" "u x + length (unread d1) \<le> length (unread d)" by auto
  from costsD [OF f 1(1) x(2)] 1 show "wf_decoder d' \<and> w v + length (unread d') \<le> length (unread d)" by auto
qed

lemma costs_less: "costs m u \<Longrightarrow> (\<And>v. w v \<le> u v) \<Longrightarrow> costs m w"
  unfolding costs_def by (meson add_le_mono1 order_trans)

text \<open>Steps that are free of charge.\<close>

lemma costs_skip: "costs m (\<lambda>_. 0) \<Longrightarrow> (\<And>x. costs (f x) w) \<Longrightarrow> costs (and_then m f) w"
  by (rule costs_and_then [where u = "\<lambda>_. 0"]) simp_all

lemma costs_basic: "costs nullptr w" "costs abort w" "costs hang w"
  by (simp_all add: costs_def)

lemma costs_ret: "w v = 0 \<Longrightarrow> costs (ret v) w"
  by (simp add: costs_def)

lemma costs_if: "(b \<Longrightarrow> costs m w) \<Longrightarrow> (\<not> b \<Longrightarrow> costs m' w) \<Longrightarrow> costs (if b then m else m') w"
  by simp

lemma costs_tables:
  assumes "\<And>d. wf_decoder (g d) = wf_decoder d" and "\<And>d. unread (g d) = unread d"
  shows "costs (modify g) (\<lambda>_. 0)"
  using assms by (simp add: costs_def)

lemma safe_costs: "safe m \<Longrightarrow> costs m (\<lambda>_. 0)"
  unfolding costs_def safe_def by (metis diff_le_self length_drop add_0)

lemma safe_eats_costs: "safe m \<Longrightarrow> (\<And>n. eats n m) \<Longrightarrow> costs m (\<lambda>_. 1)"
  unfolding costs_def eats_def safe_def by (metis Suc_leI order_refl plus_1_eq_Suc)

text \<open>The first byte is worth one unit.\<close>

lemma costs_read_u8: "costs (f (False, 0)) w \<Longrightarrow> (\<And>b. costs (f (True, b)) (\<lambda>v. w v - 1)) \<Longrightarrow> costs (and_then dec_read_u8 f) w"
proof -
  assume f: "costs (f (False, 0)) w" "\<And>b. costs (f (True, b)) (\<lambda>v. w v - 1)"
  show ?thesis unfolding costs_def
  proof (intro allI impI)
    fix d v d' assume d: "wf_decoder d" and run: "and_then dec_read_u8 f d = (Ret v, d')"
    show "wf_decoder d' \<and> w v + length (unread d') \<le> length (unread d)"
    proof (cases "unread d")
      case Nil
      with run d have "f (False, 0) d = (Ret v, d')" by (simp add: and_then_def dec_read_u8_run)
      then show ?thesis using costsD [OF f(1) d] by simp
    next
      case (Cons b bs)
      with run d have "f (True, b) (advance 1 d) = (Ret v, d')" by (simp add: and_then_def dec_read_u8_run)
      moreover have "wf_decoder (advance 1 d)" using Cons d by simp
      ultimately have "wf_decoder d' \<and> (w v - 1) + length (unread d') \<le> length (unread (advance 1 d))"
        using costsD [OF f(2)] by blast
      then show ?thesis using Cons unfolding unread_advance_length by simp linarith
    qed
  qed
qed

lemma well_run_costs: "(\<And>n. well_run True n m) \<Longrightarrow> costs m (\<lambda>_. 0)"
  unfolding costs_def by (metis add_0 order_refl well_runD(3) well_runD(5))

section \<open>Strings and binary data\<close>

lemma costs_finalRead: "costs (finalReadUtf8String len st len) (\<lambda>st'. length (fst st') - length (fst st))"
  unfolding costs_def
proof (intro allI impI)
  fix d v d' assume d: "wf_decoder d" and run: "finalReadUtf8String len st len d = (Ret v, d')"
  then obtain cs rest where cs: "take_chars len (unread d) = Some (cs, rest)"
    using finalReadUtf8String_run [OF d order_refl, of len st] by (auto split: option.splits)
  then have "length (concat cs) \<le> length (unread d)" using take_chars_SomeD [OF cs] by simp
  then show "wf_decoder d' \<and> length (fst v) - length (fst st) + length (unread d') \<le> length (unread d)"
    using finalReadUtf8String_run [OF d order_refl, of len st] cs run d by auto
qed

lemma costs_readChunkString:
  assumes "\<And>st'. costs (next_chunk st') (\<lambda>r. length (fst r) - length (fst st'))"
  shows "costs (readChunkString next_chunk st len final) (\<lambda>r. length (fst r) - length (fst st))"
  unfolding readChunkString_def
  by (rule costs_and_then [OF costs_finalRead], rule costs_if; rule costs_ret costs_less [OF assms]) auto

lemma costs_decodeStringWithReader:
  "costs (decodeStringWithReader k st) (\<lambda>r. Suc (length (fst r)) - length (fst st))"
proof (induction k arbitrary: st)
  case (Suc k)
  have "costs (decodeStringWithReader k st') (\<lambda>r. length (fst r) - length (fst st'))" for st'
    by (rule costs_less [OF Suc.IH]) simp
  note chunk = costs_less [OF costs_readChunkString [OF this]]
  show ?case
    unfolding decodeStringWithReader.simps Let_def
    by (intro costs_read_u8 costs_if costs_basic costs_skip [OF safe_costs [OF safe_read_u8]]
        costs_skip [OF safe_costs [OF safe_readBE]] chunk) (simp_all add: costs_basic)
qed (simp add: costs_basic)

lemma length_join_surrogates: "length (join_surrogates bs) = 4"
  by (simp add: join_surrogates_def four_bytes_of_def Let_def)

lemma unescape_shorter: "unescape_from data out = Some r \<Longrightarrow> length r \<le> length out + length data"
proof (induction data out arbitrary: r rule: unescape_from.induct)
  case (2 b rest out)
  show ?case
  proof (cases "char_length b = 3 \<and> is_surrogate_pair (b # rest)")
    case True
    then have "5 \<le> length rest" by (simp add: is_surrogate_pair_def)
    then show ?thesis using 2(1) [OF refl True, of r] 2(3) True by (simp add: Let_def length_join_surrogates)
  next
    case False
    then have n: "0 < char_length b \<and> char_length b \<le> length (b # rest)" using 2(3) by (auto simp: Let_def split: if_splits)
    then show ?thesis using 2(2) [OF refl False n, of r] 2(3) False by (auto simp: Let_def split: if_splits)
  qed
qed simp

lemma length_unescape: "length (unescapeFourBytesUtf8Char data) \<le> length data"
  using unescape_shorter [of data "[]"] by (auto simp: unescapeFourBytesUtf8Char_def split: option.splits)

lemma costs_decode_string: "costs (decode_string java_lite) (\<lambda>s. Suc (length s))"
proof -
  have chunks: "costs (decodeStringWithReader k ([], False)) (\<lambda>st. Suc (length (fst st)))" for k
    by (rule costs_less [OF costs_decodeStringWithReader]) simp
  show ?thesis unfolding decode_string_def Let_def
    by (intro costs_skip [OF safe_costs [OF safe_available]] costs_and_then [OF chunks] costs_if costs_basic costs_ret)
      (use length_unescape in simp_all)
qed

text \<open>A block of bytes is worth its length.\<close>

lemma costs_checked_read:
  assumes "\<And>x. length x = len \<Longrightarrow> costs (f x) (\<lambda>v. w v - len)"
  shows "costs (and_then dec_byte_available (\<lambda>k. if k < len then nullptr else and_then (dec_read_n_bytes len) f)) w"
  unfolding costs_def
proof (intro allI impI)
  fix d v d' assume d: "wf_decoder d" and run: "and_then dec_byte_available
    (\<lambda>k. if k < len then nullptr else and_then (dec_read_n_bytes len) f) d = (Ret v, d')"
  then have n: "len \<le> length (unread d)" by (auto simp: and_then_def split: if_splits)
  then have "f (take len (unread d)) (advance len d) = (Ret v, d')"
    using run d by (simp add: and_then_def dec_read_n_bytes_run)
  moreover have wf: "wf_decoder (advance len d)" using n d by simp
  moreover have "length (take len (unread d)) = len" using n by simp
  ultimately have "wf_decoder d' \<and> (w v - len) + length (unread d') \<le> length (unread (advance len d))"
    using costsD [OF assms] by blast
  then show "wf_decoder d' \<and> w v + length (unread d') \<le> length (unread d)"
    using n unfolding unread_advance_length by linarith
qed

lemma costs_readBytes:
  assumes "\<And>out'. costs (next_chunk out') (\<lambda>r. length r - length out')"
  shows "costs (readBytes next_chunk out len final) (\<lambda>r. length r - length out)"
  unfolding readBytes_def
  by (intro costs_if costs_checked_read costs_ret costs_less [OF assms]) auto

lemma costs_decodeBytesWithReader: "costs (decodeBytesWithReader k out) (\<lambda>r. Suc (length r) - length out)"
proof (induction k arbitrary: out)
  case (Suc k)
  have "costs (decodeBytesWithReader k out') (\<lambda>r. length r - length out')" for out'
    by (rule costs_less [OF Suc.IH]) simp
  note chunk = costs_less [OF costs_readBytes [OF this]]
  show ?case
    unfolding decodeBytesWithReader.simps Let_def
    by (intro costs_read_u8 costs_if costs_basic costs_skip [OF safe_costs [OF safe_read_u8]]
        costs_skip [OF safe_costs [OF safe_readBE]] chunk) (simp_all add: costs_basic)
qed (simp add: costs_basic)

lemma costs_decode_bytes: "costs decode_bytes (\<lambda>bs. Suc (length bs))"
  unfolding decode_bytes_def
  by (intro costs_skip [OF safe_costs [OF safe_available]] costs_less [OF costs_decodeBytesWithReader]) simp

section \<open>Objects\<close>

text \<open>The objects in an object, itself included, and the bytes of its strings and binary data.\<close>

fun weight :: "obj \<Rightarrow> nat" where
  "weight (String_Obj s) = Suc (length s)"
| "weight (Binary_Obj bs) = Suc (length bs)"
| "weight (Untyped_List a vs) = Suc (sum_list (map weight vs))"
| "weight (Typed_List a ty vs) = Suc (sum_list (map weight vs))"
| "weight (Typed_Map a ty kvs) = Suc (sum_list (map (\<lambda>kv. weight (fst kv) + weight (snd kv)) kvs))"
| "weight (Untyped_Map a kvs) = Suc (sum_list (map (\<lambda>kv. weight (fst kv) + weight (snd kv)) kvs))"
| "weight (Class_Instance a df vs) = Suc (sum_list (map weight vs))"
| "weight _ = 1"

definition weights :: "obj list \<Rightarrow> nat" where
  "weights vs = sum_list (map weight vs)"

definition entry_weights :: "(obj \<times> obj) list \<Rightarrow> nat" where
  "entry_weights kvs = sum_list (map (\<lambda>kv. weight (fst kv) + weight (snd kv)) kvs)"

lemma weight_containers [simp]:
  "weight (Untyped_List a vs) = Suc (weights vs)" "weight (Typed_List a ty vs) = Suc (weights vs)"
  "weight (Class_Instance a df vs) = Suc (weights vs)"
  "weight (Untyped_Map a kvs) = Suc (entry_weights kvs)" "weight (Typed_Map a ty kvs) = Suc (entry_weights kvs)"
  "weights [] = 0" "weights (vs @ [v]) = weights vs + weight v" "entry_weights [] = 0"
  by (simp_all add: weights_def entry_weights_def)

declare weight.simps(3-7) [simp del]

lemma costs_read_nums:
  assumes dec: "costs dec weight"
  shows "costs (read_nums dec c acc) (\<lambda>vs. weights vs - weights acc)"
proof (induction c arbitrary: acc)
  case (Suc c)
  show ?case unfolding read_nums.simps
    by (rule costs_and_then [OF dec], rule costs_less [OF Suc.IH]) simp
qed (simp add: costs_ret del: ret_run)

lemma costs_read_until_end:
  assumes dec: "costs dec weight"
  shows "costs (read_until_end dec k acc) (\<lambda>vs. weights vs - weights acc)"
proof (induction k arbitrary: acc)
  case (Suc k)
  have step: "costs (and_then dec (\<lambda>v. read_until_end dec k (acc @ [v]))) (\<lambda>vs. weights vs - weights acc)"
    by (rule costs_and_then [OF dec], rule costs_less [OF Suc.IH]) simp
  show ?case unfolding read_until_end.simps
    by (intro costs_skip [OF safe_costs [OF safe_peek_u8]] costs_skip [OF safe_costs [OF safe_read_u8]]
        costs_if costs_basic costs_ret step) simp
qed (simp add: costs_basic del: hang_run)

lemma emplace_weight:
  assumes "emplace_contract hsh emp"
  shows "entry_weights (emp kvs (key, val)) \<le> entry_weights kvs + weight key + weight val"
proof (cases "emp kvs (key, val) = kvs")
  case False
  then have "mset (emp kvs (key, val)) = add_mset (key, val) (mset kvs)"
    using assms unfolding emplace_contract_def by blast
  then have "mset (emp kvs (key, val)) = mset ((key, val) # kvs)" by simp
  then have "sum_list (map f (emp kvs (key, val))) = sum_list (map f ((key, val) # kvs))" for f :: "obj \<times> obj \<Rightarrow> nat"
    by (metis mset_map sum_mset_sum_list)
  then show ?thesis by (simp add: entry_weights_def)
qed simp

lemma costs_insert_entry:
  assumes "emplace_contract hsh emp"
  shows "costs (insert_entry emp kvs key val) (\<lambda>kvs'. entry_weights kvs' - entry_weights kvs - weight key - weight val)"
  using emplace_weight [OF assms, of kvs key val]
  by (auto simp: costs_def insert_entry_def Let_def wf_decoder_def unread_def split: if_splits)

lemma costs_read_entries:
  assumes emp: "emplace_contract hsh emp" and dec: "costs dec weight"
  shows "costs (read_entries emp dec k kvs) (\<lambda>kvs'. entry_weights kvs' - entry_weights kvs)"
proof (induction k arbitrary: kvs)
  case (Suc k)
  have step: "costs (and_then dec (\<lambda>key. and_then dec (\<lambda>val. and_then (insert_entry emp kvs key val)
      (\<lambda>kvs'. read_entries emp dec k kvs')))) (\<lambda>kvs'. entry_weights kvs' - entry_weights kvs)"
    by (rule costs_and_then [OF dec], rule costs_and_then [OF dec], rule costs_and_then [OF costs_insert_entry [OF emp]],
        rule costs_less [OF Suc.IH]) simp
  show ?case unfolding read_entries.simps
    by (intro costs_skip [OF safe_costs [OF safe_peek_u8]] costs_skip [OF safe_costs [OF safe_read_u8]]
        costs_if costs_basic costs_ret step) simp
qed (simp add: costs_basic del: hang_run)

lemma costs_contents: "costs m u \<Longrightarrow> (\<And>v. w (f v) \<le> u v) \<Longrightarrow> costs (and_then m (\<lambda>v. ret (f v))) w"
  by (rule costs_and_then [where u = u]) (simp_all add: costs_ret del: ret_run)

lemma well_run_eats_costs: "(\<And>n. well_run True n m) \<Longrightarrow> (\<And>n. eats n m) \<Longrightarrow> costs m (\<lambda>_. 1)"
  unfolding costs_def eats_def by (metis Suc_leI order_refl plus_1_eq_Suc well_runD(3))

lemmas costs_find_definition = well_run_eats_costs [OF well_run_find_definition eats_find_definition]
lemmas costs_definition = well_run_costs [OF well_run_decode_definition]

lemma costs_containers:
  assumes dec: "costs dec weight"
  shows "costs (decode_typed_list java_lite dec k) weight" "costs (decode_untyped_list dec k) weight"
    "costs (decode_class_instance java_lite dec) weight"
proof -
  have until: "costs (read_until_end dec k []) weights"
    by (rule costs_less [OF costs_read_until_end [OF dec]]) simp
  have nums: "costs (read_nums dec c []) weights" for c
    by (rule costs_less [OF costs_read_nums [OF dec]]) simp
  note skip = costs_skip [OF safe_costs [OF safe_new_ref]] costs_skip [OF safe_costs [OF safe_decode_type_ref]]
    costs_skip [OF safe_costs [OF safe_decode_i32]] costs_skip [OF well_run_costs [OF well_run_dead]]
  show "costs (decode_typed_list java_lite dec k) weight"
    unfolding decode_typed_list_def Let_def
    by (intro skip costs_read_u8 costs_if costs_basic costs_contents [OF until] costs_contents [OF nums])
      (simp_all add: costs_basic)
  show "costs (decode_untyped_list dec k) weight"
    unfolding decode_untyped_list_def Let_def
    by (intro skip costs_read_u8 costs_if costs_basic costs_contents [OF until] costs_contents [OF nums] costs_ret)
      (simp_all add: costs_basic)
  show "costs (decode_class_instance java_lite dec) weight"
    unfolding decode_class_instance_def
    by (intro skip costs_and_then [OF costs_find_definition] costs_and_then [OF nums] costs_ret) simp
qed

lemma costs_maps:
  assumes "emplace_contract hsh emp" and "costs dec weight"
  shows "costs (decode_typed_map java_lite emp dec k) weight" "costs (decode_untyped_map emp dec k) weight"
proof -
  have entries: "costs (read_entries emp dec k []) entry_weights"
    by (rule costs_less [OF costs_read_entries [OF assms]]) simp
  note skip = costs_skip [OF safe_costs [OF safe_new_ref]] costs_skip [OF safe_costs [OF safe_decode_type_ref]]
  show "costs (decode_typed_map java_lite emp dec k) weight"
    unfolding decode_typed_map_def
    by (intro skip costs_read_u8 costs_if costs_basic costs_contents [OF entries]) (simp_all add: costs_basic)
  show "costs (decode_untyped_map emp dec k) weight"
    unfolding decode_untyped_map_def
    by (intro skip costs_read_u8 costs_if costs_basic costs_contents [OF entries]) (simp_all add: costs_basic)
qed

lemma costs_leaf:
  assumes "costs m u" and "\<And>v. weight (f v) \<le> u v"
  shows "costs (and_then m (\<lambda>v. ret (f v))) weight"
  using assms by (rule costs_contents)

lemmas costs_numbers = safe_eats_costs [OF safe_decode_bool eats_decode_bool]
  safe_eats_costs [OF safe_decode_i32 eats_decode_i32] safe_eats_costs [OF safe_decode_i64 eats_decode_i64]
  safe_eats_costs [OF safe_decode_double eats_decode_double]
  safe_eats_costs [OF safe_decode_milliseconds eats_decode_milliseconds]
  well_run_eats_costs [OF well_run_decode_ref eats_decode_ref]

lemma costs_decode_null: "costs decode_null weight"
  unfolding decode_null_def by (intro costs_read_u8 costs_if costs_basic costs_ret) (simp_all add: costs_basic)

lemma costs_decode_object_fuel:
  assumes emp: "emplace_contract hsh emp"
  shows "costs (decode_object_fuel java_lite emp k) weight"
proof (induction k)
  case (Suc k)
  show ?case
    unfolding decode_object_fuel.simps Let_def
    by (intro costs_skip [OF safe_costs [OF safe_peek_u8]] costs_skip [OF costs_definition] costs_if costs_basic
        costs_decode_null costs_containers [OF Suc] costs_maps [OF emp Suc] Suc
        costs_leaf [OF costs_numbers(1)] costs_leaf [OF costs_numbers(2)] costs_leaf [OF costs_numbers(3)]
        costs_leaf [OF costs_numbers(4)] costs_leaf [OF costs_numbers(5)] costs_leaf [OF costs_numbers(6)]
        costs_leaf [OF costs_decode_string] costs_leaf [OF costs_decode_bytes]) simp_all
qed (simp add: decode_object_fuel.simps costs_basic del: hang_run)

section \<open>Property\<close>

text \<open>C10. A decoded object is not larger than the bytes it was read from: the number of objects in it
  plus the bytes of its strings and binary data is at most the number of bytes consumed. So no short
  input makes the decoder build a large object, however lengths and counts are chosen.\<close>

theorem decoded_object_pays_for_itself:
  assumes "emplace_contract hsh emp" and "wf_decoder d" and "decode_object java_lite emp d = (Ret p, d')"
  shows "weight p + length (unread d') \<le> length (unread d)"
proof -
  have "costs (decode_object java_lite emp) weight"
    unfolding decode_object_def
    by (rule costs_skip [OF safe_costs [OF safe_available]]) (rule costs_decode_object_fuel [OF assms(1)])
  from costsD [OF this assms(2,3)] show ?thesis by (rule conjunct2)
qed

theorem decoded_object_pays_for_itself_witness:
  "\<exists>d'. decode_object False (append_entry (\<lambda>_. 0)) (new_decoder [0x7a, 2, 0x61, 0x62, 0x90])
     = (Ret (Untyped_List 0 [String_Obj [0x61, 0x62], Integer_Obj 0]), d')
   \<and> weight (Untyped_List 0 [String_Obj [0x61, 0x62], Integer_Obj 0]) + length (unread d') \<le> 5"
proof -
  let ?d = "new_decoder [0x7a, 2, 0x61, 0x62, 0x90]"
  have "fst (decode_object False (append_entry (\<lambda>_. 0)) ?d)
      = Ret (Untyped_List 0 [String_Obj [0x61, 0x62], Integer_Obj 0])"
    by (simp add: eval_decoder eval_object eval_string finalReadUtf8String.simps(2) [of "pred_numeral n" for n, folded numeral_eq_Suc])
  then obtain d' where run: "decode_object False (append_entry (\<lambda>_. 0)) ?d
      = (Ret (Untyped_List 0 [String_Obj [0x61, 0x62], Integer_Obj 0]), d')"
    by (metis prod.collapse)
  have "wf_decoder ?d" by simp
  from decoded_object_pays_for_itself [OF append_entry_contract this run] run show ?thesis
    by (intro exI [of _ d']) simp
qed

end
