(* ===== verification/Object_Properties.thy ===== *)
theory Object_Properties
  imports Object_Evaluation
begin

text \<open>
  Properties of objects in memory (src/hessian2/object.hpp): the accessors, equality and hash
  values, the lookup by a string view, and the debug strings.
\<close>

section \<open>Accessors, equality and hash values\<close>

text \<open>The accessors of an object follow its type tag: each gives a value for the objects of its
  own class and nothing for those of the thirteen others.\<close>

theorem accessors_by_type:
  "(toBoolean p \<noteq> None \<longleftrightarrow> obj_type_of p = T_Boolean) \<and> (toInteger p \<noteq> None \<longleftrightarrow> obj_type_of p = T_Integer)
   \<and> (toLong p \<noteq> None \<longleftrightarrow> obj_type_of p = T_Long) \<and> (toDouble p \<noteq> None \<longleftrightarrow> obj_type_of p = T_Double)
   \<and> (toDate p \<noteq> None \<longleftrightarrow> obj_type_of p = T_Date) \<and> (toBinary p \<noteq> None \<longleftrightarrow> obj_type_of p = T_Binary)
   \<and> (toString p \<noteq> None \<longleftrightarrow> obj_type_of p = T_String)
   \<and> (toTypedList p \<noteq> None \<longleftrightarrow> obj_type_of p = T_TypedList)
   \<and> (toUntypedList p \<noteq> None \<longleftrightarrow> obj_type_of p = T_UntypedList)
   \<and> (toTypedMap p \<noteq> None \<longleftrightarrow> obj_type_of p = T_TypedMap)
   \<and> (toUntypedMap p \<noteq> None \<longleftrightarrow> obj_type_of p = T_UntypedMap)
   \<and> (toClassInstance p \<noteq> None \<longleftrightarrow> obj_type_of p = T_Class)
   \<and> (toRefDest p \<noteq> None \<longleftrightarrow> obj_type_of p = T_Ref)"
  by (cases p; simp add: accessor_defs)

text \<open>C24. Equal objects have equal hash values, whatever the state of the cached hash of binary
  data is, except typed maps, when the standard hash of doubles respects their equality.\<close>

theorem equal_hash:
  assumes "obj_equal hsh p q" and "obj_type_of p \<noteq> T_TypedMap"
    and "\<And>x y. f64_eq x y \<Longrightarrow> std_f64 H x = std_f64 H y"
  shows "obj_hash H target_hash st p = obj_hash H target_hash st q"
  using assms(1,2) obj_equal_same_type [OF assms(1)] assms(3)
  by (cases p; cases q)
    (auto simp: untyped_list_hash_def typed_list_hash_def untyped_map_hash_def class_instance_hash_def
      dest!: list_all2_lengthD)

theorem equal_hash_witness:
  "obj_hash \<lparr>std_string = \<lambda>_. 1, absl_string = \<lambda>_. 2, std_bool = \<lambda>_. 3, std_i32 = ucast, std_i64 = \<lambda>l. l,
      std_f64 = \<lambda>_. 4, std_size = \<lambda>n. n, std_u8 = ucast\<rparr> (\<lambda>_. 0) 0 (Untyped_List 0 [Double_Obj 0])
    = obj_hash \<lparr>std_string = \<lambda>_. 1, absl_string = \<lambda>_. 2, std_bool = \<lambda>_. 3, std_i32 = ucast, std_i64 = \<lambda>l. l,
      std_f64 = \<lambda>_. 4, std_size = \<lambda>n. n, std_u8 = ucast\<rparr> (\<lambda>_. 0) 0 (Untyped_List 1 [Double_Obj f64_neg_zero])"
  by (rule equal_hash [of "\<lambda>_. 0"])
    (simp_all add: f64_eq_def f64_is_nan_def f64_is_zero_def f64_exp_def f64_frac_def f64_neg_zero_def)

text \<open>The equality of typed maps looks only at the entries of the right operand: the left map
  may hold any entries when the right one is empty, and the relation is not symmetric.\<close>

theorem typed_map_equality_ignores_entries:
  "obj_equal hsh (Typed_Map a ty kvs) (Typed_Map b ty [])
    \<and> (obj_equal hsh (Typed_Map b ty []) (Typed_Map a ty kvs) \<longleftrightarrow> kvs = [])"
  by (cases kvs) (auto simp: entries_found_def map_find_def)

text \<open>The hash value of binary data is computed once for all objects: the variable that caches
  it is static, and after a first binary object with a non-zero hash value every other one has
  that value, whatever its bytes.\<close>

theorem binary_hash_is_shared:
  assumes "fst (binary_hash H st data) \<noteq> 0"
  shows "fst (binary_hash H (snd (binary_hash H st data)) other) = fst (binary_hash H st data)"
  using assms by (auto simp: binary_hash_def Let_def split: if_splits)

text \<open>Looking up a string view in a typed map gives the same as looking up the string object
  that holds these characters, which need not be built: the hash values and the comparisons
  agree.\<close>

theorem typed_map_get_by_view:
  "typed_map_get H target_hash st kvs key
    = map_find (object_hasher H target_hash st) (obj_equal hsh) kvs (String_Obj key)"
proof -
  have "object_equal_view k key \<longleftrightarrow> obj_equal hsh k (String_Obj key)" for k
    by (cases k) (auto simp: object_equal_view_def accessor_defs obj_equal.simps)
  moreover have "object_hasher H target_hash st (String_Obj key) = view_hasher H key"
    by (simp add: object_hasher_def view_hasher_def string_hash_def)
  ultimately show ?thesis by (simp add: typed_map_get_def map_find_def)
qed

theorem binary_hash_is_shared_witness:
  "fst (binary_hash \<lparr>std_string = \<lambda>_. 1, absl_string = \<lambda>_. 2, std_bool = \<lambda>_. 3, std_i32 = ucast,
      std_i64 = \<lambda>l. l, std_f64 = \<lambda>_. 4, std_size = \<lambda>n. n, std_u8 = ucast\<rparr>
    (snd (binary_hash \<lparr>std_string = \<lambda>_. 1, absl_string = \<lambda>_. 2, std_bool = \<lambda>_. 3, std_i32 = ucast,
      std_i64 = \<lambda>l. l, std_f64 = \<lambda>_. 4, std_size = \<lambda>n. n, std_u8 = ucast\<rparr> 0 [1])) [2])
   = fst (binary_hash \<lparr>std_string = \<lambda>_. 1, absl_string = \<lambda>_. 2, std_bool = \<lambda>_. 3, std_i32 = ucast,
      std_i64 = \<lambda>l. l, std_f64 = \<lambda>_. 4, std_size = \<lambda>n. n, std_u8 = ucast\<rparr> 0 [1])"
  by (rule binary_hash_is_shared) (simp add: binary_hash_def Let_def hash_combine_def)

section \<open>Debug strings\<close>

fun no_refs :: "obj \<Rightarrow> bool" where
  "no_refs (Ref_Obj d) \<longleftrightarrow> False"
| "no_refs (Untyped_List a vs) \<longleftrightarrow> list_all (\<lambda>v. no_refs v) vs"
| "no_refs (Typed_List a ty vs) \<longleftrightarrow> list_all (\<lambda>v. no_refs v) vs"
| "no_refs (Typed_Map a ty kvs) \<longleftrightarrow> list_all (\<lambda>(k, v). no_refs k \<and> no_refs v) kvs"
| "no_refs (Untyped_Map a kvs) \<longleftrightarrow> list_all (\<lambda>(k, v). no_refs k \<and> no_refs v) kvs"
| "no_refs (Class_Instance a df vs) \<longleftrightarrow> list_all (\<lambda>v. no_refs v) vs"
| "no_refs _ \<longleftrightarrow> True"

lemma debug_each_returns:
  "\<forall>v \<in> set vs. \<exists>s. dbg v = Some s \<Longrightarrow> \<exists>s. debug_each dbg sep vs = Some s"
  by (induction vs) auto

lemma debug_entries_returns:
  "\<forall>kv \<in> set kvs. (\<exists>s. dbg (fst kv) = Some s) \<and> (\<exists>s. dbg (snd kv) = Some s) \<Longrightarrow> \<exists>s. debug_entries dbg kvs = Some s"
  by (induction kvs) auto

lemma debug_returns: "no_refs p \<Longrightarrow> size p < k \<Longrightarrow> \<exists>s. obj_debug fmt heap k p = Some s"
proof (induction k arbitrary: p)
  case (Suc k)
  have list: "\<exists>s. debug_each (obj_debug fmt heap k) sep vs = Some s"
    if "list_all no_refs vs" "size_list size vs < size p" for sep vs
  proof (rule debug_each_returns, intro ballI)
    fix v assume v: "v \<in> set vs"
    with size_in_list [OF v] that Suc.prems(2) show "\<exists>s. obj_debug fmt heap k v = Some s"
      by (intro Suc.IH) (auto simp: list_all_iff)
  qed
  have entries: "\<exists>s. debug_entries (obj_debug fmt heap k) kvs = Some s"
    if "list_all (\<lambda>(k, v). no_refs k \<and> no_refs v) kvs" "size_list (size_prod size size) kvs < size p" for kvs
  proof (rule debug_entries_returns, intro ballI)
    fix kv assume "kv \<in> set kvs"
    moreover obtain x y where "kv = (x, y)" by (cases kv)
    ultimately have kv: "kv = (x, y)" "(x, y) \<in> set kvs" by simp_all
    with size_in_entries [OF kv(2)] that Suc.prems(2)
    show "(\<exists>s. obj_debug fmt heap k (fst kv) = Some s) \<and> (\<exists>s. obj_debug fmt heap k (snd kv) = Some s)"
      by (intro conjI Suc.IH) (auto simp: list_all_iff)
  qed
  show ?case using Suc.prems(1) list entries
    by (cases p) (auto simp: Let_def untyped_list_debug_def typed_list_debug_def typed_map_debug_def
      untyped_map_debug_def class_instance_debug_def)
qed simp



text \<open>C26. A decoded object may have no debug string: the three bytes 79 51 90 are decoded to a
  list that holds a reference to itself, and printing that list never ends, as a reference prints
  its target.\<close>

theorem decoded_cycle_has_no_debug_string:
  "decoded (decode_object java_lite emp) [0x79, 0x51, 0x90] = Ret (Untyped_List 0 [Ref_Obj 0])
   \<and> obj_debug fmt (heap(0 \<mapsto> Untyped_List 0 [Ref_Obj 0])) fuel (Untyped_List 0 [Ref_Obj 0]) = None"
proof
  let ?h = "heap(0 \<mapsto> Untyped_List 0 [Ref_Obj 0])"
  have "obj_debug fmt ?h fuel (Untyped_List 0 [Ref_Obj 0]) = None \<and> obj_debug fmt ?h fuel (Ref_Obj 0) = None"
    by (induction fuel) (simp_all add: Let_def untyped_list_debug_def)
  then show "obj_debug fmt ?h fuel (Untyped_List 0 [Ref_Obj 0]) = None" ..
qed (simp add: eval_decoder eval_object)

end
