(* ===== verification/Object_Dispatch.thy ===== *)
theory Object_Dispatch
  imports Object_Evaluation
begin

text \<open>
  The table of first bytes that the comment before \<open>decode<Object>\<close> gives
  (src/hessian2/basic_codec/object_codec.cc, lines 22 to 68), and that the decoder keeps to it.
\<close>

section \<open>The documented table\<close>

text \<open>The rows of the table that stand for an object: first code, last code, class.\<close>

definition documented_codes :: "(nat \<times> nat \<times> obj_type) list" where
  "documented_codes =
    [(0x00, 0x1f, T_String), (0x20, 0x2f, T_Binary), (0x30, 0x33, T_String), (0x34, 0x37, T_Binary),
     (0x38, 0x3f, T_Long), (0x41, 0x42, T_Binary), (0x44, 0x44, T_Double), (0x46, 0x46, T_Boolean),
     (0x48, 0x48, T_UntypedMap), (0x49, 0x49, T_Integer), (0x4a, 0x4b, T_Date), (0x4c, 0x4c, T_Long),
     (0x4d, 0x4d, T_TypedMap), (0x4e, 0x4e, T_Null), (0x4f, 0x4f, T_Class), (0x51, 0x51, T_Ref),
     (0x52, 0x53, T_String), (0x54, 0x54, T_Boolean), (0x55, 0x56, T_TypedList),
     (0x57, 0x58, T_UntypedList), (0x59, 0x59, T_Long), (0x5b, 0x5f, T_Double), (0x60, 0x6f, T_Class),
     (0x70, 0x77, T_TypedList), (0x78, 0x7f, T_UntypedList), (0x80, 0xd7, T_Integer), (0xd8, 0xff, T_Long)]"

definition documented_type :: "u8 \<Rightarrow> obj_type option" where
  "documented_type c =
     map_option (\<lambda>(lo, hi, ty). ty) (find (\<lambda>(lo, hi, ty). lo \<le> unat c \<and> unat c \<le> hi) documented_codes)"

lemmas documented_simps = documented_type_def documented_codes_def word_unat_eq_iff word_le_nat_alt

text \<open>The rows are disjoint, and only the reserved codes, the terminator and \<open>C\<close> have none.\<close>

lemma undocumented_codes:
  assumes "documented_type c = None"
  shows "c \<in> {0x40, 0x43, 0x45, 0x47, 0x50, 0x5a}"
proof -
  from assms unat_byte_lt [of c] show ?thesis
    by (simp add: documented_simps split: if_splits) presburger
qed

lemma documented_branches:
  "c = 0x4e \<Longrightarrow> documented_type c = Some T_Null"
  "c = 0x46 \<or> c = 0x54 \<Longrightarrow> documented_type c = Some T_Boolean"
  "c = 0x4a \<or> c = 0x4b \<Longrightarrow> documented_type c = Some T_Date"
  "(0x5b \<le> c \<and> c \<le> 0x5f) \<or> c = 0x44 \<Longrightarrow> documented_type c = Some T_Double"
  "c = 0x56 \<or> c = 0x55 \<or> (0x70 \<le> c \<and> c \<le> 0x77) \<Longrightarrow> documented_type c = Some T_TypedList"
  "c = 0x57 \<or> c = 0x58 \<or> (0x78 \<le> c \<and> c \<le> 0x7f) \<Longrightarrow> documented_type c = Some T_UntypedList"
  "c = 0x4d \<Longrightarrow> documented_type c = Some T_TypedMap"
  "c = 0x48 \<Longrightarrow> documented_type c = Some T_UntypedMap"
  "c = 0x4f \<or> (0x60 \<le> c \<and> c \<le> 0x6f) \<Longrightarrow> documented_type c = Some T_Class"
  "c = 0x51 \<Longrightarrow> documented_type c = Some T_Ref"
  "c \<le> 0x1f \<or> (0x30 \<le> c \<and> c \<le> 0x33) \<or> c = 0x52 \<or> c = 0x53 \<Longrightarrow> documented_type c = Some T_String"
  "(0x20 \<le> c \<and> c \<le> 0x2f) \<or> (0x34 \<le> c \<and> c \<le> 0x37) \<or> c = 0x41 \<or> c = 0x42
    \<Longrightarrow> documented_type c = Some T_Binary"
  "(0x38 \<le> c \<and> c \<le> 0x3f) \<or> (0xd8 \<le> c \<and> c \<le> 0xef) \<or> 0xf0 \<le> c \<or> c = 0x59 \<or> c = 0x4c
    \<Longrightarrow> documented_type c = Some T_Long"
  "c = 0x49 \<or> (0x80 \<le> c \<and> c \<le> 0xbf) \<or> (0xc0 \<le> c \<and> c \<le> 0xcf) \<or> (0xd0 \<le> c \<and> c \<le> 0xd7)
    \<Longrightarrow> documented_type c = Some T_Integer"
  using unat_byte_lt [of c]
  by ((elim disjE conjE)?; simp add: documented_simps; fail)+

section \<open>Computations whose objects are of one class\<close>

definition makes :: "obj_type option \<Rightarrow> ('s, obj) comp \<Rightarrow> bool" where
  "makes T m \<longleftrightarrow> (\<forall>s p s'. m s = (Ret p, s') \<longrightarrow> T = Some (obj_type_of p))"

named_theorems makes_intros \<open>rules for makes\<close>

lemma makes_basic [makes_intros]:
  "T = Some (obj_type_of p) \<Longrightarrow> makes T (ret p)" "makes T nullptr" "makes T abort" "makes T hang"
  by (simp_all add: makes_def ret_def nullptr_def abort_def hang_def)

lemma makes_and_then [makes_intros]: "(\<And>x. makes T (f x)) \<Longrightarrow> makes T (and_then m f)"
  by (auto simp: makes_def and_then_run split: prod.splits result.splits)

lemma makes_if [makes_intros]: "(b \<Longrightarrow> makes T m) \<Longrightarrow> (\<not> b \<Longrightarrow> makes T m') \<Longrightarrow> makes T (if b then m else m')"
  by simp

lemma makes_containers:
  "T = Some T_TypedList \<Longrightarrow> makes T (decode_typed_list java_lite dec k)"
  "T = Some T_UntypedList \<Longrightarrow> makes T (decode_untyped_list dec k)"
  "T = Some T_TypedMap \<Longrightarrow> makes T (decode_typed_map java_lite emp dec k)"
  "T = Some T_UntypedMap \<Longrightarrow> makes T (decode_untyped_map emp dec k)"
  "T = Some T_Class \<Longrightarrow> makes T (decode_class_instance java_lite dec)"
  "T = Some T_Null \<Longrightarrow> makes T decode_null"
  unfolding decode_typed_list_def decode_untyped_list_def decode_typed_map_def decode_untyped_map_def
    decode_class_instance_def decode_null_def Let_def
  by (intro makes_intros; simp)+

lemma makes_values:
  "T = Some T_Boolean \<Longrightarrow> makes T (and_then m1 (\<lambda>b. ret (Boolean_Obj b)))"
  "T = Some T_Date \<Longrightarrow> makes T (and_then m2 (\<lambda>t. ret (Date_Obj t)))"
  "T = Some T_Double \<Longrightarrow> makes T (and_then m3 (\<lambda>x. ret (Double_Obj x)))"
  "T = Some T_Ref \<Longrightarrow> makes T (and_then m4 (\<lambda>a. ret (Ref_Obj a)))"
  "T = Some T_String \<Longrightarrow> makes T (and_then m5 (\<lambda>s. ret (String_Obj s)))"
  "T = Some T_Binary \<Longrightarrow> makes T (and_then m6 (\<lambda>bs. ret (Binary_Obj bs)))"
  "T = Some T_Long \<Longrightarrow> makes T (and_then m7 (\<lambda>l. ret (Long_Obj l)))"
  "T = Some T_Integer \<Longrightarrow> makes T (and_then m8 (\<lambda>i. ret (Integer_Obj i)))"
  by (intro makes_intros; simp)+

section \<open>The dispatch\<close>

lemma fuel_makes_documented:
  assumes "wf_decoder d" and "unread d = c # bs" and "c \<noteq> 0x43"
    and "decode_object_fuel java_lite emp (Suc k) d = (Ret p, d')"
  shows "documented_type c = Some (obj_type_of p)"
proof -
  let ?T = "documented_type c" and ?dec = "decode_object_fuel java_lite emp k"
  define body where "body =
     (if c = 0x4e then decode_null
     else if c = 0x46 \<or> c = 0x54 then and_then decode_bool (\<lambda>b. ret (Boolean_Obj b))
     else if c = 0x4a \<or> c = 0x4b then and_then decode_milliseconds (\<lambda>t. ret (Date_Obj t))
     else if (0x5b \<le> c \<and> c \<le> 0x5f) \<or> c = 0x44 then and_then decode_double (\<lambda>x. ret (Double_Obj x))
     else if c = 0x56 \<or> c = 0x55 \<or> (0x70 \<le> c \<and> c \<le> 0x77) then decode_typed_list java_lite ?dec k
     else if c = 0x57 \<or> c = 0x58 \<or> (0x78 \<le> c \<and> c \<le> 0x7f) then decode_untyped_list ?dec k
     else if c = 0x4d then decode_typed_map java_lite emp ?dec k
     else if c = 0x48 then decode_untyped_map emp ?dec k
     else if c = 0x4f \<or> (0x60 \<le> c \<and> c \<le> 0x6f) then decode_class_instance java_lite ?dec
     else if c = 0x51 then and_then decode_ref (\<lambda>a. ret (Ref_Obj a))
     else if c \<le> 0x1f \<or> (0x30 \<le> c \<and> c \<le> 0x33) \<or> c = 0x52 \<or> c = 0x53 then
       and_then (decode_string java_lite) (\<lambda>s. ret (String_Obj s))
     else if (0x20 \<le> c \<and> c \<le> 0x2f) \<or> (0x34 \<le> c \<and> c \<le> 0x37) \<or> c = 0x41 \<or> c = 0x42 then
       and_then decode_bytes (\<lambda>bs. ret (Binary_Obj bs))
     else if (0x38 \<le> c \<and> c \<le> 0x3f) \<or> (0xd8 \<le> c \<and> c \<le> 0xef) \<or> 0xf0 \<le> c \<or> c = 0x59 \<or> c = 0x4c then
       and_then decode_i64 (\<lambda>l. ret (Long_Obj l))
     else if c = 0x49 \<or> (0x80 \<le> c \<and> c \<le> 0xbf) \<or> (0xc0 \<le> c \<and> c \<le> 0xcf) \<or> (0xd0 \<le> c \<and> c \<le> 0xd7) then
       and_then decode_i32 (\<lambda>i. ret (Integer_Obj i))
     else nullptr)"
  have "decode_object_fuel java_lite emp (Suc k) d = body d"
    using assms(1-3) by (simp add: decode_object_fuel.simps(2) and_then_run dec_peek_u8_run Let_def body_def)
  moreover have "makes ?T body"
    unfolding body_def by (intro makes_if makes_basic(2) makes_containers makes_values; rule documented_branches, assumption)
  ultimately show ?thesis using assms(4) unfolding makes_def by metis
qed

section \<open>Properties\<close>

text \<open>C29. The decoder keeps to the documented table of first bytes, on every input: unless it starts
  with a class definition (\<open>C\<close>), what is decoded is of the class that the table names for the first
  byte, and for the reserved codes and the terminator, which have no row, the result is a null pointer
  and nothing is consumed, not even that byte, so the error is not seen in the reader.\<close>

theorem first_byte_decides_class:
  assumes "wf_decoder d" and "unread d = c # bs" and "c \<noteq> 0x43"
  shows "case documented_type c of
      None \<Rightarrow> decode_object java_lite emp d = (Null, d)
    | Some ty \<Rightarrow> \<forall>p. fst (decode_object java_lite emp d) = Ret p \<longrightarrow> obj_type_of p = ty"
proof (cases "documented_type c")
  case None
  then have "c \<in> {0x40, 0x45, 0x47, 0x50, 0x5a}" using undocumented_codes assms(3) by blast
  then show ?thesis using None reserved_code_is_no_object [OF assms(1,2)] by simp
next
  case (Some ty)
  have "decode_object java_lite emp d = decode_object_fuel java_lite emp (Suc (length (unread d))) d"
    using assms(1) by (simp add: decode_object_def and_then_run dec_byte_available_run)
  then have "documented_type c = Some (obj_type_of p)" if "fst (decode_object java_lite emp d) = Ret p" for p
    by (intro fuel_makes_documented [OF assms, where d' = "snd (decode_object java_lite emp d)"])
      (use that in \<open>simp add: prod_eq_iff\<close>)
  then show ?thesis using Some by simp
qed

text \<open>A terminator alone, and a list of one integer, which is not decoded to the integer.\<close>

theorem first_byte_decides_class_witness:
  "decode_object True (append_entry (\<lambda>_. 0)) (new_decoder [0x5a]) = (Null, new_decoder [0x5a])
   \<and> fst (decode_object True (append_entry (\<lambda>_. 0)) (new_decoder [0x79, 0x91])) \<noteq> Ret (Integer_Obj 1)"
  using first_byte_decides_class [where d = "new_decoder [0x5a]" and c = "0x5a" and bs = "[]" and java_lite = True
      and emp = "append_entry (\<lambda>_. 0)"]
    first_byte_decides_class [where d = "new_decoder [0x79, 0x91]" and c = "0x79" and bs = "[0x91]" and java_lite = True
      and emp = "append_entry (\<lambda>_. 0)"]
  by (auto simp: documented_type_def documented_codes_def)

end
