(* ===== verification/Object_Aborts.thy ===== *)
theory Object_Aborts
  imports Object_Evaluation
begin

text \<open>
  Where the assertions and exceptions of the object decoder can be reached from
  (src/hessian2/basic_codec/object_codec.cc and the codecs it calls): of all the places that can
  abort, only two are ever reached, the field count of a class definition and a map key that is a
  reference. The others are guarded by the byte that has been peeked.
\<close>

section \<open>Inputs without the two causes\<close>

text \<open>At some position, a class definition with a negative field count is read.\<close>

definition negative_count_in :: "bool \<Rightarrow> bytes \<Rightarrow> bool" where
  "negative_count_in java_lite bs \<longleftrightarrow>
     (\<exists>j d. wf_decoder d \<and> unread d = drop j bs \<and> fst (decode_definition java_lite d) = Abort)"

text \<open>No such position, and none of the bytes of \<open>F\<close>.\<close>

definition harmless :: "bool \<Rightarrow> u8 set \<Rightarrow> bytes \<Rightarrow> bool" where
  "harmless java_lite F bs \<longleftrightarrow> set bs \<inter> F = {} \<and> \<not> negative_count_in java_lite bs"

lemma harmless_drop: "harmless java_lite F bs \<Longrightarrow> harmless java_lite F (drop j bs)"
  by (auto simp: harmless_def negative_count_in_def drop_drop dest: in_set_dropD)

section \<open>Computations that do not abort\<close>

text \<open>
  \<open>clean jl F A Q m\<close>: on a harmless input that \<open>A\<close> holds of, \<open>m\<close> does not abort, its values satisfy
  \<open>Q\<close>, and what it leaves is harmless.
\<close>

definition fine :: "bool \<Rightarrow> u8 set \<Rightarrow> ('v \<Rightarrow> bool) \<Rightarrow> 'v result \<times> decoder \<Rightarrow> bool" where
  "fine jl F Q r \<longleftrightarrow> (case r of
      (Ret v, d) \<Rightarrow> Q v \<and> wf_decoder d \<and> harmless jl F (unread d)
    | (Abort, d) \<Rightarrow> False | _ \<Rightarrow> True)"

lemma fine_simps [simp]:
  "fine jl F Q (Ret v, d) \<longleftrightarrow> Q v \<and> wf_decoder d \<and> harmless jl F (unread d)"
  "\<not> fine jl F Q (Abort, d)" "fine jl F Q (Null, d)" "fine jl F Q (Hang, d)"
  by (simp_all add: fine_def)

definition clean ::
    "bool \<Rightarrow> u8 set \<Rightarrow> (bytes \<Rightarrow> bool) \<Rightarrow> ('v \<Rightarrow> bool) \<Rightarrow> (decoder, 'v) comp \<Rightarrow> bool" where
  "clean jl F A Q m \<longleftrightarrow>
     (\<forall>d. wf_decoder d \<longrightarrow> harmless jl F (unread d) \<longrightarrow> A (unread d) \<longrightarrow> fine jl F Q (m d))"

lemma cleanI:
  "(\<And>d. wf_decoder d \<Longrightarrow> harmless jl F (unread d) \<Longrightarrow> A (unread d) \<Longrightarrow> fine jl F Q (m d)) \<Longrightarrow> clean jl F A Q m"
  by (simp add: clean_def)

lemma cleanD:
  "clean jl F A Q m \<Longrightarrow> wf_decoder d \<Longrightarrow> harmless jl F (unread d) \<Longrightarrow> A (unread d) \<Longrightarrow> fine jl F Q (m d)"
  by (simp add: clean_def)

abbreviation clean_from_any :: "bool \<Rightarrow> u8 set \<Rightarrow> ('v \<Rightarrow> bool) \<Rightarrow> (decoder, 'v) comp \<Rightarrow> bool" where
  "clean_from_any jl F \<equiv> clean jl F (\<lambda>_. True)"

text \<open>The first unread byte is \<open>c\<close>.\<close>

definition at_code :: "u8 \<Rightarrow> bytes \<Rightarrow> bool" where
  "at_code c bs \<longleftrightarrow> bs \<noteq> [] \<and> hd bs = c"

named_theorems clean_intros \<open>rules for clean\<close>

lemma clean_basic [clean_intros]:
  "Q v \<Longrightarrow> clean jl F A Q (ret v)" "clean jl F A Q nullptr" "clean jl F A Q hang"
  by (simp_all add: clean_def ret_def nullptr_def hang_def)

lemma clean_weaken: "clean jl F A Q m \<Longrightarrow> (\<And>v. Q v \<Longrightarrow> R v) \<Longrightarrow> clean jl F A R m"
  by (auto simp: clean_def fine_def split: result.splits prod.splits)

lemma fine_after:
  assumes "m d = (r, d')" and "r \<noteq> Abort" and "wf_decoder d'" and "\<exists>j. unread d' = drop j (unread d)"
    and "harmless jl F (unread d)"
  shows "fine jl F (\<lambda>_. True) (m d)"
proof -
  from assms(4) obtain j where "unread d' = drop j (unread d)" ..
  then show ?thesis using assms by (cases r) (simp_all add: harmless_drop)
qed

lemma clean_safe: "safe m \<Longrightarrow> clean jl F A (\<lambda>_. True) m"
  by (rule cleanI, rule fine_after [OF surjective_pairing]) (auto dest: safeD [OF _ _ surjective_pairing])

lemma clean_and_then:
  assumes "clean jl F A R m" and "\<And>x. R x \<Longrightarrow> clean_from_any jl F Q (f x)"
  shows "clean jl F A Q (and_then m f)"
proof (rule cleanI)
  fix d assume d: "wf_decoder d" "harmless jl F (unread d)" "A (unread d)"
  obtain r d1 where m: "m d = (r, d1)" by (cases "m d")
  with cleanD [OF assms(1) d] have r: "fine jl F R (r, d1)" by simp
  show "fine jl F Q (and_then m f d)"
  proof (cases r)
    case (Ret x)
    with r have "fine jl F Q (f x d1)" by (intro cleanD [OF assms(2)]) simp_all
    then show ?thesis using m Ret by (simp add: and_then_run)
  qed (use m r in \<open>simp_all add: and_then_run\<close>)
qed

lemma clean_safe_then: "safe m \<Longrightarrow> (\<And>x. clean_from_any jl F Q (f x)) \<Longrightarrow> clean jl F A Q (and_then m f)"
  by (rule clean_and_then [OF clean_safe])

lemma clean_if [clean_intros]:
  "(b \<Longrightarrow> clean jl F A Q m) \<Longrightarrow> (\<not> b \<Longrightarrow> clean jl F A Q m') \<Longrightarrow> clean jl F A Q (if b then m else m')"
  by simp

lemma clean_at_any: "clean_from_any jl F Q m \<Longrightarrow> clean jl F A Q m"
  by (simp add: clean_def)

text \<open>Steps that leave the reader where it is keep what is known of the input.\<close>

lemma clean_silent_then:
  assumes "\<And>d. \<exists>x d'. m d = (Ret x, d') \<and> d_reader d' = d_reader d" and "\<And>x. clean jl F A Q (f x)"
  shows "clean jl F A Q (and_then m f)"
proof (rule cleanI)
  fix d assume d: "wf_decoder d" "harmless jl F (unread d)" "A (unread d)"
  from assms(1) [of d] obtain x d1 where m: "m d = (Ret x, d1)" "d_reader d1 = d_reader d" by blast
  with d have "fine jl F Q (f x d1)"
    by (intro cleanD [OF assms(2)]) (simp_all add: wf_decoder_def unread_def)
  then show "fine jl F Q (and_then m f d)" using m by (simp add: and_then_run)
qed

lemma clean_read_code:
  assumes "clean_from_any jl F Q (f (True, c))"
  shows "clean jl F (at_code c) Q (and_then dec_read_u8 f)"
proof (rule cleanI)
  fix d assume d: "wf_decoder d" "harmless jl F (unread d)" "at_code c (unread d)"
  from d(3) obtain bs where bs: "unread d = c # bs" by (cases "unread d") (auto simp: at_code_def)
  have "fine jl F Q (f (True, c) (advance 1 d))"
    using d harmless_drop [of jl F "unread d" 1] bs by (intro cleanD [OF assms]) simp_all
  then show "fine jl F Q (and_then dec_read_u8 f d)" using d(1) bs by (simp add: and_then_run dec_read_u8_run)
qed

lemma clean_peek:
  assumes "clean_from_any jl F Q (f (False, 0))" and "\<And>c. c \<notin> F \<Longrightarrow> clean jl F (at_code c) Q (f (True, c))"
  shows "clean jl F A Q (and_then dec_peek_u8 f)"
proof (rule cleanI)
  fix d assume d: "wf_decoder d" "harmless jl F (unread d)"
  show "fine jl F Q (and_then dec_peek_u8 f d)"
  proof (cases "unread d")
    case Nil
    with cleanD [OF assms(1) d] d(1) show ?thesis by (simp add: and_then_run dec_peek_u8_run)
  next
    case (Cons c bs)
    then have "c \<notin> F" using d(2) by (auto simp: harmless_def)
    from cleanD [OF assms(2) [OF this] d] d(1) Cons show ?thesis
      by (simp add: and_then_run dec_peek_u8_run at_code_def)
  qed
qed

section \<open>The decoders\<close>

lemma clean_definition: "clean jl F A (\<lambda>_. True) (decode_definition jl)"
proof (rule cleanI)
  fix d assume d: "wf_decoder d" "harmless jl F (unread d)"
  obtain r d' where run: "decode_definition jl d = (r, d')" by (cases "decode_definition jl d")
  have "unread d = drop 0 (unread d)" by simp
  with d run have "r \<noteq> Abort" unfolding harmless_def negative_count_in_def by (metis fst_conv)
  with well_runD [OF well_run_decode_definition d(1) order_refl run] d(2) run
  show "fine jl F (\<lambda>_. True) (decode_definition jl d)" by (intro fine_after)
qed

lemma clean_find_definition: "clean jl F A (\<lambda>_. True) (find_definition jl)"
proof -
  have "clean jl F A' (\<lambda>_. True) (and_then (if c = 0x43 then and_then (decode_definition jl) (\<lambda>_. ret ()) else ret ())
      (\<lambda>_. decode_definition jl))" for A' and c :: u8
    by (rule clean_and_then [OF clean_if [OF clean_and_then [OF clean_definition]]])
      (auto intro: clean_basic clean_definition)
  then show ?thesis unfolding find_definition_def by (intro clean_peek) (simp_all add: clean_basic)
qed

lemma clean_null: "clean jl F (at_code 0x4e) (\<lambda>p. p = Null_Obj) decode_null"
  unfolding decode_null_def by (intro clean_read_code) (simp add: clean_basic)

lemma clean_ref: "clean jl F (at_code 0x51) (\<lambda>_. True) decode_ref"
  unfolding decode_ref_def
  by (intro clean_read_code) (simp, intro clean_safe_then safe_decode_i32 safe_gets clean_if clean_basic TrueI)

lemma clean_read_nums: "clean_from_any jl F Q dec \<Longrightarrow> clean_from_any jl F (\<lambda>_. True) (read_nums dec c acc)"
  by (induction c arbitrary: acc) (auto intro: clean_basic clean_and_then)

lemma clean_read_until_end:
  "clean_from_any jl F Q dec \<Longrightarrow> clean_from_any jl F (\<lambda>_. True) (read_until_end dec k acc)"
proof (induction k arbitrary: acc)
  case (Suc k)
  note rest = Suc.IH [OF Suc.prems]
  show ?case unfolding read_until_end.simps
    by (intro clean_peek clean_if clean_basic clean_safe_then safe_read_u8 TrueI
        clean_at_any [OF clean_and_then [OF Suc.prems rest]]; simp)
qed (simp add: clean_basic)

definition not_ref :: "obj \<Rightarrow> bool" where
  "not_ref p \<longleftrightarrow> obj_type_of p \<noteq> T_Ref"

lemma clean_insert: "not_ref key \<Longrightarrow> clean_from_any jl F (\<lambda>_. True) (insert_entry emp kvs key val)"
  by (cases key) (auto simp: not_ref_def clean_def insert_entry_def Let_def wf_decoder_def unread_def)

lemma clean_read_entries:
  "clean_from_any jl F not_ref dec \<Longrightarrow> clean_from_any jl F (\<lambda>_. True) (read_entries emp dec k kvs)"
proof (induction k arbitrary: kvs)
  case (Suc k)
  note rest = Suc.IH [OF Suc.prems]
  have "clean_from_any jl F (\<lambda>_. True) (and_then dec (\<lambda>key. and_then dec (\<lambda>val.
      and_then (insert_entry emp kvs key val) (\<lambda>kvs'. read_entries emp dec k kvs'))))"
    by (intro clean_and_then [OF Suc.prems] clean_and_then [OF clean_insert] rest)
  note entry = clean_at_any [OF this]
  show ?case unfolding read_entries.simps
    by (intro clean_peek clean_if clean_basic clean_safe_then safe_read_u8 TrueI entry; simp)
qed (simp add: clean_basic)

lemma new_ref_silent: "\<exists>x d'. new_ref d = (Ret x, d') \<and> d_reader d' = d_reader d"
  by (simp add: new_ref_def)

lemma clean_lists:
  assumes "clean_from_any jl F Q dec"
  shows "clean jl F A not_ref (decode_typed_list jl dec k)" "clean jl F A not_ref (decode_untyped_list dec k)"
  unfolding decode_typed_list_def decode_untyped_list_def Let_def
  by (intro clean_silent_then new_ref_silent clean_safe_then safe_read_u8 safe_decode_type_ref
      safe_decode_i32 clean_if clean_and_then [OF clean_read_nums [OF assms]]
      clean_and_then [OF clean_read_until_end [OF assms]] clean_basic; simp add: not_ref_def)+

lemma clean_maps:
  assumes "clean_from_any jl F not_ref dec"
  shows "clean jl F (at_code 0x4d) not_ref (decode_typed_map jl emp dec k)"
    "clean jl F (at_code 0x48) not_ref (decode_untyped_map emp dec k)"
proof -
  have entries: "clean_from_any jl F not_ref (and_then (read_entries emp dec k []) (\<lambda>kvs. ret (f kvs)))"
    if "\<And>kvs. not_ref (f kvs)" for f
    by (intro clean_and_then [OF clean_read_entries [OF assms]] clean_basic that)
  have typed: "clean_from_any jl F not_ref (and_then (decode_type_ref jl) (\<lambda>ty.
      and_then (read_entries emp dec k []) (\<lambda>kvs. ret (Typed_Map a ty kvs))))" for a
    by (intro clean_safe_then safe_decode_type_ref entries) (simp add: not_ref_def)
  show "clean jl F (at_code 0x4d) not_ref (decode_typed_map jl emp dec k)"
    unfolding decode_typed_map_def by (intro clean_silent_then new_ref_silent clean_read_code) (simp add: typed)
  show "clean jl F (at_code 0x48) not_ref (decode_untyped_map emp dec k)"
    unfolding decode_untyped_map_def
    by (intro clean_silent_then new_ref_silent clean_read_code) (simp add: entries not_ref_def)
qed

lemma clean_class_instance:
  assumes "clean_from_any jl F Q dec"
  shows "clean jl F A not_ref (decode_class_instance jl dec)"
proof -
  have dead: "\<exists>x d'. modify (\<lambda>d. d\<lparr>d_dead := g (d_dead d)\<rparr>) d = (Ret x, d') \<and> d_reader d' = d_reader d"
    for g :: "addr list \<Rightarrow> addr list" and d
    by simp
  show ?thesis unfolding decode_class_instance_def
    by (intro clean_silent_then new_ref_silent dead clean_and_then [OF clean_find_definition]
        clean_and_then [OF clean_read_nums [OF assms]] clean_basic) (simp add: not_ref_def)
qed

lemma clean_value:
  "safe m \<Longrightarrow> (\<And>v. not_ref (f v)) \<Longrightarrow> clean jl F A not_ref (and_then m (\<lambda>v. ret (f v)))"
  by (intro clean_safe_then clean_basic)

text \<open>
  Where one of the two is missing, references or maps, nothing aborts. Without references, no
  object is one.
\<close>

definition target :: "u8 set \<Rightarrow> obj \<Rightarrow> bool" where
  "target F p \<longleftrightarrow> (0x51 \<in> F \<longrightarrow> not_ref p)"

lemma not_ref_target: "not_ref p \<Longrightarrow> target F p"
  by (simp add: target_def)

lemma clean_decode_object_fuel:
  assumes "0x51 \<in> F \<or> {0x48, 0x4d} \<subseteq> F"
  shows "clean_from_any jl F (target F) (decode_object_fuel jl emp k)"
proof (induction k)
  case (Suc k)
  let ?dec = "decode_object_fuel jl emp k"
  note weak = clean_weaken [OF _ not_ref_target]
  have dec: "clean_from_any jl F not_ref ?dec" if "0x51 \<in> F"
    by (rule clean_weaken [OF Suc.IH]) (use that in \<open>simp add: target_def\<close>)
  have maps: "clean jl F (at_code 0x4d) (target F) (decode_typed_map jl emp ?dec k)" if "0x4d \<notin> F"
    using that assms by (auto intro!: weak [OF clean_maps(1) [OF dec]])
  have umaps: "clean jl F (at_code 0x48) (target F) (decode_untyped_map emp ?dec k)" if "0x48 \<notin> F"
    using that assms by (auto intro!: weak [OF clean_maps(2) [OF dec]])
  have refs: "clean jl F (at_code 0x51) (target F) (and_then decode_ref (\<lambda>a. ret (Ref_Obj a)))" if "0x51 \<notin> F"
    using that by (intro clean_and_then [OF clean_ref] clean_basic) (simp add: target_def)
  have null: "clean jl F (at_code 0x4e) (target F) decode_null"
    by (rule clean_weaken [OF clean_null]) (simp add: target_def not_ref_def)
  have defs: "clean jl F A (target F) (and_then (decode_definition jl) (\<lambda>_. ?dec))" for A
    by (intro clean_and_then [OF clean_definition] Suc.IH)
  note leaves = weak [OF clean_value [OF safe_decode_bool]] weak [OF clean_value [OF safe_decode_milliseconds]]
    weak [OF clean_value [OF safe_decode_double]] weak [OF clean_value [OF safe_decode_string]]
    weak [OF clean_value [OF safe_decode_bytes]] weak [OF clean_value [OF safe_decode_i64]]
    weak [OF clean_value [OF safe_decode_i32]]
  note containers = weak [OF clean_lists(1) [OF Suc.IH]] weak [OF clean_lists(2) [OF Suc.IH]]
    weak [OF clean_class_instance [OF Suc.IH]]
  show ?case
    unfolding decode_object_fuel.simps Let_def fst_conv snd_conv
    by (intro clean_peek clean_if containers defs leaves clean_basic;
        (simp add: not_ref_def maps umaps refs null; fail)?)
qed (simp only: decode_object_fuel.simps(1), rule clean_basic)

text \<open>A definition that aborts starts with its code.\<close>

lemma definition_abort_code:
  assumes "wf_decoder d" and "fst (decode_definition jl d) = Abort"
  shows "0x43 \<in> set (unread d)"
proof (rule ccontr)
  assume no: "0x43 \<notin> set (unread d)"
  show False
  proof (cases "unread d")
    case Nil
    then show False using assms by (simp add: decode_definition_def and_then_run dec_read_u8_run)
  next
    case (Cons c bs)
    define rest where "rest = (if c = 0x4f then
       and_then decode_i32 (\<lambda>ref_number. and_then (gets d_defs) (\<lambda>def_ref.
         if length def_ref \<le> unat ref_number then nullptr else ret (def_ref ! unat ref_number)))
     else if 0x60 \<le> c \<and> c \<le> 0x6f then
       and_then (gets d_defs) (\<lambda>def_ref.
         if length def_ref \<le> unat c - 0x60 then nullptr else ret (def_ref ! (unat c - 0x60)))
     else nullptr)"
    have "safe rest" unfolding rest_def by (intro safe_intros safe_decode_i32)
    moreover have "wf_decoder (advance 1 d)" using Cons assms(1) by simp
    moreover have "decode_definition jl d = rest (advance 1 d)"
      using Cons no assms(1) by (simp add: decode_definition_def and_then_run dec_read_u8_run Let_def rest_def)
    ultimately show False using assms(2) by (cases "rest (advance 1 d)") (auto dest: safeD(1))
  qed
qed

lemma negative_count_code: "negative_count_in jl bs \<Longrightarrow> 0x43 \<in> set bs"
  unfolding negative_count_in_def by (metis definition_abort_code in_set_dropD)

section \<open>Properties\<close>

text \<open>C5. On every input, the object decoder aborts only for one of two causes: a class definition
  (\<open>C\<close>) whose field count is negative, or, in an input with a map (\<open>H\<close> or \<open>M\<close>), a reference
  (\<open>Q\<close>). So none of its other assertions can be violated, and no read leaves the buffer; an input
  without these bytes is always answered with an object or a null pointer.\<close>

theorem decode_object_aborts_only:
  assumes "wf_decoder d" and "fst (decode_object jl emp d) = Abort"
  shows "0x43 \<in> set (unread d) \<and> negative_count_in jl (unread d)
    \<or> 0x51 \<in> set (unread d) \<and> (0x48 \<in> set (unread d) \<or> 0x4d \<in> set (unread d))"
proof (rule ccontr)
  assume other: "\<not> ?thesis"
  define F :: "u8 set" where "F = (if 0x51 \<in> set (unread d) then {0x48, 0x4d} else {0x51})"
  have "clean_from_any jl F (target F) (decode_object_fuel jl emp (Suc (length (unread d))))"
    by (rule clean_decode_object_fuel) (simp add: F_def)
  moreover have "harmless jl F (unread d)"
    using other negative_count_code by (auto simp: harmless_def F_def)
  ultimately have "fine jl F (target F) (decode_object jl emp d)"
    using assms(1) decode_object_eq [OF assms(1)] by (simp add: cleanD)
  then show False using assms(2) by (cases "decode_object jl emp d") simp
qed

theorem decode_object_aborts_only_witness:
  "fst (decode_object True (append_entry (\<lambda>_. 0)) (new_decoder [0x48, 0x43, 1, 0x61, 0x8f])) = Abort
   \<and> negative_count_in True [0x48, 0x43, 1, 0x61, 0x8f]"
proof
  let ?bs = "[0x48, 0x43, 1, 0x61, 0x8f] :: bytes"
  show "fst (decode_object True (append_entry (\<lambda>_. 0)) (new_decoder ?bs)) = Abort"
    by (simp add: eval_decoder eval_object eval_string)
  from decode_object_aborts_only [OF wf_new_decoder this] show "negative_count_in True ?bs" by simp
qed

end
