(* ===== verification/Object_Reports.thy ===== *)
theory Object_Reports
  imports Object_Properties Object_Evaluation
begin

text \<open>
  What \<open>encode\<close> of an object reports (src/hessian2/basic_codec/object_codec.cc, list_codec.cc,
  map_codec.cc and class_instance_codec.cc): it returns on every object without references, and
  its result is about the object itself only, since the containers do not look at the results of
  their parts.
\<close>

section \<open>Encoders that return and append\<close>

text \<open>
  \<open>settles n Q m\<close>: with room for \<open>n\<close> more class definitions, \<open>m\<close> returns a value that satisfies
  \<open>Q\<close>, appends to the output and stores at most \<open>n\<close> definitions.
\<close>

definition settled :: "nat \<Rightarrow> ('v \<Rightarrow> bool) \<Rightarrow> encoder \<Rightarrow> 'v result \<times> encoder \<Rightarrow> bool" where
  "settled n Q e r \<longleftrightarrow> (case r of (Ret v, e') \<Rightarrow>
       Q v \<and> (\<exists>out. e_out e' = e_out e @ out) \<and> (\<exists>dfs. e_defs e' = e_defs e @ dfs \<and> length dfs \<le> n)
     | _ \<Rightarrow> False)"

definition settles :: "nat \<Rightarrow> ('v \<Rightarrow> bool) \<Rightarrow> (encoder, 'v) comp \<Rightarrow> bool" where
  "settles n Q m \<longleftrightarrow> (\<forall>e. length (e_defs e) + n \<le> 65535 \<longrightarrow> settled n Q e (m e))"

lemma settledE:
  assumes "settled n Q e r"
  obtains v e' out dfs where "r = (Ret v, e')" and "Q v" and "e_out e' = e_out e @ out"
    and "e_defs e' = e_defs e @ dfs" and "length dfs \<le> n"
  using assms by (auto simp: settled_def split: prod.splits result.splits)

lemma settledI:
  "r = (Ret v, e') \<Longrightarrow> Q v \<Longrightarrow> e_out e' = e_out e @ out \<Longrightarrow> e_defs e' = e_defs e @ dfs \<Longrightarrow>
    length dfs \<le> n \<Longrightarrow> settled n Q e r"
  by (auto simp: settled_def)

lemma settlesD: "settles n Q m \<Longrightarrow> length (e_defs e) + n \<le> 65535 \<Longrightarrow> settled n Q e (m e)"
  by (simp add: settles_def)

lemma settles_and_then:
  assumes "settles n R m" and "\<And>x. R x \<Longrightarrow> settles k Q (f x)"
  shows "settles (n + k) Q (and_then m f)"
  unfolding settles_def
proof (intro allI impI)
  fix e :: encoder assume room: "length (e_defs e) + (n + k) \<le> 65535"
  then have "settled n R e (m e)" by (intro settlesD [OF assms(1)]) simp
  then obtain v e1 out dfs where m: "m e = (Ret v, e1)" "R v" "e_out e1 = e_out e @ out"
      "e_defs e1 = e_defs e @ dfs" "length dfs \<le> n" by (rule settledE)
  then have "settled k Q e1 (f v e1)" using room by (intro settlesD [OF assms(2)]) simp_all
  then obtain w e2 out2 dfs2 where "f v e1 = (Ret w, e2)" "Q w" "e_out e2 = e_out e1 @ out2"
      "e_defs e2 = e_defs e1 @ dfs2" "length dfs2 \<le> k" by (rule settledE)
  then show "settled (n + k) Q e (and_then m f e)"
    using m by (intro settledI [where v = w and e' = e2 and dfs = "dfs @ dfs2" and out = "out @ out2"])
      (simp_all add: and_then_run)
qed

lemma settles_then: "settles 0 (\<lambda>_. True) m \<Longrightarrow> (\<And>x. settles k Q (f x)) \<Longrightarrow> settles k Q (and_then m f)"
  using settles_and_then [of 0 "\<lambda>_. True" m k Q f] by simp

lemma settles_last: "settles n R m \<Longrightarrow> (\<And>x. R x \<Longrightarrow> settles 0 Q (f x)) \<Longrightarrow> settles n Q (and_then m f)"
  using settles_and_then [of n R m 0 Q f] by simp

lemma settles_if:
  "(b \<Longrightarrow> settles n Q m) \<Longrightarrow> (\<not> b \<Longrightarrow> settles n Q m') \<Longrightarrow> settles n Q (if b then m else m')"
  by simp

lemma settles_ret: "Q v \<Longrightarrow> settles n Q (ret v)"
  by (simp add: settles_def settled_def)

lemma settled_mono: "settled n Q e r \<Longrightarrow> n \<le> k \<Longrightarrow> (\<And>v. Q v \<Longrightarrow> R v) \<Longrightarrow> settled k R e r"
  by (elim settledE, rule settledI) auto

lemma settles_mono: "settles n Q m \<Longrightarrow> n \<le> k \<Longrightarrow> (\<And>v. Q v \<Longrightarrow> R v) \<Longrightarrow> settles k R m"
  unfolding settles_def by (meson add_le_cancel_left le_trans settled_mono)

lemma settles_encodes: "encodes m bs \<Longrightarrow> settles 0 (\<lambda>b. b) m"
  by (simp add: settles_def settled_def encodesD emit_def)

lemma settles_writes:
  "settles 0 (\<lambda>_. True) (enc_write_byte v)" "settles 0 (\<lambda>_. True) (enc_raw_write bs)"
  by (simp_all add: settles_def settled_def emit_def)

lemma settles_state:
  "settles 0 (\<lambda>_. True) (register a)"
  "settles 0 (\<lambda>_. True) (modify (\<lambda>e. e\<lparr>e_types := g e\<rparr>))"
  "settles 0 (\<lambda>_. True) (gets h)"
  by (simp_all add: settles_def settled_def register_def)

section \<open>The codecs\<close>

text \<open>A text the encoder has a result for: it is refused, or it is within the limits of the codec.\<close>

definition text_fits :: "bool \<Rightarrow> bytes \<Rightarrow> bool" where
  "text_fits jl s \<longleftrightarrow> chars s = None \<or> string_ok jl s"

lemma string_ok_chars: "string_ok jl s \<Longrightarrow> chars s \<noteq> None"
  by (auto simp: string_ok_def split: option.splits)

lemma text_fits_short: "length s < 2 ^ 32 \<Longrightarrow> text_fits False s"
  by (auto simp: text_fits_def string_ok_def split: option.splits)

lemma settles_string: "text_fits jl s \<Longrightarrow> settles 0 (\<lambda>b. b \<longleftrightarrow> chars s \<noteq> None) (encode_string jl s)"
  unfolding text_fits_def
proof (elim disjE)
  assume "chars s = None"
  then show ?thesis by (simp add: settles_def settled_def encode_string_invalid)
next
  assume s: "string_ok jl s"
  then show ?thesis using settles_mono [OF settles_encodes [OF encode_string_encodes [OF s]]] string_ok_chars
    by simp
qed

lemma settles_string_any: "text_fits jl s \<Longrightarrow> settles 0 (\<lambda>_. True) (encode_string jl s)"
  by (rule settles_mono [OF settles_string]) simp_all

lemmas settles_i32 = settles_mono [OF settles_encodes [OF encode_i32_encodes], of 0 "\<lambda>_. True", simplified]

lemma settles_type_ref: "text_fits jl ty \<Longrightarrow> settles 0 (\<lambda>_. True) (encode_type_ref jl ty)"
  unfolding encode_type_ref_def
  by (intro settles_then settles_if settles_state settles_string_any settles_i32 settles_ret TrueI)

lemma settles_strings: "\<forall>s \<in> set ss. text_fits jl s \<Longrightarrow> settles 0 (\<lambda>_. True) (encode_strings jl ss)"
  by (induction ss) (auto intro: settles_then settles_string_any settles_ret)

definition def_fits :: "bool \<Rightarrow> raw_definition \<Rightarrow> bool" where
  "def_fits jl df \<longleftrightarrow> text_fits jl (def_type df) \<and> (\<forall>s \<in> set (field_names df). text_fits jl s)"

lemma i16_of_index: "i < 65535 \<Longrightarrow> (of_nat i :: i16) \<noteq> - 1"
proof
  assume "i < 65535" and "(of_nat i :: i16) = - 1"
  then have "unat (of_nat i :: i16) = unat (- 1 :: i16)" by simp
  moreover have "unat (- 1 :: i16) = 65535" by (simp add: unsigned_minus_1_eq_mask mask_eq_exp_minus_1)
  ultimately show False using \<open>i < 65535\<close> by (simp add: unat_of_nat take_bit_eq_mod)
qed

lemma encode_known_definition:
  assumes "df \<in> set (e_defs e)" and "length (e_defs e) \<le> 65535"
  shows "settled 0 (\<lambda>_. True) e (encode_def_fuel jl (Suc k) df e)"
proof -
  from assms(1) obtain i where i: "index_of df (e_defs e) = Some i"
    using index_of_None by (metis option.exhaust)
  then have "i < 65535" using index_of_Some [OF i] assms(2) by simp
  then have "getDefRef df e = (Ret (of_nat i), e)" "(of_nat i :: i16) \<noteq> - 1"
    using getDefRef_run [OF assms(2), of df] i i16_of_index by auto
  then have "encode_def_fuel jl (Suc k) df e =
      (if sint (of_nat i :: i16) \<le> 15 then and_then (enc_write_byte (0x60 + sint (of_nat i :: i16))) (\<lambda>_. ret True)
       else and_then (enc_write_byte 0x4f) (\<lambda>_.
         and_then (encode_i32 (word_of_int (sint (of_nat i :: i16)))) (\<lambda>_. ret True))) e"
    by (simp add: and_then_def [of "getDefRef df"] del: of_int_sint)
  moreover have "settles 0 (\<lambda>_. True)
      (if x \<le> 15 then and_then (enc_write_byte (0x60 + x)) (\<lambda>_. ret True)
       else and_then (enc_write_byte 0x4f) (\<lambda>_. and_then (encode_i32 (word_of_int x)) (\<lambda>_. ret True)))" for x
    by (intro settles_if settles_then settles_writes settles_i32 settles_ret TrueI)
  ultimately show ?thesis using assms(2) settlesD by (metis add_0_right)
qed

lemma settles_raw_definition:
  assumes "def_fits jl df"
  shows "settles 1 (\<lambda>_. True) (encode_raw_definition jl df)"
  unfolding settles_def
proof (intro allI impI)
  fix e :: encoder assume room: "length (e_defs e) + 1 \<le> 65535"
  have raw: "encode_raw_definition jl df = encode_def_fuel jl (Suc (Suc 0)) df"
    by (simp add: encode_raw_definition_def numeral_2_eq_2)
  show "settled 1 (\<lambda>_. True) e (encode_raw_definition jl df e)"
  proof (cases "df \<in> set (e_defs e)")
    case True
    from encode_known_definition [OF this, of jl "Suc 0"] room have "settled 0 (\<lambda>_. True) e (encode_raw_definition jl df e)"
      by (simp add: raw del: encode_def_fuel.simps)
    then show ?thesis by (auto intro!: settledI elim!: settledE)
  next
    case False
    then have new: "getDefRef df e = (Ret (- 1), e)"
      using getDefRef_run [of e df] room index_of_None [of df "e_defs e"] by simp
    let ?e1 = "(emit [0x43] e)\<lparr>e_defs := e_defs e @ [df]\<rparr>"
    let ?strings = "and_then (encode_string jl (def_type df)) (\<lambda>_.
       and_then (encode_i32 (of_nat (length (field_names df)))) (\<lambda>_. encode_strings jl (field_names df)))"
    have "settles 0 (\<lambda>_. True) ?strings"
      using assms by (intro settles_then settles_string_any settles_i32 settles_strings) (simp_all add: def_fits_def)
    then have "settled 0 (\<lambda>_. True) ?e1 (?strings ?e1)" using room by (intro settlesD) simp_all
    then obtain v e2 out where e2: "?strings ?e1 = (Ret v, e2)" "e_out e2 = e_out ?e1 @ out" "e_defs e2 = e_defs e @ [df]"
      by (rule settledE) auto
    have "settled 0 (\<lambda>_. True) e2 (encode_def_fuel jl (Suc 0) df e2)"
      using e2 room by (intro encode_known_definition) simp_all
    then obtain w e3 out3 where e3: "encode_def_fuel jl (Suc 0) df e2 = (Ret w, e3)" "e_out e3 = e_out e2 @ out3"
        "e_defs e3 = e_defs e2"
      by (rule settledE) auto
    have "encode_raw_definition jl df e =
        and_then ?strings (\<lambda>_. and_then (encode_def_fuel jl (Suc 0) df) (\<lambda>_. ret True)) ?e1"
      unfolding raw encode_def_fuel.simps(2) [of jl "Suc 0"]
      by (simp add: and_then_run new emit_def and_then_assoc)
    also have "\<dots> = (Ret True, e3)" using e2 e3 by (simp add: and_then_run)
    finally show ?thesis
      by (rule settledI [where out = "[0x43] @ out @ out3" and dfs = "[df]"])
        (use e2 e3 in \<open>simp_all add: emit_def\<close>)
  qed
qed

section \<open>Objects\<close>

text \<open>Every text in the object fits, and so does every binary.\<close>

fun fits :: "bool \<Rightarrow> obj \<Rightarrow> bool" where
  "fits jl (String_Obj s) \<longleftrightarrow> text_fits jl s"
| "fits jl (Binary_Obj bs) \<longleftrightarrow> length bs \<le> 2 ^ 32"
| "fits jl (Untyped_List a vs) \<longleftrightarrow> list_all (\<lambda>v. fits jl v) vs"
| "fits jl (Typed_List a ty vs) \<longleftrightarrow> text_fits jl ty \<and> list_all (\<lambda>v. fits jl v) vs"
| "fits jl (Typed_Map a ty kvs) \<longleftrightarrow> text_fits jl ty \<and> list_all (\<lambda>(k, v). fits jl k \<and> fits jl v) kvs"
| "fits jl (Untyped_Map a kvs) \<longleftrightarrow> list_all (\<lambda>(k, v). fits jl k \<and> fits jl v) kvs"
| "fits jl (Class_Instance a df vs) \<longleftrightarrow> def_fits jl df \<and> list_all (\<lambda>v. fits jl v) vs"
| "fits jl _ \<longleftrightarrow> True"

text \<open>The class instances in an object.\<close>

fun instances :: "obj \<Rightarrow> nat" where
  "instances (Untyped_List a vs) = sum_list (map (\<lambda>v. instances v) vs)"
| "instances (Typed_List a ty vs) = sum_list (map (\<lambda>v. instances v) vs)"
| "instances (Typed_Map a ty kvs) = sum_list (map (\<lambda>(k, v). instances k + instances v) kvs)"
| "instances (Untyped_Map a kvs) = sum_list (map (\<lambda>(k, v). instances k + instances v) kvs)"
| "instances (Class_Instance a df vs) = Suc (sum_list (map (\<lambda>v. instances v) vs))"
| "instances _ = 0"

text \<open>What \<open>encode\<close> returns: only a string that is no text is refused.\<close>

definition accepted :: "obj \<Rightarrow> bool" where
  "accepted p \<longleftrightarrow> (case p of String_Obj s \<Rightarrow> chars s \<noteq> None | _ \<Rightarrow> True)"

lemma settles_each:
  "(\<And>v. v \<in> set vs \<Longrightarrow> settles (w v) (\<lambda>_. True) (enc v)) \<Longrightarrow>
    settles (sum_list (map w vs)) (\<lambda>_. True) (encode_each enc vs)"
  by (induction vs) (auto intro!: settles_and_then [where R = "\<lambda>_. True"] settles_ret)

lemma settles_entries:
  "(\<And>k v. (k, v) \<in> set kvs \<Longrightarrow> settles (w k) (\<lambda>_. True) (enc k) \<and> settles (w v) (\<lambda>_. True) (enc v)) \<Longrightarrow>
    settles (sum_list (map (\<lambda>(k, v). w k + w v) kvs)) (\<lambda>_. True) (encode_entries enc kvs)"
proof (induction kvs)
  case (Cons kv kvs)
  obtain k v where kv: "kv = (k, v)" by (cases kv)
  have "settles (w k) (\<lambda>_. True) (enc k)" "settles (w v) (\<lambda>_. True) (enc v)"
    and "settles (sum_list (map (\<lambda>(k, v). w k + w v) kvs)) (\<lambda>_. True) (encode_entries enc kvs)"
    using Cons.prems [of k v] Cons.IH Cons.prems kv by auto
  then have "settles (w k + (w v + sum_list (map (\<lambda>(k, v). w k + w v) kvs))) (\<lambda>_. True)
      (and_then (enc k) (\<lambda>_. and_then (enc v) (\<lambda>_. encode_entries enc kvs)))"
    by (intro settles_and_then [where R = "\<lambda>_. True"])
  then show ?case by (simp add: kv add.assoc)
qed (simp add: settles_ret)

lemma settles_lists:
  assumes "settles n (\<lambda>_. True) (encode_each enc vs)"
  shows "text_fits jl ty \<Longrightarrow> settles n (\<lambda>b. b) (encode_typed_list jl enc a ty vs)"
    and "settles n (\<lambda>b. b) (encode_untyped_list enc a vs)"
  unfolding encode_typed_list_def encode_untyped_list_def Let_def
  by (intro settles_then settles_state settles_if settles_writes settles_type_ref settles_i32
      settles_last [OF assms] settles_ret TrueI; assumption?)+

lemma settles_maps:
  assumes "settles n (\<lambda>_. True) (encode_entries enc kvs)"
  shows "text_fits jl ty \<Longrightarrow> settles n (\<lambda>b. b) (encode_typed_map jl enc a ty kvs)"
    and "settles n (\<lambda>b. b) (encode_untyped_map enc a kvs)"
  unfolding encode_typed_map_def encode_untyped_map_def
  by (intro settles_then [OF settles_state(1)] settles_then [OF settles_writes(1)]
      settles_then [OF settles_type_ref] settles_last [OF assms] settles_ret TrueI; assumption?)+

lemma settles_instance:
  assumes "settles n (\<lambda>_. True) (encode_each enc vs)" and "def_fits jl df"
  shows "settles (Suc n) (\<lambda>b. b) (encode_class_instance jl enc a df vs)"
proof -
  have "settles (1 + n) (\<lambda>b. b)
      (and_then (encode_raw_definition jl df) (\<lambda>_. and_then (encode_each enc vs) (\<lambda>_. ret True)))"
    by (rule settles_and_then [OF settles_raw_definition [OF assms(2)] settles_last [OF assms(1)]])
      (simp add: settles_ret)
  then show ?thesis unfolding encode_class_instance_def by (intro settles_then [OF settles_state(1)]) simp
qed

lemma settles_values:
  "settles 0 (\<lambda>b. b) (encode_bool b)" "settles 0 (\<lambda>b. b) (encode_milliseconds t)"
  "settles 0 (\<lambda>b. b) (encode_double oor x)" "settles 0 (\<lambda>b. b) (encode_i32 i)" "settles 0 (\<lambda>b. b) (encode_i64 l)"
  "settles 0 (\<lambda>b. b) encode_null" "length bs \<le> 2 ^ 32 \<Longrightarrow> settles 0 (\<lambda>b. b) (encode_bytes bs)"
proof -
  show "settles 0 (\<lambda>b. b) (encode_bool b)" by (simp add: settles_def settled_def encode_bool_def emit_def)
  show "settles 0 (\<lambda>b. b) encode_null" by (simp add: settles_def settled_def encode_null_def emit_def)
  show "settles 0 (\<lambda>b. b) (encode_bytes bs)" if "length bs \<le> 2 ^ 32"
    by (rule settles_encodes [OF encode_bytes_encodes [OF that]])
qed (auto intro: settles_encodes encode_milliseconds_encodes encode_double_encodes encode_i32_encodes
  encode_i64_encodes)

lemma encode_object_settles:
  "no_refs p \<Longrightarrow> fits jl p \<Longrightarrow> settles (instances p) (\<lambda>b. b \<longleftrightarrow> accepted p) (encode_object jl oor p)"
proof (induction p)
  case (Untyped_List a vs)
  then have "settles (sum_list (map instances vs)) (\<lambda>_. True) (encode_each (encode_object jl oor) vs)"
    by (intro settles_each settles_mono [OF Untyped_List.IH]) (auto simp: list_all_iff)
  from settles_lists(2) [OF this] show ?case by (simp add: accepted_def)
next
  case (Typed_List a ty vs)
  then have "settles (sum_list (map instances vs)) (\<lambda>_. True) (encode_each (encode_object jl oor) vs)"
    by (intro settles_each settles_mono [OF Typed_List.IH]) (auto simp: list_all_iff)
  from settles_lists(1) [OF this] show ?case using Typed_List.prems by (simp add: accepted_def)
next
  case (Typed_Map a ty kvs)
  then have "settles (sum_list (map (\<lambda>(k, v). instances k + instances v) kvs)) (\<lambda>_. True)
      (encode_entries (encode_object jl oor) kvs)"
    by (intro settles_entries conjI settles_mono [OF Typed_Map.IH(1)] settles_mono [OF Typed_Map.IH(2)])
      (auto simp: list_all_iff)
  from settles_maps(1) [OF this] show ?case using Typed_Map.prems by (simp add: accepted_def)
next
  case (Untyped_Map a kvs)
  then have "settles (sum_list (map (\<lambda>(k, v). instances k + instances v) kvs)) (\<lambda>_. True)
      (encode_entries (encode_object jl oor) kvs)"
    by (intro settles_entries conjI settles_mono [OF Untyped_Map.IH(1)] settles_mono [OF Untyped_Map.IH(2)])
      (auto simp: list_all_iff)
  from settles_maps(2) [OF this] show ?case by (simp add: accepted_def)
next
  case (Class_Instance a df vs)
  then have "settles (sum_list (map instances vs)) (\<lambda>_. True) (encode_each (encode_object jl oor) vs)"
    by (intro settles_each settles_mono [OF Class_Instance.IH]) (auto simp: list_all_iff)
  from settles_instance [OF this] show ?case using Class_Instance.prems by (simp add: accepted_def)
qed (use settles_string in \<open>simp_all add: accepted_def settles_values\<close>)

section \<open>Properties\<close>



text \<open>C33. A container hides the failure: a list with a string that is no text is encoded with the
  result \<open>true\<close>, but the string is missing in what was written, which no decoder accepts.\<close>

theorem encode_list_hides_refused_string:
  assumes "chars s = None"
  shows "\<exists>e'. encode_object jl oor (Untyped_List a [String_Obj s]) (new_encoder []) = (Ret True, e')
     \<and> e_out e' = [0x79] \<and> decoded (decode_object jl emp) (e_out e') = Null"
proof -
  have "decoded (decode_object jl emp) [0x79] = Null"
    by (simp add: eval_decoder eval_object)
  then show ?thesis
    by (simp add: encode_untyped_list_def register_def and_then_run encode_string_invalid [OF assms]
        new_encoder_def emit_def)
qed

theorem encode_list_hides_refused_string_witness:
  "\<exists>e'. encode_object False (\<lambda>_. 0) (Untyped_List 0 [String_Obj [0xc3]]) (new_encoder []) = (Ret True, e')
     \<and> e_out e' = [0x79] \<and> decoded (decode_object False (append_entry (\<lambda>_. 0))) (e_out e') = Null"
  by (rule encode_list_hides_refused_string) (simp add: char_length_def UTF_8_CHAR_LENGTHS_def)

end
