(* ===== verification/Custom_Type.thy ===== *)
theory Custom_Type
  imports String_Surrogates
begin

text \<open>
  Types of the user (src/hessian2/codec.hpp: \<open>decode<T>\<close>, \<open>encode<T>\<close>), and the type \<open>Person\<close> of
  src/example/custom_type.cc, which is also that of src/example/mutiple_src/custom_type.cc.
\<close>

section \<open>Types of the user\<close>

text \<open>The value that \<open>fromHessian\<close> fills in starts as the default one, and is what is returned.\<close>

definition decode_custom :: "('v \<Rightarrow> (decoder, 'v) comp) \<Rightarrow> 'v \<Rightarrow> (decoder, 'v) comp" where
  "decode_custom fromHessian default_value = fromHessian default_value"

definition encode_custom :: "('v \<Rightarrow> (encoder, bool) comp) \<Rightarrow> 'v \<Rightarrow> (encoder, bool) comp" where
  "encode_custom toHessian v = toHessian v"

text \<open>A pointer that the caller tests: a null pointer becomes \<open>None\<close>.\<close>

definition tested :: "(decoder, 'v) comp \<Rightarrow> (decoder, 'v option) comp" where
  "tested m = (\<lambda>d. case m d of
     (Ret v, d') \<Rightarrow> (Ret (Some v), d') | (Null, d') \<Rightarrow> (Ret None, d')
   | (Abort, d') \<Rightarrow> (Abort, d') | (Hang, d') \<Rightarrow> (Hang, d'))"

section \<open>Person\<close>

record person =
  p_age :: i32
  p_name :: bytes

definition default_person :: person where
  "default_person = \<lparr>p_age = 0, p_name = []\<rparr>"

definition fromHessian :: "bool \<Rightarrow> person \<Rightarrow> (decoder, person) comp" where
  "fromHessian java_lite p = and_then (tested decode_i32) (\<lambda>age.
     let p1 = (case age of Some a \<Rightarrow> p\<lparr>p_age := a\<rparr> | None \<Rightarrow> p) in
     and_then (tested (decode_string java_lite)) (\<lambda>name.
     ret (case name of Some s \<Rightarrow> p1\<lparr>p_name := s\<rparr> | None \<Rightarrow> p1)))"

definition toHessian :: "bool \<Rightarrow> person \<Rightarrow> (encoder, bool) comp" where
  "toHessian java_lite p = and_then (encode_i32 (p_age p)) (\<lambda>_.
     and_then (encode_string java_lite (p_name p)) (\<lambda>_. ret True))"

definition decode_person :: "bool \<Rightarrow> (decoder, person) comp" where
  "decode_person java_lite = decode_custom (fromHessian java_lite) default_person"

definition encode_person :: "bool \<Rightarrow> person \<Rightarrow> (encoder, bool) comp" where
  "encode_person java_lite p = encode_custom (toHessian java_lite) p"

section \<open>The codec contract\<close>

definition person_repr :: "bool \<Rightarrow> person \<Rightarrow> bytes" where
  "person_repr java_lite p = i32_repr (p_age p) @ string_repr java_lite (p_name p)"

lemma decodes_tested: "decodes m bs v \<Longrightarrow> decodes (tested m) bs (Some v)"
  by (simp add: decodes_def tested_def)

lemma decode_person_decodes:
  assumes "string_ok java_lite (p_name p)"
  shows "decodes (decode_person java_lite) (person_repr java_lite p) p"
proof -
  have "decodes (fromHessian java_lite default_person) (i32_repr (p_age p) @ string_repr java_lite (p_name p)) p"
    unfolding fromHessian_def Let_def
    by (intro decodes_and_then [OF decodes_tested [OF decode_i32_decodes]]
        decodes_then_pure [OF decodes_tested [OF decode_string_ok_decodes [OF assms]]])
      (cases p, simp add: decodes_ret default_person_def del: ret_run)
  then show ?thesis by (simp add: decode_person_def decode_custom_def person_repr_def)
qed

lemma encode_person_encodes:
  assumes "string_ok java_lite (p_name p)"
  shows "encodes (encode_person java_lite p) (person_repr java_lite p)"
  using encodesD [OF encode_i32_encodes] encodesD [OF encode_string_encodes [OF assms]]
  by (simp add: encodes_def encode_person_def encode_custom_def toHessian_def person_repr_def and_then_def)

interpretation person_codec: value_codec "encode_person java_lite" "decode_person java_lite" "person_repr java_lite"
    "\<lambda>p. string_ok java_lite (p_name p)" for java_lite
  by unfold_locales (simp_all add: encode_person_encodes decode_person_decodes)

section \<open>Properties\<close>

text \<open>A person is decoded from its encoding, whatever follows it, when the name is made of
  UTF-8 characters.\<close>

theorem person_round_trip:
  assumes "string_ok java_lite (p_name p)" and "length (encoded (encode_person java_lite p) @ rest) < 2 ^ 63"
  shows "decode_person java_lite (new_decoder (encoded (encode_person java_lite p) @ rest))
    = (Ret p, advance (length (encoded (encode_person java_lite p)))
        (new_decoder (encoded (encode_person java_lite p) @ rest)))"
  using assms by (rule person_codec.round_trip)

theorem person_round_trip_witness:
  "decoded (decode_person True) (encoded (encode_person True \<lparr>p_age = 12, p_name = [0xf0, 0x9f, 0x98, 0x80]\<rparr>))
    = Ret \<lparr>p_age = 12, p_name = [0xf0, 0x9f, 0x98, 0x80]\<rparr>"
  using person_round_trip [of True "\<lparr>p_age = 12, p_name = [0xf0, 0x9f, 0x98, 0x80]\<rparr>" "[]"]
  by (simp add: decoded_def person_codec.encoded_repr emoji_encoded person_repr_def i32_repr_def)



end
