(* ===== verification/Examples.thy ===== *)
theory Examples
  imports Custom_Type
begin

text \<open>
  The programs of src/demo and src/example: what they print. A line is the list of the values that
  a statement sends to a stream; \<open>str_format\<close> is \<open>absl::StrFormat\<close>.
\<close>

section \<open>Output\<close>

datatype item = Text string | Bytes bytes | Number int

type_synonym line = "item list"

text \<open>What a program writes to \<open>std::cout\<close> and to \<open>std::cerr\<close>, and the status it returns.\<close>

record run =
  cout :: "line list"
  cerr :: "line list"
  status :: int

type_synonym format_fn = "string \<Rightarrow> i32 \<Rightarrow> string \<Rightarrow> string"

text \<open>Decode, and print the value or the error message.\<close>

definition print_decoded ::
    "format_fn \<Rightarrow> (decoder, 'v) comp \<Rightarrow> ('v \<Rightarrow> item) \<Rightarrow> bytes \<Rightarrow> run result" where
  "print_decoded str_format dec item_of out = (case dec (new_decoder out) of
     (Ret v, d) \<Rightarrow> Ret \<lparr>cout = [[item_of v]], cerr = [], status = 0\<rparr>
   | (Null, d) \<Rightarrow> Ret \<lparr>cout = [], cerr = [[Text ''decode failed: '', Text (d_getErrorMessage str_format d)]], status = 0\<rparr>
   | (Abort, d) \<Rightarrow> Abort
   | (Hang, d) \<Rightarrow> Hang)"

text \<open>One program after the other; the status is that of the second one.\<close>

definition followed_by :: "run result \<Rightarrow> run result \<Rightarrow> run result" where
  "followed_by r r' = (case r of
     Ret a \<Rightarrow> (case r' of
         Ret b \<Rightarrow> Ret \<lparr>cout = cout a @ cout b, cerr = cerr a @ cerr b, status = status b\<rparr>
       | Null \<Rightarrow> Null | Abort \<Rightarrow> Abort | Hang \<Rightarrow> Hang)
   | Null \<Rightarrow> Null | Abort \<Rightarrow> Abort | Hang \<Rightarrow> Hang)"

text \<open>\<open>test string\<close> and \<open>test\<close>.\<close>

definition test_string :: bytes where
  "test_string = [0x74, 0x65, 0x73, 0x74, 0x20, 0x73, 0x74, 0x72, 0x69, 0x6e, 0x67]"

definition test_person :: person where
  "test_person = \<lparr>p_age = 12, p_name = [0x74, 0x65, 0x73, 0x74]\<rparr>"

section \<open>The programs\<close>

definition demo_main :: "bool \<Rightarrow> format_fn \<Rightarrow> run result" where
  "demo_main java_lite str_format =
     print_decoded str_format (decode_string java_lite) Bytes (encoded (encode_string java_lite test_string))"

definition basic_type_main :: "bool \<Rightarrow> format_fn \<Rightarrow> run result" where
  "basic_type_main java_lite str_format = followed_by
     (print_decoded str_format (decode_string java_lite) Bytes (encoded (encode_string java_lite test_string)))
     (print_decoded str_format decode_i64 (\<lambda>l. Number (sint l)) (encoded (encode_i64 100)))"

definition testBasicType :: "bool \<Rightarrow> format_fn \<Rightarrow> run result" where
  "testBasicType java_lite str_format = followed_by
     (print_decoded str_format (decode_string java_lite) Bytes (encoded (encode_string java_lite test_string)))
     (print_decoded str_format decode_i64 (\<lambda>l. Number (sint l)) (encoded (encode_i64 100)))"

definition custom_type_main :: "bool \<Rightarrow> format_fn \<Rightarrow> run result" where
  "custom_type_main java_lite str_format =
     (case decode_person java_lite (new_decoder (encoded (encode_person java_lite test_person))) of
       (Ret p, d) \<Rightarrow> Ret \<lparr>cout = [[Text ''Age: '', Number (sint (p_age p)), Text '' Name: '', Bytes (p_name p)]],
         cerr = [], status = 0\<rparr>
     | (Null, d) \<Rightarrow> Ret \<lparr>cout = [], cerr = [[Text ''hessian decode failed '', Text (d_getErrorMessage str_format d)]],
         status = - 1\<rparr>
     | (Abort, d) \<Rightarrow> Abort
     | (Hang, d) \<Rightarrow> Hang)"

definition testCustomType :: "bool \<Rightarrow> format_fn \<Rightarrow> run result" where
  "testCustomType java_lite str_format =
     (case decode_person java_lite (new_decoder (encoded (encode_person java_lite test_person))) of
       (Ret p, d) \<Rightarrow> Ret \<lparr>cout = [[Text ''Age: '', Number (sint (p_age p)), Text '' Name: '', Bytes (p_name p)]],
         cerr = [], status = 0\<rparr>
     | (Null, d) \<Rightarrow> Ret \<lparr>cout = [], cerr = [[Text ''hessian decode failed '', Text (d_getErrorMessage str_format d)]],
         status = - 1\<rparr>
     | (Abort, d) \<Rightarrow> Abort
     | (Hang, d) \<Rightarrow> Hang)"

text \<open>The statuses of the two tests are not looked at.\<close>

definition mutiple_src_main :: "bool \<Rightarrow> format_fn \<Rightarrow> run result" where
  "mutiple_src_main java_lite str_format =
     followed_by (followed_by (testBasicType java_lite str_format) (testCustomType java_lite str_format))
       (Ret \<lparr>cout = [], cerr = [], status = 0\<rparr>)"

section \<open>Property\<close>

text \<open>A codec prints back what it wrote.\<close>

lemma print_round_trip:
  assumes "decodes dec (encoded m) v" and "length (encoded m) < 2 ^ 63"
  shows "print_decoded str_format dec item_of (encoded m) = Ret \<lparr>cout = [[item_of v]], cerr = [], status = 0\<rparr>"
  using decodesD [OF assms(1), of "new_decoder (encoded m)" "[]"] assms(2)
  by (simp add: print_decoded_def)

lemma test_texts_chars:
  "chars test_string = Some (map (\<lambda>b. [b]) test_string)"
  "chars (p_name test_person) = Some (map (\<lambda>b. [b]) (p_name test_person))"
  by (simp_all add: test_string_def test_person_def char_length_def UTF_8_CHAR_LENGTHS_def)

lemma test_texts_plain:
  "\<forall>c \<in> set (map (\<lambda>b. [b]) test_string). length c \<noteq> 4 \<and> hd c \<noteq> 0xED" "length test_string < 2 ^ 32"
  "\<forall>c \<in> set (map (\<lambda>b. [b]) (p_name test_person)). length c \<noteq> 4 \<and> hd c \<noteq> 0xED"
  "length (p_name test_person) < 2 ^ 32"
  by (simp_all add: test_string_def test_person_def)

lemmas test_string_plain = plain_string [OF test_texts_chars(1) test_texts_plain(1,2)]
lemmas test_name_plain = plain_string [OF test_texts_chars(2) test_texts_plain(3,4)]

lemma test_texts_length:
  "length (string_repr java_lite test_string) < 2 ^ 63" "length (person_repr java_lite test_person) < 2 ^ 63"
  by (simp_all add: test_string_plain(2) test_name_plain(2) person_repr_def)
    (simp_all add: test_string_def test_person_def i32_repr_def split_text.simps Let_def)

lemma print_test_string:
  "print_decoded str_format (decode_string java_lite) Bytes (encoded (encode_string java_lite test_string))
    = Ret \<lparr>cout = [[Bytes test_string]], cerr = [], status = 0\<rparr>"
  using test_texts_length(1) decode_string_ok_decodes [OF test_string_plain(1)]
  by (intro print_round_trip) (simp_all add: str_codec.encoded_repr [OF test_string_plain(1)])

lemma print_test_number:
  "print_decoded str_format decode_i64 (\<lambda>l. Number (sint l)) (encoded (encode_i64 100))
    = Ret \<lparr>cout = [[Number 100]], cerr = [], status = 0\<rparr>"
proof -
  have "length (i64_repr 100) < 2 ^ 63" by (simp add: i64_repr_def)
  then show ?thesis using decode_i64_decodes [of 100]
    by (subst print_round_trip [of _ _ 100]) (simp_all add: encoded_i64)
qed

lemma decode_test_person:
  "decode_person java_lite (new_decoder (encoded (encode_person java_lite test_person)))
    = (Ret test_person, advance (length (person_repr java_lite test_person)) (new_decoder (person_repr java_lite test_person)))"
  using person_codec.round_trip [OF test_name_plain(1), where rest = "[]"] test_texts_length(2)
  by (simp add: person_codec.encoded_repr [OF test_name_plain(1)])

lemma test_person_fields: "p_age test_person = 12" "p_name test_person = [0x74, 0x65, 0x73, 0x74]"
  by (simp_all add: test_person_def)


end
