(* ===== verification/Number_Tests.thy ===== *)
theory Number_Tests
  imports Double_Codec
begin

text \<open>
  The unit tests of numbers (src/hessian2/basic_codec/number_codec_unittests.cc), as propositions
  about the model: the model passes each of them. A loop of a test is a bounded quantifier; it is
  proved from what the encoders write, not by enumeration. The tests against a Java process are in
  Java_Tests.
\<close>

section \<open>The fixture\<close>

definition decodeSucc ::
    "(decoder, 'v) comp \<Rightarrow> ('v \<Rightarrow> 'v \<Rightarrow> bool) \<Rightarrow> bytes \<Rightarrow> 'v \<Rightarrow> nat \<Rightarrow> bool" where
  "decodeSucc dec eq data out sz \<longleftrightarrow> (case dec (new_decoder data) of
     (Ret output, decoder) \<Rightarrow> eq out output \<and> sz = d_offset decoder
   | (_, decoder) \<Rightarrow> False)"

definition decodeFail :: "(decoder, 'v) comp \<Rightarrow> bytes \<Rightarrow> bool" where
  "decodeFail dec data \<longleftrightarrow> fst (dec (new_decoder data)) = Null"

definition encodeSucc ::
    "('v \<Rightarrow> (encoder, bool) comp) \<Rightarrow> (decoder, 'v) comp \<Rightarrow> ('v \<Rightarrow> 'v \<Rightarrow> bool) \<Rightarrow> 'v \<Rightarrow> nat \<Rightarrow> bytes \<Rightarrow> bool" where
  "encodeSucc enc dec eq data sz expected_data =
     (let res = e_out (snd (enc data (new_encoder []))) in
      (expected_data = [] \<or> expected_data = res) \<and> decodeSucc dec eq res data sz)"

lemma decodeSucc_decodes:
  assumes "decodes dec bs v" and "length bs < 2 ^ 63" and "eq out v" and "sz = length bs"
  shows "decodeSucc dec eq bs out sz"
  using decodesD [OF assms(1), of "new_decoder bs" "[]"] assms(2,3,4)
  by (simp add: decodeSucc_def)

lemma encodeSucc_repr:
  assumes "encoded (enc v) = bs" and "decodes dec bs v" and "length bs < 2 ^ 63" and "eq v v"
    and "sz = length bs" and "expected = [] \<or> expected = bs"
  shows "encodeSucc enc dec eq v sz expected"
  using assms decodeSucc_decodes [of dec bs v eq v sz] by (simp add: encodeSucc_def encoded_def Let_def)

section \<open>The tests\<close>

definition DecodeDouble :: "bool" where
  "DecodeDouble \<longleftrightarrow>
     decodeFail decode_double []
   \<and> decodeFail decode_double [0x5d]
   \<and> decodeFail decode_double [0x5e]
   \<and> decodeFail decode_double [0x5f]
   \<and> decodeFail decode_double [0x44]
   \<and> decodeFail decode_double [0x01]
   \<and> decodeSucc decode_double f64_eq [0x5b] 0 1
   \<and> decodeSucc decode_double f64_eq [0x5c] (f64_of_int 1) 1
   \<and> decodeSucc decode_double f64_eq [0x5d, 0x00] 0 2
   \<and> decodeSucc decode_double f64_eq [0x5d, 0x80] (f64_of_int (- 128)) 2
   \<and> decodeSucc decode_double f64_eq [0x5d, 0x7f] (f64_of_int 127) 2
   \<and> decodeSucc decode_double f64_eq [0x5e, 0x00, 0x00] 0 3
   \<and> decodeSucc decode_double f64_eq [0x5e, 0x80, 0x00] (f64_of_int (- 32768)) 3
   \<and> decodeSucc decode_double f64_eq [0x5e, 0x7f, 0xff] (f64_of_int 32767) 3
   \<and> decodeSucc decode_double f64_eq [0x5f, 0x00, 0x00, 0x00, 0x00] 0 5
   \<and> decodeSucc decode_double f64_eq [0x44, 0x40, 0x28, 0x80, 0x00, 0x00, 0x00, 0x00, 0x00] 0x4028800000000000 9"

definition EncodeDouble :: "(f64 \<Rightarrow> i32) \<Rightarrow> bool" where
  "EncodeDouble oor \<longleftrightarrow>
     encodeSucc (encode_double oor) decode_double f64_eq 0 1 [0x5b]
   \<and> encodeSucc (encode_double oor) decode_double f64_eq (f64_of_int 1) 1 [0x5c]
   \<and> (\<forall>val \<in> {- 0x80..0x7f}. val = 0 \<or> val = 1 \<or>
       encodeSucc (encode_double oor) decode_double f64_eq (f64_of_int val) 2 [])
   \<and> (\<forall>val \<in> {- 0x8000..0x7fff}. (- 0x80 \<le> val \<and> val < 0x80) \<or>
       encodeSucc (encode_double oor) decode_double f64_eq (f64_of_int val) 3 [])
   \<and> encodeSucc (encode_double oor) decode_double f64_eq 0x0010000000000000 9 [0x44, 0x00, 0x10, 0x00, 0x00, 0x00, 0x00, 0x00, 0x00]
   \<and> encodeSucc (encode_double oor) decode_double f64_eq 0x4028800000000000 9 [0x44, 0x40, 0x28, 0x80, 0x00, 0x00, 0x00, 0x00, 0x00]
   \<and> encodeSucc (encode_double oor) decode_double f64_eq 0xc029000000000000 9 [0x44, 0xc0, 0x29, 0x00, 0x00, 0x00, 0x00, 0x00, 0x00]"

definition DecodeInt32 :: "bool" where
  "DecodeInt32 \<longleftrightarrow>
     decodeFail decode_i32 []
   \<and> decodeFail decode_i32 [0xc1]
   \<and> decodeFail decode_i32 [0xd0]
   \<and> decodeFail decode_i32 [0x49]
   \<and> decodeFail decode_i32 [0x01]
   \<and> (\<forall>i \<in> {- 16..47}. decodeSucc decode_i32 (=) [word_of_int (0x90 + i)] (word_of_int i) 1)
   \<and> decodeSucc decode_i32 (=) [0x90] 0 1
   \<and> decodeSucc decode_i32 (=) [0x80] (- 16) 1
   \<and> decodeSucc decode_i32 (=) [0xbf] 47 1
   \<and> (\<forall>i \<in> {- 2048..- 17}. encodeSucc encode_i32 decode_i32 (=) (word_of_int i) 2 [])
   \<and> (\<forall>i \<in> {48..2046}. encodeSucc encode_i32 decode_i32 (=) (word_of_int i) 2 [])
   \<and> decodeSucc decode_i32 (=) [0xc8, 0x00] 0 2
   \<and> decodeSucc decode_i32 (=) [0xc0, 0x00] (- 2048) 2
   \<and> decodeSucc decode_i32 (=) [0xc7, 0x00] (- 256) 2
   \<and> decodeSucc decode_i32 (=) [0xcf, 0xff] 2047 2
   \<and> decodeSucc decode_i32 (=) [0xd4, 0x00, 0x00] 0 3
   \<and> decodeSucc decode_i32 (=) [0xd0, 0x00, 0x00] (- 262144) 3
   \<and> decodeSucc decode_i32 (=) [0xd7, 0xff, 0xff] 262143 3
   \<and> decodeSucc decode_i32 (=) [0x49, 0x00, 0x00, 0x00, 0x00] 0 5
   \<and> decodeSucc decode_i32 (=) [0x49, 0x00, 0x00, 0x01, 0x2c] 300 5"

definition EncodeInt32 :: "bool" where
  "EncodeInt32 \<longleftrightarrow>
     encodeSucc encode_i32 decode_i32 (=) 0 1 [0x90]
   \<and> encodeSucc encode_i32 decode_i32 (=) (- 16) 1 [0x80]
   \<and> encodeSucc encode_i32 decode_i32 (=) 47 1 [0xbf]
   \<and> (\<forall>i \<in> {- 16..47}. encodeSucc encode_i32 decode_i32 (=) (word_of_int i) 1 [])
   \<and> encodeSucc encode_i32 decode_i32 (=) (- 2048) 2 [0xc0, 0x00]
   \<and> encodeSucc encode_i32 decode_i32 (=) (- 256) 2 [0xc7, 0x00]
   \<and> encodeSucc encode_i32 decode_i32 (=) 2047 2 [0xcf, 0xff]
   \<and> (\<forall>i \<in> {- 2048..2047}. (- 16 \<le> i \<and> i < 48) \<or> encodeSucc encode_i32 decode_i32 (=) (word_of_int i) 2 [])
   \<and> encodeSucc encode_i32 decode_i32 (=) (- 262144) 3 [0xd0, 0x00, 0x00]
   \<and> encodeSucc encode_i32 decode_i32 (=) 262143 3 [0xd7, 0xff, 0xff]
   \<and> encodeSucc encode_i32 decode_i32 (=) 2048 3 [0xd4, 0x08, 0x00]
   \<and> (\<forall>i \<in> {- 262144..262143}. (- 2048 \<le> i \<and> i < 2048) \<or> encodeSucc encode_i32 decode_i32 (=) (word_of_int i) 3 [])
   \<and> encodeSucc encode_i32 decode_i32 (=) 0x7fffffff 5 [0x49, 0x7f, 0xff, 0xff, 0xff]
   \<and> encodeSucc encode_i32 decode_i32 (=) 0x80000000 5 [0x49, 0x80, 0x00, 0x00, 0x00]"

definition DecodeInt64 :: "bool" where
  "DecodeInt64 \<longleftrightarrow>
     decodeFail decode_i64 []
   \<and> decodeFail decode_i64 [0xf0]
   \<and> decodeFail decode_i64 [0x38]
   \<and> decodeFail decode_i64 [0x59]
   \<and> decodeFail decode_i64 [0x4c]
   \<and> decodeFail decode_i64 [0x40]
   \<and> (\<forall>i \<in> {- 8..15}. decodeSucc decode_i64 (=) [word_of_int (0xd8 + (i + 8))] (word_of_int i) 1)
   \<and> decodeSucc decode_i64 (=) [0xe0] 0 1
   \<and> decodeSucc decode_i64 (=) [0xd8] (- 8) 1
   \<and> decodeSucc decode_i64 (=) [0xef] 15 1
   \<and> decodeSucc decode_i64 (=) [0xf8, 0x00] 0 2
   \<and> decodeSucc decode_i64 (=) [0xf0, 0x00] (- 2048) 2
   \<and> decodeSucc decode_i64 (=) [0xf7, 0x00] (- 256) 2
   \<and> decodeSucc decode_i64 (=) [0xff, 0xff] 2047 2
   \<and> decodeSucc decode_i64 (=) [0x3c, 0x00, 0x00] 0 3
   \<and> decodeSucc decode_i64 (=) [0x38, 0x00, 0x00] (- 262144) 3
   \<and> decodeSucc decode_i64 (=) [0x3f, 0xff, 0xff] 262143 3
   \<and> decodeSucc decode_i64 (=) [0x59, 0x00, 0x00, 0x00, 0x00] 0 5
   \<and> decodeSucc decode_i64 (=) [0x59, 0x00, 0x00, 0x01, 0x2c] 300 5
   \<and> decodeSucc decode_i64 (=) [0x4c, 0x00, 0x00, 0x00, 0x00, 0x00, 0x00, 0x01, 0x2c] 300 9"

definition EncodeInt64 :: "bool" where
  "EncodeInt64 \<longleftrightarrow>
     encodeSucc encode_i64 decode_i64 (=) 0 1 [0xe0]
   \<and> encodeSucc encode_i64 decode_i64 (=) (- 8) 1 [0xd8]
   \<and> encodeSucc encode_i64 decode_i64 (=) 15 1 [0xef]
   \<and> (\<forall>i \<in> {- 8..15}. encodeSucc encode_i64 decode_i64 (=) (word_of_int i) 1 [])
   \<and> encodeSucc encode_i64 decode_i64 (=) (- 2048) 2 [0xf0, 0x00]
   \<and> encodeSucc encode_i64 decode_i64 (=) (- 256) 2 [0xf7, 0x00]
   \<and> encodeSucc encode_i64 decode_i64 (=) 2047 2 [0xff, 0xff]
   \<and> (\<forall>i \<in> {- 2048..2047}. (- 8 \<le> i \<and> i < 16) \<or> encodeSucc encode_i64 decode_i64 (=) (word_of_int i) 2 [])
   \<and> encodeSucc encode_i64 decode_i64 (=) (- 262144) 3 [0x38, 0x00, 0x00]
   \<and> encodeSucc encode_i64 decode_i64 (=) 262143 3 [0x3f, 0xff, 0xff]
   \<and> encodeSucc encode_i64 decode_i64 (=) 2048 3 [0x3c, 0x08, 0x00]
   \<and> (\<forall>i \<in> {- 262144..262143}. (- 2048 \<le> i \<and> i < 2048) \<or> encodeSucc encode_i64 decode_i64 (=) (word_of_int i) 3 [])
   \<and> encodeSucc encode_i64 decode_i64 (=) 0x7fffffff 5 [0x59, 0x7f, 0xff, 0xff, 0xff]
   \<and> encodeSucc encode_i64 decode_i64 (=) (- 0x80000000) 5 [0x59, 0x80, 0x00, 0x00, 0x00]
   \<and> encodeSucc encode_i64 decode_i64 (=) 0x7fffffffffffffff 9 [0x4c, 0x7f, 0xff, 0xff, 0xff, 0xff, 0xff, 0xff, 0xff]
   \<and> encodeSucc encode_i64 decode_i64 (=) 0x8000000000000000 9 [0x4c, 0x80, 0x00, 0x00, 0x00, 0x00, 0x00, 0x00, 0x00]"

section \<open>The tests pass\<close>

lemma encodeSucc_i32:
  "sz = length (i32_repr v) \<Longrightarrow> expected = [] \<or> expected = i32_repr v \<Longrightarrow>
    encodeSucc encode_i32 decode_i32 (=) v sz expected"
  by (rule encodeSucc_repr [OF encoded_i32 decode_i32_decodes]) (simp_all add: i32_repr_def Let_def)

lemma encodeSucc_i64:
  "sz = length (i64_repr v) \<Longrightarrow> expected = [] \<or> expected = i64_repr v \<Longrightarrow>
    encodeSucc encode_i64 decode_i64 (=) v sz expected"
  by (rule encodeSucc_repr [OF encoded_i64 decode_i64_decodes]) (simp_all add: i64_repr_def Let_def)

lemma encodeSucc_double:
  "\<not> f64_is_nan v \<Longrightarrow> v \<noteq> f64_neg_zero \<Longrightarrow> sz = length (double_repr oor v) \<Longrightarrow>
    expected = [] \<or> expected = double_repr oor v \<Longrightarrow>
    encodeSucc (encode_double oor) decode_double f64_eq v sz expected"
  by (rule encodeSucc_repr [OF encoded_double decode_double_decodes])
    (simp_all add: double_repr_def Let_def f64_eq_def)

lemma sint_small: "- 2147483648 \<le> i \<Longrightarrow> i < 2147483648 \<Longrightarrow> sint (word_of_int i :: i32) = i"
  "- 2147483648 \<le> i \<Longrightarrow> i < 2147483648 \<Longrightarrow> sint (word_of_int i :: i64) = i"
  by (rule sint_of_int_in_range; simp)+

lemmas eval_number = and_then_run dec_readBE_run dec_peek_u8_run dec_read_u8_run be_val_def
  decodeSucc_def decodeFail_def Let_def

lemma be_bytes_numeral: "be_bytes (numeral n) x = rev (le_bytes (numeral n) x)"
  by (simp add: be_bytes_def)

lemma one_byte_i32:
  assumes "- 16 \<le> i" and "i \<le> 47"
  shows "decodeSucc decode_i32 (=) [word_of_int (0x90 + i)] (word_of_int i) 1"
proof -
  have "i32_repr (word_of_int i) = [word_of_int (0x90 + i)]"
    using assms by (simp add: i32_repr_def Let_def sint_small add.commute)
  then show ?thesis
    using decodeSucc_decodes [OF decode_i32_decodes, of "word_of_int i" "(=)" "word_of_int i" 1] by simp
qed

lemma DecodeInt32_passes: DecodeInt32
  unfolding DecodeInt32_def
  by (intro conjI ballI encodeSucc_i32 one_byte_i32)
    (simp_all add: decode_i32_def eval_number one_byte_i32 word_le_nat_alt [of _ 1] left_shift_def i32_repr_def sint_small)

lemma EncodeInt32_passes: EncodeInt32
  unfolding EncodeInt32_def
  by (intro conjI ballI encodeSucc_i32)
    (auto simp: i32_repr_def Let_def sint_small be_bytes_numeral le_bytes_numeral
      intro!: encodeSucc_i32 split: if_splits)

lemma one_byte_i64:
  assumes "- 8 \<le> i" and "i \<le> 15"
  shows "decodeSucc decode_i64 (=) [word_of_int (0xd8 + (i + 8))] (word_of_int i) 1"
proof -
  have "i64_repr (word_of_int i) = [word_of_int (0xd8 + (i + 8))]"
    using assms by (simp add: i64_repr_def Let_def sint_small add.commute)
  then show ?thesis
    using decodeSucc_decodes [OF decode_i64_decodes, of "word_of_int i" "(=)" "word_of_int i" 1] by simp
qed

lemma DecodeInt64_passes: DecodeInt64
  unfolding DecodeInt64_def
  by (intro conjI ballI encodeSucc_i64 one_byte_i64)
    (simp_all add: decode_i64_def eval_number word_le_nat_alt [of _ 1] left_shift_def i64_repr_def sint_small)

lemma EncodeInt64_passes: EncodeInt64
  unfolding EncodeInt64_def
  by (intro conjI ballI encodeSucc_i64)
    (auto simp: i64_repr_def Let_def sint_small be_bytes_numeral le_bytes_numeral
      intro!: encodeSucc_i64 split: if_splits)

lemmas eval_double = f64_eq_def f64_is_nan_def f64_is_zero_def f64_exp_def f64_frac_def

lemma DecodeDouble_passes: DecodeDouble
  unfolding DecodeDouble_def
  by (intro conjI)
    (simp_all add: decode_double_def eval_number word_le_nat_alt [of _ 1] readBE_double4_def readBE_double8_def
      f64_mul_001_def f64_of_int_def mk_f64_def eval_double)

lemma encodeSucc_int_double:
  assumes "- 0x8000 \<le> x" and "x \<le> 0x7fff"
    and "n = (if x = 0 \<or> x = 1 then 1 else if - 128 \<le> x \<and> x \<le> 127 then 2 else 3)"
  shows "encodeSucc (encode_double oor) decode_double f64_eq (f64_of_int x) n []"
  using assms double_compact_length [of x oor] f64_of_int_not_nan [of x] f64_of_int_not_neg_zero [of x]
  by (intro encodeSucc_double) (simp_all add: encoded_double)

lemma ilog2_eval:
  "ilog2 0 = 0" "ilog2 1 = 0" "ilog2 (Suc 0) = 0" "ilog2 (numeral (Num.Bit0 n)) = Suc (ilog2 (numeral n))"
  "ilog2 (numeral (Num.Bit1 n)) = Suc (ilog2 (numeral n))"
  by (subst ilog2.simps; simp)+

lemmas eval_double_repr = double_repr_def be_bytes_numeral le_bytes_numeral f64_of_int_def mk_f64_def
  f64_to_i32_def f64_trunc_def f64_neg_zero_def f64_sign_def ilog2_eval Let_def eval_double

lemma EncodeDouble_passes: "EncodeDouble oor"
  unfolding EncodeDouble_def
proof (intro conjI ballI)
  fix val :: int
  show "val = 0 \<or> val = 1 \<or> encodeSucc (encode_double oor) decode_double f64_eq (f64_of_int val) 2 []"
    if "val \<in> {- 0x80..0x7f}"
    using that encodeSucc_int_double [of val 2] by (cases "val = 0 \<or> val = 1") auto
  show "(- 0x80 \<le> val \<and> val < 0x80) \<or> encodeSucc (encode_double oor) decode_double f64_eq (f64_of_int val) 3 []"
    if "val \<in> {- 0x8000..0x7fff}"
    using that encodeSucc_int_double [of val 3]
    by (cases "- 0x80 \<le> val \<and> val < 0x80") auto

  show "encodeSucc (encode_double oor) decode_double f64_eq 0 1 [0x5b]"
    by (rule encodeSucc_double; simp add: eval_double_repr)
  show "encodeSucc (encode_double oor) decode_double f64_eq (f64_of_int 1) 1 [0x5c]"
    by (rule encodeSucc_double; simp add: eval_double_repr)
  show "encodeSucc (encode_double oor) decode_double f64_eq 0x0010000000000000 9
      [0x44, 0x00, 0x10, 0x00, 0x00, 0x00, 0x00, 0x00, 0x00]"
    by (rule encodeSucc_double; simp add: eval_double_repr)
  show "encodeSucc (encode_double oor) decode_double f64_eq 0x4028800000000000 9
      [0x44, 0x40, 0x28, 0x80, 0x00, 0x00, 0x00, 0x00, 0x00]"
    by (rule encodeSucc_double; simp add: eval_double_repr)
  show "encodeSucc (encode_double oor) decode_double f64_eq 0xc029000000000000 9
      [0x44, 0xc0, 0x29, 0x00, 0x00, 0x00, 0x00, 0x00, 0x00]"
    by (rule encodeSucc_double; simp add: eval_double_repr)
qed

section \<open>The tests pass\<close>

text \<open>The model passes the unit tests of numbers: the decoding and the encoding of \<open>double\<close>,
  \<open>int32_t\<close> and \<open>int64_t\<close> on every input, valid or not, that number_codec_unittests.cc tries, the
  loops over all values of a length included.\<close>

lemma number_tests_pass:
  "DecodeDouble \<and> EncodeDouble oor \<and> DecodeInt32 \<and> EncodeInt32 \<and> DecodeInt64 \<and> EncodeInt64"
  by (intro conjI DecodeDouble_passes EncodeDouble_passes DecodeInt32_passes EncodeInt32_passes
      DecodeInt64_passes EncodeInt64_passes)

end
