(* ===== verification/Object_Tests.thy ===== *)
theory Object_Tests
  imports Object_Evaluation Number_Tests
begin

text \<open>
  The unit tests of objects (src/hessian2/basic_codec/object_codec_unittests.cc), as propositions
  about the model, with the fixture of Number_Tests. Objects are compared with their own equality,
  so the addresses in an expected object do not matter. The model passes each of them, whatever the
  hash functions are; insertion into a map appends.
\<close>

section \<open>The tests\<close>

text \<open>The objects that several tests share.\<close>

definition int_list :: "obj list" where
  "int_list = [Integer_Obj 0, Integer_Obj 1]"

definition string_map :: "(obj \<times> obj) list" where
  "string_map = [(String_Obj (ascii ''color''), String_Obj (ascii ''hello''))]"

definition car_def :: raw_definition where
  "car_def = \<lparr>def_type = ascii ''hello'', field_names = [ascii ''color'', ascii ''model'']\<rparr>"

definition car :: obj where
  "car = Class_Instance 0 car_def [String_Obj (ascii ''green''), String_Obj (ascii ''civic'')]"

definition car_bytes :: bytes where
  "car_bytes = [0x43, 0x05] @ ascii ''hello'' @ [0x92, 0x05] @ ascii ''color'' @ [0x05] @ ascii ''model''
     @ [0x60, 0x05] @ ascii ''green'' @ [0x05] @ ascii ''civic''"

definition ObjectDecode :: "bool \<Rightarrow> (obj \<Rightarrow> u64) \<Rightarrow> bool" where
  "ObjectDecode java_lite hsh \<longleftrightarrow>
     decodeFail (decode_object java_lite (append_entry hsh)) []
   \<and> decodeSucc (decode_object java_lite (append_entry hsh)) (obj_equal hsh) [0x4e] Null_Obj 1
   \<and> decodeSucc (decode_object java_lite (append_entry hsh)) (obj_equal hsh) ([0x53, 0x00, 0x05] @ ascii ''hello'') (String_Obj (ascii ''hello'')) 8
   \<and> decodeSucc (decode_object java_lite (append_entry hsh)) (obj_equal hsh) [0x23, 0x01, 0x02, 0x03] (Binary_Obj [1, 2, 3]) 4
   \<and> decodeSucc (decode_object java_lite (append_entry hsh)) (obj_equal hsh) [0x54] (Boolean_Obj True) 1
   \<and> decodeSucc (decode_object java_lite (append_entry hsh)) (obj_equal hsh) [0x46] (Boolean_Obj False) 1
   \<and> decodeSucc (decode_object java_lite (append_entry hsh)) (obj_equal hsh) [0x49, 0x00, 0x00, 0x01, 0x2c] (Integer_Obj 300) 5
   \<and> decodeSucc (decode_object java_lite (append_entry hsh)) (obj_equal hsh) [0x59, 0x00, 0x00, 0x01, 0x2c] (Long_Obj 300) 5
   \<and> decodeSucc (decode_object java_lite (append_entry hsh)) (obj_equal hsh) [0x4c, 0x00, 0x00, 0x00, 0x00, 0x00, 0x00, 0x01, 0x2c] (Long_Obj 300) 9
   \<and> decodeSucc (decode_object java_lite (append_entry hsh)) (obj_equal hsh) [0x4b, 0x00, 0x00, 0x00, 0x00] (Date_Obj 0) 5
   \<and> decodeSucc (decode_object java_lite (append_entry hsh)) (obj_equal hsh) [0x5d, 0x7f] (Double_Obj (f64_of_int 127)) 2
   \<and> decodeSucc (decode_object java_lite (append_entry hsh)) (obj_equal hsh) ([0x56, 0x04] @ ascii ''[int'' @ [0x92, 0x90, 0x91]) (Typed_List 0 (ascii ''[int'') int_list) 9
   \<and> decodeSucc (decode_object java_lite (append_entry hsh)) (obj_equal hsh) [0x57, 0x90, 0x91, 0x5a] (Untyped_List 0 int_list) 4
   \<and> decodeSucc (decode_object java_lite (append_entry hsh)) (obj_equal hsh) ([0x4d, 0x03] @ ascii ''com'' @ [0x05] @ ascii ''color'' @ [0x05] @ ascii ''hello'' @ [0x5a]) (Typed_Map 0 (ascii ''com'') string_map) 18
   \<and> decodeSucc (decode_object java_lite (append_entry hsh)) (obj_equal hsh) ([0x48, 0x05] @ ascii ''color'' @ [0x05] @ ascii ''hello'' @ [0x5a]) (Untyped_Map 0 string_map) 14
   \<and> decodeSucc (decode_object java_lite (append_entry hsh)) (obj_equal hsh) car_bytes car 33"

definition ObjectEncode :: "bool \<Rightarrow> (obj \<Rightarrow> u64) \<Rightarrow> (f64 \<Rightarrow> i32) \<Rightarrow> bool" where
  "ObjectEncode java_lite hsh oor \<longleftrightarrow>
     encodeSucc (encode_object java_lite oor) (decode_object java_lite (append_entry hsh)) (obj_equal hsh) (String_Obj (ascii ''hello'')) 6
       ([0x05] @ ascii ''hello'')
   \<and> encodeSucc (encode_object java_lite oor) (decode_object java_lite (append_entry hsh)) (obj_equal hsh) (Binary_Obj [1, 2, 3]) 4
       [0x23, 0x01, 0x02, 0x03]
   \<and> encodeSucc (encode_object java_lite oor) (decode_object java_lite (append_entry hsh)) (obj_equal hsh) (Boolean_Obj False) 1
       [0x46]
   \<and> encodeSucc (encode_object java_lite oor) (decode_object java_lite (append_entry hsh)) (obj_equal hsh) (Integer_Obj 2047) 2
       [0xcf, 0xff]
   \<and> encodeSucc (encode_object java_lite oor) (decode_object java_lite (append_entry hsh)) (obj_equal hsh) (Long_Obj 2047) 2
       [0xff, 0xff]
   \<and> encodeSucc (encode_object java_lite oor) (decode_object java_lite (append_entry hsh)) (obj_equal hsh) (Date_Obj 0) 5
       [0x4b, 0x00, 0x00, 0x00, 0x00]
   \<and> encodeSucc (encode_object java_lite oor) (decode_object java_lite (append_entry hsh)) (obj_equal hsh) (Double_Obj (f64_of_int 127)) 2
       [0x5d, 0x7f]
   \<and> encodeSucc (encode_object java_lite oor) (decode_object java_lite (append_entry hsh)) (obj_equal hsh) (Typed_List 0 (ascii ''[int'') int_list) 8
       ([0x72, 0x04] @ ascii ''[int'' @ [0x90, 0x91])
   \<and> encodeSucc (encode_object java_lite oor) (decode_object java_lite (append_entry hsh)) (obj_equal hsh) (Untyped_List 0 int_list) 3
       [0x7a, 0x90, 0x91]
   \<and> encodeSucc (encode_object java_lite oor) (decode_object java_lite (append_entry hsh)) (obj_equal hsh) (Typed_Map 0 (ascii ''com'') string_map) 18
       ([0x4d, 0x03] @ ascii ''com'' @ [0x05] @ ascii ''color'' @ [0x05] @ ascii ''hello'' @ [0x5a])
   \<and> encodeSucc (encode_object java_lite oor) (decode_object java_lite (append_entry hsh)) (obj_equal hsh) (Untyped_Map 0 string_map) 14
       ([0x48, 0x05] @ ascii ''color'' @ [0x05] @ ascii ''hello'' @ [0x5a])
   \<and> encodeSucc (encode_object java_lite oor) (decode_object java_lite (append_entry hsh)) (obj_equal hsh) car 33
       car_bytes"

section \<open>The tests pass\<close>

lemma le_one_byte: "numeral n \<le> (1::u8) \<longleftrightarrow> unat (numeral n :: u8) \<le> 1"
  by (simp add: word_le_nat_alt)

lemmas finalReadUtf8String_numeral =
  finalReadUtf8String.simps(2) [of "pred_numeral n" for n, folded numeral_eq_Suc]

lemmas decode_field_names_numeral =
  decode_field_names.simps(2) [of _ "pred_numeral n" for n, folded numeral_eq_Suc]

lemmas eval_test = eval_decoder eval_object eval_string decode_bool_def decode_i64_def decode_double_def
  decode_milliseconds_def readDate_def decode_bytes_def readBytes_def decodeSucc_def decodeFail_def le_one_byte
  int_list_def string_map_def car_def_def car_def car_bytes_def ascii_def finalReadUtf8String_numeral
  decode_field_names_numeral left_shift_def string_code_def append_entry_def map_find_def entries_found_def duration_cast_def
  f64_of_int_def mk_f64_def ilog2_eval eval_double

lemma ObjectDecode_passes: "ObjectDecode java_lite hsh"
  unfolding ObjectDecode_def by (intro conjI; simp add: eval_test)

lemma new_encoder_tables [simp]:
  "e_types (new_encoder bs) = []" "e_defs (new_encoder bs) = []" "e_values (new_encoder bs) = []"
  "e_out (new_encoder bs) = bs"
  by (simp_all add: new_encoder_def)

lemma encode_def_fuel_numeral:
  "encode_def_fuel java_lite 2 df = encode_def_fuel java_lite (Suc 1) df"
  "encode_def_fuel java_lite 1 df = encode_def_fuel java_lite (Suc 0) df"
  by (simp_all add: numeral_2_eq_2)

lemma be_bytes_one: "be_bytes (Suc 0) x = [of_nat (x mod 256)]"
  by (simp add: be_bytes_def)

lemmas eval_encode = and_then_run Let_def encode_string_def encode_string_view_def encode_bytes_def
  encode_bool_def encode_i32_def encode_i64_def encode_milliseconds_def encode_minutes_def writeDate_def
  encode_double_def ascii_def int_list_def string_map_def car_def car_def_def car_bytes_def
  getUtf8StringLengthAndPerChunkOffsets_def char_length_def UTF_8_CHAR_LENGTHS_def STRING_CHUNK_SIZE_def
  write_string_tail_def encode_typed_list_def encode_untyped_list_def encode_typed_map_def
  encode_untyped_map_def encode_class_instance_def register_def encode_type_ref_def
  encode_raw_definition_def getTypeRef_def getDefRef_def encode_def_fuel_numeral be_bytes_one
  f64_to_i32_def f64_trunc_def f64_of_int_def mk_f64_def ilog2_eval eval_double f64_sign_def
  duration_cast_def tdiv_def be_bytes_numeral le_bytes_numeral

lemma encodeSucc_by_bytes:
  "e_out (snd (enc p (new_encoder []))) = bs \<Longrightarrow> decodeSucc dec eq bs p n \<Longrightarrow> encodeSucc enc dec eq p n bs"
  by (simp add: encodeSucc_def)

lemma ObjectEncode_passes: "ObjectEncode java_lite hsh oor"
  unfolding ObjectEncode_def
  by (intro conjI encodeSucc_by_bytes; (simp add: eval_encode; fail | simp add: eval_test))

section \<open>The tests pass\<close>

text \<open>The model passes the unit tests of objects: one object of each class is decoded from and
  encoded to the bytes that object_codec_unittests.cc gives, consuming all of them, and compares
  equal to the expected object.\<close>

lemma object_tests_pass: "ObjectDecode java_lite hsh \<and> ObjectEncode java_lite hsh oor"
  by (intro conjI ObjectDecode_passes ObjectEncode_passes)

end
