(* ===== verification/Codec_Tests.thy ===== *)
theory Codec_Tests
  imports Object_Tests
begin

text \<open>
  The unit tests of the codecs of single types (bool_codec_unittests.cc, byte_codec_unittests.cc,
  date_codec_unittests.cc, string_codec_unittests.cc, type_ref_codec_unittests.cc,
  def_ref_codec_unittests.cc, list_codec_unittests.cc and class_instance_codec_unittests.cc under
  src/hessian2/basic_codec), as propositions about the model, with the fixture of Number_Tests. The
  tests against a Java process are in Java_Tests.
\<close>

section \<open>Booleans, binary data and dates\<close>

definition BoolDecode :: bool where
  "BoolDecode \<longleftrightarrow>
     decodeFail decode_bool [0x01]
   \<and> decodeFail decode_bool [0x00]
   \<and> decodeSucc decode_bool (=) (ascii ''F'') False 1
   \<and> decodeSucc decode_bool (=) (ascii ''T'') True 1
   \<and> decodeSucc decode_bool (=) (ascii ''FT'') False 1"

definition BoolEncode :: bool where
  "BoolEncode \<longleftrightarrow>
     encodeSucc encode_bool decode_bool (=) True 1 (ascii ''T'')
   \<and> encodeSucc encode_bool decode_bool (=) False 1 (ascii ''F'')"

definition t_bytes :: "nat \<Rightarrow> bytes" where
  "t_bytes n = replicate n 0x74"

definition ByteDecode :: bool where
  "ByteDecode \<longleftrightarrow>
     decodeFail decode_bytes []
   \<and> decodeFail decode_bytes [0x41]
   \<and> decodeFail decode_bytes [0x42]
   \<and> decodeFail decode_bytes [0x19]
   \<and> (\<forall>i \<in> {0x21..0xef}. decodeFail decode_bytes [of_nat i])
   \<and> (\<forall>i \<in> {0x34..0x37}. decodeFail decode_bytes [of_nat i])
   \<and> decodeSucc decode_bytes (=) [0x20] [] 1
   \<and> decodeSucc decode_bytes (=) [0x23, 0x01, 0x02, 0x03] [1, 2, 3] 4
   \<and> decodeSucc decode_bytes (=) ([0x37, 0x10] @ t_bytes 784) (t_bytes 784) 786
   \<and> decodeSucc decode_bytes (=) ([0x37, 0xFF] @ t_bytes 1023) (t_bytes 1023) 1025
   \<and> decodeSucc decode_bytes (=) ([0x42, 0x10, 0x00] @ t_bytes 4096) (t_bytes 4096) 4099"

definition ByteEncode :: bool where
  "ByteEncode \<longleftrightarrow>
     encodeSucc encode_bytes decode_bytes (=) [0x01, 0x02, 0x03] 4 [0x23, 0x01, 0x02, 0x03]
   \<and> encodeSucc encode_bytes decode_bytes (=) (t_bytes 784) 786 ([0x37, 0x10] @ t_bytes 784)"

text \<open>\<open>expectedEncode\<close>: encoding and decoding give the same value.\<close>

definition expectedEncode :: "('v \<Rightarrow> (encoder, bool) comp) \<Rightarrow> (decoder, 'v) comp \<Rightarrow> 'v \<Rightarrow> bool" where
  "expectedEncode enc dec data \<longleftrightarrow>
     (case fst (dec (new_decoder (e_out (snd (enc data (new_encoder [])))))) of
       Ret v \<Rightarrow> v = data | _ \<Rightarrow> False)"

definition DateDecode :: bool where
  "DateDecode \<longleftrightarrow>
     expectedEncode encode_milliseconds decode_milliseconds 894621091000
   \<and> expectedEncode encode_seconds decode_seconds 894621091
   \<and> expectedEncode encode_hours decode_hours 89462
   \<and> decodeFail decode_milliseconds [0x4a, 0x00, 0x00, 0x00]
   \<and> decodeFail decode_milliseconds [0x4b, 0x00, 0x00, 0x00]"

section \<open>References to types and definitions, containers\<close>

definition hello_color :: raw_definition where
  "hello_color = \<lparr>def_type = ascii ''hello'', field_names = [ascii ''color'', ascii ''model'']\<rparr>"

text \<open>A sequence of calls of one decoder: each result, with the size of a table after the call.\<close>

fun decodes_in_order :: "(decoder, 'v) comp \<Rightarrow> (decoder \<Rightarrow> nat) \<Rightarrow> ('v option \<times> nat) list \<Rightarrow> decoder \<Rightarrow> bool" where
  "decodes_in_order dec tbl [] d \<longleftrightarrow> True"
| "decodes_in_order dec tbl ((out, n) # outs) d \<longleftrightarrow> (case dec d of (r, d') \<Rightarrow>
     (case out of None \<Rightarrow> r = Null | Some v \<Rightarrow> r = Ret v \<and> tbl d' = n) \<and> decodes_in_order dec tbl outs d')"

definition TypeRefDecode :: "bool \<Rightarrow> bool" where
  "TypeRefDecode java_lite \<longleftrightarrow>
     decodes_in_order (decode_type_ref java_lite) (\<lambda>d. length (d_types d)) [(Some (ascii ''hello''), 1)]
       (new_decoder ([0x53, 0x00, 0x05] @ ascii ''hello''))
   \<and> decodes_in_order (decode_type_ref java_lite) (\<lambda>d. length (d_types d))
       [(Some (ascii ''hello''), 1), (Some (ascii ''hello''), 1)]
       (new_decoder ([0x53, 0x00, 0x05] @ ascii ''hello'' @ [0x90]))"

definition TypeRefEncode :: "bool \<Rightarrow> bool" where
  "TypeRefEncode java_lite \<longleftrightarrow>
     (let e1 = snd (encode_type_ref java_lite (ascii ''hello'') (new_encoder []));
          e2 = snd (encode_type_ref java_lite (ascii ''hello'') e1)
      in e_out e2 = [0x05] @ ascii ''hello'' @ [0x90] \<and> length (e_types e2) = 1)"

definition DefinitionInsufficientData :: "bool \<Rightarrow> bool" where
  "DefinitionInsufficientData java_lite \<longleftrightarrow>
     decodeFail (decode_definition java_lite) []
   \<and> decodeFail (decode_definition java_lite) (ascii ''C'')
   \<and> decodeFail (decode_definition java_lite) (ascii ''C'' @ [0x05] @ ascii ''he'')"

definition DefRefDecode :: "bool \<Rightarrow> bool" where
  "DefRefDecode java_lite \<longleftrightarrow>
     decodes_in_order (decode_definition java_lite) (\<lambda>d. length (d_defs d))
       [(Some hello_color, 1), (Some hello_color, 1), (Some hello_color, 1), (None, 1)]
       (new_decoder (ascii ''C'' @ [0x05] @ ascii ''hello'' @ [0x92, 0x05] @ ascii ''color'' @ [0x05]
          @ ascii ''model'' @ ascii ''O'' @ [0x90, 0x60, 0x61]))"

definition DefRefEncode :: "bool \<Rightarrow> bool" where
  "DefRefEncode java_lite \<longleftrightarrow>
     (let e = snd (encode_raw_definition java_lite hello_color (new_encoder []))
      in length (e_defs e) = 1
         \<and> e_out e = ascii ''C'' @ [0x05] @ ascii ''hello'' @ [0x92, 0x05] @ ascii ''color'' @ [0x05]
             @ ascii ''model'' @ [0x60])"

text \<open>\<open>decode<TypedListObject>\<close> and the others, called on a new decoder.\<close>

definition top_typed_list :: "bool \<Rightarrow> emplace_fn \<Rightarrow> (decoder, obj) comp" where
  "top_typed_list java_lite emp = and_then dec_byte_available (\<lambda>n.
     decode_typed_list java_lite (decode_object_fuel java_lite emp (Suc n)) (Suc n))"

definition top_untyped_list :: "bool \<Rightarrow> emplace_fn \<Rightarrow> (decoder, obj) comp" where
  "top_untyped_list java_lite emp = and_then dec_byte_available (\<lambda>n.
     decode_untyped_list (decode_object_fuel java_lite emp (Suc n)) (Suc n))"

definition top_class_instance :: "bool \<Rightarrow> emplace_fn \<Rightarrow> (decoder, obj) comp" where
  "top_class_instance java_lite emp = and_then dec_byte_available (\<lambda>n.
     decode_class_instance java_lite (decode_object_fuel java_lite emp (Suc n)))"

definition ListInsufficientData :: "bool \<Rightarrow> emplace_fn \<Rightarrow> bool" where
  "ListInsufficientData java_lite emp \<longleftrightarrow>
     decodeFail (top_typed_list java_lite emp) []
   \<and> decodeFail (top_untyped_list java_lite emp) []
   \<and> decodeFail (top_typed_list java_lite emp) [0x55, 0x00]
   \<and> decodeFail (top_typed_list java_lite emp) [0x55, 0x20, 0x08]"

definition InstanceInsufficientData :: "bool \<Rightarrow> emplace_fn \<Rightarrow> bool" where
  "InstanceInsufficientData java_lite emp \<longleftrightarrow>
     decodeFail (top_class_instance java_lite emp) []
   \<and> decodeFail (top_class_instance java_lite emp) (ascii ''C'')
   \<and> decodeFail (top_class_instance java_lite emp) (ascii ''CD'')
   \<and> decodeFail (top_class_instance java_lite emp) (ascii ''D'')"

section \<open>These tests pass\<close>

lemma bool_tests: BoolDecode BoolEncode
proof -
  show BoolDecode by (simp add: BoolDecode_def eval_test set_error_def)
  show BoolEncode by (simp add: BoolEncode_def encodeSucc_def eval_test encode_bool_def)
qed

lemma single_byte_fails:
  assumes "i \<noteq> 0x20" and "i < 256"
  shows "decodeFail decode_bytes [of_nat i]"
proof -
  have "unat (of_nat i :: u8) = i" using assms(2) by (simp add: unat_of_nat)
  then show ?thesis using assms(1)
    by (simp add: decodeFail_def decode_bytes_def and_then_run dec_byte_available_run dec_read_u8_run Let_def
        readBytes_def dec_readBE_run byte_compare)
qed

lemma byte_numerals: "(784 :: u8) = 0x10" "(1023 :: u8) = 0xFF"
  by simp_all

lemma t_bytes_blocks:
  "decodeSucc decode_bytes (=) ([0x37, 0x10] @ t_bytes 784) (t_bytes 784) 786"
  "decodeSucc decode_bytes (=) ([0x37, 0xFF] @ t_bytes 1023) (t_bytes 1023) 1025"
  "decodeSucc decode_bytes (=) ([0x42, 0x10, 0x00] @ t_bytes 4096) (t_bytes 4096) 4099"
  using decode_bytes_decodes [of "Medium_Block (t_bytes 784)"] decode_bytes_decodes [of "Medium_Block (t_bytes 1023)"]
    decode_bytes_decodes [of "Final_Chunk (t_bytes 4096)"]
  by (auto intro!: decodeSucc_decodes simp: t_bytes_def be_bytes_def byte_numerals)

lemma byte_tests: ByteDecode ByteEncode
proof -
  have "decodeFail decode_bytes []" "decodeFail decode_bytes [0x41]" "decodeFail decode_bytes [0x42]"
    "decodeFail decode_bytes [0x19]" "decodeSucc decode_bytes (=) [0x20] [] 1"
    "decodeSucc decode_bytes (=) [0x23, 0x01, 0x02, 0x03] [1, 2, 3] 4"
    by (simp_all add: eval_test)
  then show ByteDecode using single_byte_fails t_bytes_blocks by (simp add: ByteDecode_def)
  have "binary_text (binary_of [1, 2, 3]) = [0x23, 0x01, 0x02, 0x03]"
    "binary_text (binary_of (t_bytes 784)) = [0x37, 0x10] @ t_bytes 784"
    by (simp_all add: binary_of_def t_bytes_def byte_numerals)
  then show ByteEncode
    unfolding ByteEncode_def
    by (intro conjI encodeSucc_repr [OF bytes_codec.encoded_repr bytes_codec.dec_repr]) (simp_all add: t_bytes_def)
qed

lemma expectedEncode_codec:
  assumes "encoded (enc v) = bs" and "decodes dec bs v" and "length bs < 2 ^ 63"
  shows "expectedEncode enc dec v"
  using assms decodesD [OF assms(2), of "new_decoder bs" "[]"] by (simp add: expectedEncode_def encoded_def)

lemma date_tests: DateDecode
proof -
  have len: "length (date_repr n) < 2 ^ 63" for n by (simp add: date_repr_def)
  show ?thesis unfolding DateDecode_def
  proof (intro conjI)
    show "expectedEncode encode_milliseconds decode_milliseconds 894621091000"
      by (rule expectedEncode_codec [OF ms_codec.encoded_repr ms_codec.dec_repr len]) (simp_all add: date_ok_def)
    show "expectedEncode encode_seconds decode_seconds 894621091"
      by (rule expectedEncode_codec [OF s_codec.encoded_repr s_codec.dec_repr len]) (simp_all add: date_ok_def)
    show "expectedEncode encode_hours decode_hours 89462"
      by (rule expectedEncode_codec [OF h_codec.encoded_repr h_codec.dec_repr len]) (simp_all add: date_ok_def)
  qed (simp_all add: eval_test)
qed

lemma type_ref_tests: "TypeRefDecode java_lite" "TypeRefEncode java_lite"
  by (simp_all add: TypeRefDecode_def TypeRefEncode_def eval_test eval_encode emplace_def)

lemma definition_tests: "DefinitionInsufficientData java_lite" "DefRefDecode java_lite" "DefRefEncode java_lite"
  by (simp_all add: DefinitionInsufficientData_def DefRefDecode_def DefRefEncode_def hello_color_def eval_test eval_encode emplace_def)

lemma insufficient_containers: "ListInsufficientData java_lite emp" "InstanceInsufficientData java_lite emp"
  by (simp_all add: ListInsufficientData_def InstanceInsufficientData_def top_typed_list_def top_untyped_list_def
      top_class_instance_def eval_test)

end
