(* ===== verification/String_Tests.thy ===== *)
theory String_Tests
  imports Codec_Tests
begin

text \<open>
  The unit tests of strings (src/hessian2/basic_codec/string_codec_unittests.cc), as propositions about
  the model, with and without the compatibility flag. The long strings of the tests are not
  evaluated: that they survive follows from the contract of the codec.
\<close>

section \<open>The strings of the tests\<close>

fun decimal :: "nat \<Rightarrow> bytes" where
  "decimal n = (if n < 10 then [of_nat (0x30 + n)] else decimal (n div 10) @ [of_nat (0x30 + n mod 10)])"

declare decimal.simps [simp del]

definition resize :: "nat \<Rightarrow> bytes \<Rightarrow> bytes" where
  "resize n s = take n s @ replicate (n - length s) 0"

definition GenerateString131072 :: bytes where
  "GenerateString131072 = resize 131072 (concat (map (\<lambda>i.
     decimal (i div 100) @ decimal (i div 10 mod 10) @ decimal (i mod 10)
     @ ascii '' 56789012345678901234567890123456789012345678901234567890123'' @ [10]) [0..<3072]))"

text \<open>A code point in four bytes, as the test builds it.\<close>

definition emoji_utf8 :: "u32 \<Rightarrow> bytes" where
  "emoji_utf8 emoji =
     [ucast (0xf0 OR drop_bit 18 emoji), ucast (0x80 OR (drop_bit 12 emoji AND 0x3f)),
      ucast (0x80 OR (drop_bit 6 emoji AND 0x3f)), ucast (0x80 OR (emoji AND 0x3f))]"

definition GenerateEmojiString :: bytes where
  "GenerateEmojiString = emoji_utf8 0x0001f923 @ ascii '',max'' @ emoji_utf8 0x0010ffff"

text \<open>The literals, character by character.\<close>

definition GenerateComplexString :: bytes where
  "GenerateComplexString = concat
     [[0xed, 0x82, 0x90], [0xc2, 0x88], [0xe4, 0xb8, 0xad], [0xe5, 0x9b, 0xbd], [0xe4, 0xbd, 0xa0],
      [0xe5, 0xa5, 0xbd], [0x21], [0xc2, 0x88], [0xc2, 0x88], [0xc2, 0x88], [0xc2, 0x88],
      [0xc2, 0x88], [0xc2, 0x88]]"

definition GenerateSuperComplexString :: bytes where
  "GenerateSuperComplexString = concat
     [[0xed, 0x82, 0x90], [0xc2, 0x88], [0xe4, 0xb8, 0xad], [0xe5, 0x9b, 0xbd], [0xe4, 0xbd, 0xa0],
      [0xe5, 0xa5, 0xbd], [0x21], [0xc2, 0x88], [0xc2, 0x88], [0xc2, 0x88], [0xc2, 0x88],
      [0xc2, 0x88], [0xc2, 0x88], [0xe2, 0x9c, 0x85], [0xe2, 0x9d, 0x93], [0xe2, 0x98, 0x91],
      [0xef, 0xb8, 0x8f], [0xf0, 0x9f, 0x98, 0x8a], [0xf0, 0x9f, 0xa4, 0x94],
      [0xf0, 0x9f, 0x91, 0x80], [0xf0, 0x9f, 0xab, 0x85], [0xf0, 0x9f, 0x94, 0x92],
      [0xf0, 0x9f, 0x97, 0x9d], [0xef, 0xb8, 0x8f], [0xf0, 0x9f, 0xa7, 0xab],
      [0xf0, 0x9f, 0x9b, 0xb9], [0xf0, 0x9f, 0x9a, 0x85], [0xf0, 0x9f, 0xa7, 0xbb],
      [0xf0, 0x9f, 0xaa, 0x9e], [0xf0, 0x9f, 0xaa, 0x9e], [0xf0, 0x9f, 0xaa, 0x9e],
      [0xf0, 0x9f, 0xaa, 0x9e], [0xf0, 0x9f, 0xaa, 0x9e], [0xf0, 0x9f, 0xaa, 0x9e],
      [0xf0, 0x9f, 0xaa, 0x9e], [0xf0, 0x9f, 0xaa, 0x9e], [0xf0, 0x9f, 0xaa, 0x9e],
      [0xf0, 0x9f, 0x95, 0x9f], [0xf0, 0x9f, 0x95, 0x9f], [0xf0, 0x9f, 0x95, 0x9f],
      [0xf0, 0x9f, 0x95, 0x9f], [0xf0, 0x9f, 0x95, 0x9f], [0xf0, 0x9f, 0x95, 0x9f],
      [0xf0, 0x9f, 0x95, 0x9f], [0xf0, 0x9f, 0x94, 0x85], [0xf0, 0x9f, 0x94, 0x85],
      [0xf0, 0x9f, 0x94, 0x85], [0xf0, 0x9f, 0x94, 0x85], [0xf0, 0x9f, 0x94, 0x85],
      [0xf0, 0x9f, 0x94, 0x85], [0xf0, 0x9f, 0xa4, 0x8d], [0xf0, 0x9f, 0xa4, 0x8d],
      [0xf0, 0x9f, 0xa4, 0x8d], [0xf0, 0x9f, 0xa4, 0x8d], [0xf0, 0x9f, 0xa4, 0x8d],
      [0xf0, 0x9f, 0xa4, 0x8d], [0xf0, 0x9f, 0x8c, 0x88], [0xf0, 0x9f, 0x8c, 0x88],
      [0xf0, 0x9f, 0x8c, 0x88], [0xf0, 0x9f, 0x8c, 0x88], [0xf0, 0x9f, 0x8c, 0x88],
      [0xf0, 0x9f, 0x8c, 0x88], [0xf0, 0x9f, 0x8f, 0xa6], [0xf0, 0x9f, 0x8f, 0xa6],
      [0xf0, 0x9f, 0x8f, 0xa6], [0xf0, 0x9f, 0x8f, 0xa6], [0xf0, 0x9f, 0x8f, 0xa6],
      [0xf0, 0x9f, 0x8f, 0xa6], [0xf0, 0x9f, 0x9a, 0x8e], [0xf0, 0x9f, 0x9a, 0x8e],
      [0xf0, 0x9f, 0x9a, 0x8e], [0xf0, 0x9f, 0x9a, 0x8e], [0xf0, 0x9f, 0x9a, 0x8e],
      [0xf0, 0x9f, 0x9a, 0x8e], [0xf0, 0x9f, 0x9a, 0x8e], [0xe2, 0x8f, 0xb0], [0xe2, 0x8f, 0xb0],
      [0xe2, 0x8f, 0xb0], [0xe2, 0x8f, 0xb0], [0xe2, 0x8f, 0xb0], [0xe2, 0x8f, 0xb2],
      [0xef, 0xb8, 0x8f], [0xe2, 0x8f, 0xb2], [0xef, 0xb8, 0x8f], [0xe2, 0x8f, 0xb2],
      [0xef, 0xb8, 0x8f], [0xf0, 0x9f, 0x97, 0x84], [0xef, 0xb8, 0x8f], [0x61], [0x62], [0x63],
      [0x64], [0x65], [0x66], [0x67], [0x68], [0x69], [0x6a], [0x6b], [0x6c], [0x6d], [0x6e], [0x6f],
      [0x70], [0x71], [0x72], [0x73], [0x74], [0x75], [0x76], [0x77], [0x78], [0x79], [0x7a], [0x31],
      [0x32], [0x33], [0x34], [0x35], [0x36], [0x37], [0x40], [0x23], [0x24], [0x25], [0x5e], [0x26],
      [0x2a], [0x28], [0x29], [0x5f], [0x2b], [0xe2, 0x8f, 0xb2], [0xef, 0xb8, 0x8f],
      [0xe2, 0x8f, 0xb2], [0xef, 0xb8, 0x8f], [0xe2, 0x8f, 0xb2], [0xef, 0xb8, 0x8f],
      [0xe2, 0x8f, 0xb2], [0xef, 0xb8, 0x8f], [0xf0, 0x9f, 0x90, 0xaa], [0xf0, 0x9f, 0x90, 0xab],
      [0x63], [0xe2, 0x8f, 0xb0]]"

section \<open>The tests\<close>

definition SimpleDecodingAndEncoding :: "bool \<Rightarrow> bool" where
  "SimpleDecodingAndEncoding java_lite \<longleftrightarrow>
     expectedEncode (encode_string java_lite) (decode_string java_lite) GenerateString131072"

definition EmojiDecodingAndEncoding :: "bool \<Rightarrow> bool" where
  "EmojiDecodingAndEncoding java_lite \<longleftrightarrow>
     expectedEncode (encode_string java_lite) (decode_string java_lite) GenerateEmojiString"

definition ComplexDecodingAndEncoding :: "bool \<Rightarrow> bool" where
  "ComplexDecodingAndEncoding java_lite \<longleftrightarrow>
     expectedEncode (encode_string java_lite) (decode_string java_lite)
       (GenerateComplexString @ GenerateSuperComplexString @ GenerateString131072
        @ GenerateSuperComplexString @ GenerateComplexString @ GenerateSuperComplexString)"

definition StringDecode :: "bool \<Rightarrow> bool" where
  "StringDecode java_lite \<longleftrightarrow>
     decodeFail (decode_string java_lite) [0x01]
   \<and> decodeFail (decode_string java_lite) [0x30]
   \<and> decodeFail (decode_string java_lite) ([0x30] @ ascii ''t'')
   \<and> decodeFail (decode_string java_lite) ([0x53] @ ascii ''t'')
   \<and> decodeFail (decode_string java_lite) ([0x53] @ ascii ''te'')
   \<and> decodeFail (decode_string java_lite) ([0x52] @ ascii ''t'')
   \<and> decodeFail (decode_string java_lite) ([0x20] @ ascii ''t'')
   \<and> decodeSucc (decode_string java_lite) (=) ([0x01] @ ascii ''t'') (ascii ''t'') 2
   \<and> decodeSucc (decode_string java_lite) (=) [0x00] [] 1
   \<and> decodeSucc (decode_string java_lite) (=) [0x01, 0x00] [0] 2
   \<and> decodeSucc (decode_string java_lite) (=) [0x01, 0xc3, 0x83] [0xc3, 0x83] 3
   \<and> decodeSucc (decode_string java_lite) (=) [0x02, 0xe4, 0xb8, 0xad, 0xe6, 0x96, 0x87]
       [0xe4, 0xb8, 0xad, 0xe6, 0x96, 0x87] 7
   \<and> decodeSucc (decode_string java_lite) (=) ([0x53, 0x00, 0x05] @ ascii ''hello'') (ascii ''hello'') 8
   \<and> decodeSucc (decode_string java_lite) (=) ([0x05] @ ascii ''hello'') (ascii ''hello'') 6
   \<and> decodeSucc (decode_string java_lite) (=)
       ([0x52, 0x00, 0x07] @ ascii ''hello, '' @ [0x05] @ ascii ''world'') (ascii ''hello, world'') 16
   \<and> decodeSucc (decode_string java_lite) (=) ([0x31, 0x01] @ t_bytes 257) (t_bytes 257) 259"

definition StringEncode :: "bool \<Rightarrow> bool" where
  "StringEncode java_lite \<longleftrightarrow>
     (let succ = encodeSucc (encode_string java_lite) (decode_string java_lite) (=)
      in succ [] 1 []
       \<and> succ [0] 2 []
       \<and> succ [0xe4, 0xb8, 0xad, 0xe6, 0x96, 0x87] 7 [0x02, 0xe4, 0xb8, 0xad, 0xe6, 0x96, 0x87]
       \<and> succ (ascii ''hello'') 6 []
       \<and> succ (ascii ''hello, world'') 13 []
       \<and> succ (t_bytes 257) 259 []
       \<and> succ (t_bytes 32) 34 ([0x30, 0x20] @ t_bytes 32)
       \<and> succ (t_bytes 256) 258 ([0x31, 0x00] @ t_bytes 256)
       \<and> succ (t_bytes 1024) 1027 ([0x53, 0x04, 0x00] @ t_bytes 1024)
       \<and> succ (t_bytes 65536) 65542
           ([0x52, 0x80, 0x00] @ t_bytes 32768 @ [0x53, 0x80, 0x00] @ t_bytes 32768)
       \<and> succ [0xf0, 0x9f, 0xa4, 0xa3, 0xf0, 0x9f, 0xa4, 0xa3, 0xf0, 0x9f, 0xa4, 0xa3]
           (if java_lite then 19 else 13) [])"

section \<open>Strings of scalar values\<close>

lemma text_bytes_length: "length (text_bytes (split_text cs)) \<le> length (concat cs) + 3 * length cs + 3"
proof (induction cs rule: split_text.induct)
  case (1 cs)
  show ?case
  proof (cases "32768 < length cs")
    case True
    have "length (concat cs) = length (concat (take 32768 cs)) + length (concat (drop 32768 cs))"
      by (metis append_take_drop_id concat_append length_append)
    then show ?thesis using 1 True by (subst split_text.simps) simp
  next
    case False
    then show ?thesis by (subst split_text.simps) simp
  qed
qed

lemma escape_char_length: "scalar_char c \<Longrightarrow> length (concat (escape_char c)) \<le> 2 * length c"
  using surrogates_pair(4) [OF plane_offset_less(1) [of c]] by (simp add: escape_char_def)

lemma escaped_length: "\<forall>c \<in> set cs. scalar_char c \<Longrightarrow> length (concat (escaped cs)) \<le> 2 * length (concat cs)"
  using escape_char_length by (induction cs) force+

lemma scalar_string_ok:
  assumes "\<forall>c \<in> set cs. scalar_char c" and "length (concat cs) < 2 ^ 31"
  shows "string_ok java_lite (concat cs)" and "length (string_repr java_lite (concat cs)) < 2 ^ 63"
proof -
  have utf8: "\<forall>c \<in> set cs. utf8_char c" using assms(1) scalar_char_utf8 by blast
  have chars: "chars (concat cs) = Some cs" by (rule chars_concat [OF utf8])
  have esc: "length (concat (escaped cs)) < 2 ^ 32" using escaped_length [OF assms(1)] assms(2) by simp
  show "string_ok java_lite (concat cs)"
    using chars assms esc by (simp add: string_ok_def list_all_iff)
  let ?cs = "sent_chars java_lite cs"
  have "length (concat ?cs) < 2 ^ 32" using esc assms(2) by (simp add: sent_chars_def)
  moreover have "length ?cs \<le> length (concat ?cs)"
    using utf8 escaped_utf8 [OF assms(1)] by (intro length_concat_chars) (auto simp: sent_chars_def)
  ultimately have "length (concat ?cs) + 3 * length ?cs + 3 < 2 ^ 63" by simp
  then show "length (string_repr java_lite (concat cs)) < 2 ^ 63"
    using text_bytes_length [of ?cs] chars by (simp add: string_repr_def)
qed

lemma scalar_string_round_trip:
  assumes "\<forall>c \<in> set cs. scalar_char c" and "length (concat cs) < 2 ^ 31" and "s = concat cs"
  shows "expectedEncode (encode_string java_lite) (decode_string java_lite) s"
  unfolding assms(3)
  by (rule expectedEncode_codec [OF str_codec.encoded_repr str_codec.dec_repr]) (rule scalar_string_ok [OF assms(1,2)])+

lemma ascii_scalar: "unat b < 128 \<Longrightarrow> scalar_char [b]"
proof -
  assume b: "unat b < 128"
  then have "unat b div 8 < 16" by simp
  then have "char_length b = 1"
    by (auto simp: char_length_def UTF_8_CHAR_LENGTHS_def nth_Cons' )
  moreover have "b \<noteq> 0xED" using b by auto
  ultimately show ?thesis by (simp add: scalar_char_def utf8_char_def)
qed

section \<open>The tests pass\<close>

text \<open>Strings made of scalar values, with a bound on their length.\<close>

definition scalar_text :: "bytes \<Rightarrow> nat \<Rightarrow> bool" where
  "scalar_text s n \<longleftrightarrow> (\<exists>cs. (\<forall>c \<in> set cs. scalar_char c) \<and> s = concat cs \<and> length s \<le> n)"

lemma scalar_text_append: "scalar_text s m \<Longrightarrow> scalar_text t n \<Longrightarrow> scalar_text (s @ t) (m + n)"
proof -
  assume "scalar_text s m" "scalar_text t n"
  then obtain cs ds where "\<forall>c \<in> set cs. scalar_char c" "s = concat cs" "length s \<le> m"
    "\<forall>c \<in> set ds. scalar_char c" "t = concat ds" "length t \<le> n" by (auto simp: scalar_text_def)
  then show ?thesis unfolding scalar_text_def by (intro exI [of _ "cs @ ds"]) auto
qed

lemma scalar_text_round_trip:
  "scalar_text s n \<Longrightarrow> n < 2 ^ 31 \<Longrightarrow> expectedEncode (encode_string java_lite) (decode_string java_lite) s"
  unfolding scalar_text_def by (auto intro: scalar_string_round_trip)

lemma ascii_scalar_text: "\<forall>b \<in> set s. unat b < 128 \<Longrightarrow> scalar_text s (length s)"
  unfolding scalar_text_def
  by (intro exI [of _ "map (\<lambda>b. [b]) s"]) (auto intro: ascii_scalar)

lemma decimal_ascii: "b \<in> set (decimal n) \<Longrightarrow> unat b < 128"
proof (induction n rule: decimal.induct)
  case (1 n)
  have "unat (of_nat (0x30 + n mod 10) :: u8) = 0x30 + n mod 10"
    by (simp add: unat_of_nat del: of_nat_add)
  then show ?case using 1 by (subst (asm) (2) decimal.simps) (auto split: if_splits simp del: of_nat_add)
qed

lemma GenerateString131072_text: "scalar_text GenerateString131072 131072"
proof -
  let ?lines = "concat (map (\<lambda>i. decimal (i div 100) @ decimal (i div 10 mod 10) @ decimal (i mod 10)
     @ ascii '' 56789012345678901234567890123456789012345678901234567890123'' @ [10]) [0..<3072])"
  have "unat b < 128" if "b \<in> set ?lines" for b
    using that decimal_ascii by (auto simp: ascii_def)
  then have "\<forall>b \<in> set GenerateString131072. unat b < 128"
    by (auto simp: GenerateString131072_def resize_def dest: in_set_takeD)
  moreover have "length GenerateString131072 = 131072"
    by (simp add: GenerateString131072_def resize_def)
  ultimately show ?thesis using ascii_scalar_text by metis
qed

lemmas eval_scalar = scalar_char_def utf8_char_def char_length_def UTF_8_CHAR_LENGTHS_def
  four_byte_code_point_def bits_def

lemma GenerateComplexString_text: "scalar_text GenerateComplexString 1000"
  unfolding scalar_text_def GenerateComplexString_def
  by (rule exI, rule conjI [OF _ conjI [OF refl]]) (simp_all add: eval_scalar)

lemma GenerateSuperComplexString_text: "scalar_text GenerateSuperComplexString 1000"
  unfolding scalar_text_def GenerateSuperComplexString_def
  by (rule exI, rule conjI [OF _ conjI [OF refl]]) (simp_all add: eval_scalar)

lemma GenerateEmojiString_text: "scalar_text GenerateEmojiString 12"
  unfolding scalar_text_def
  by (rule exI [of _ "[emoji_utf8 0x0001f923] @ map (\<lambda>b. [b]) (ascii '',max'') @ [emoji_utf8 0x0010ffff]"])
    (simp add: GenerateEmojiString_def emoji_utf8_def ascii_def eval_scalar)

lemma generated_strings_pass:
  "SimpleDecodingAndEncoding java_lite" "EmojiDecodingAndEncoding java_lite" "ComplexDecodingAndEncoding java_lite"
proof -
  show "SimpleDecodingAndEncoding java_lite" "EmojiDecodingAndEncoding java_lite"
    unfolding SimpleDecodingAndEncoding_def EmojiDecodingAndEncoding_def
    by (rule scalar_text_round_trip [OF GenerateString131072_text], simp)
      (rule scalar_text_round_trip [OF GenerateEmojiString_text], simp)
  note parts = GenerateComplexString_text GenerateSuperComplexString_text GenerateString131072_text
  show "ComplexDecodingAndEncoding java_lite"
    unfolding ComplexDecodingAndEncoding_def
    by (rule scalar_text_round_trip, (rule scalar_text_append parts)+) simp
qed

lemma t_chars: "chars (t_bytes n) = Some (replicate n [0x74])"
proof -
  have "concat (replicate n [0x74 :: u8]) = t_bytes n" by (induction n) (simp_all add: t_bytes_def)
  then show ?thesis using chars_concat [of "replicate n [0x74]"] by (simp add: eval_scalar)
qed

lemma t_plain: "\<forall>c \<in> set (replicate n [0x74 :: u8]). length c \<noteq> 4 \<and> hd c \<noteq> 0xED"
  by simp

lemma t_string:
  assumes "n < 2 ^ 32"
  shows "string_ok java_lite (t_bytes n)"
    and "string_repr java_lite (t_bytes n) = text_bytes (split_text (replicate n [0x74]))"
  by (rule plain_string [OF t_chars t_plain]; use assms in \<open>simp add: t_bytes_def\<close>)+

lemma byte_257: "(257 :: u8) = 1"
  by simp

lemma StringDecode_passes: "StringDecode java_lite"
proof -
  have "text_ok (Medium_Text (replicate 257 [0x74]))" by (simp add: text_ok_def eval_scalar)
  then have "decodes (decode_string java_lite) ([0x31, 0x01] @ t_bytes 257) (t_bytes 257)"
    using decode_string_decodes [of "Medium_Text (replicate 257 [0x74])" java_lite]
    by (simp add: readable_def read_chars_def surrogate_lead_def t_bytes_def byte_257)
  then have "decodeSucc (decode_string java_lite) (=) ([0x31, 0x01] @ t_bytes 257) (t_bytes 257) 259"
    by (rule decodeSucc_decodes) (simp_all add: t_bytes_def)
  then show ?thesis unfolding StringDecode_def
    by (intro conjI; (assumption | simp add: eval_test; fail)?)
qed

lemma encodeSucc_string:
  assumes "string_ok java_lite s" and "string_repr java_lite s = bs" and "length bs < 2 ^ 63"
    and "n = length bs" and "expected = [] \<or> expected = bs"
  shows "encodeSucc (encode_string java_lite) (decode_string java_lite) (=) s n expected"
  using assms str_codec.encoded_repr [OF assms(1)] str_codec.dec_repr [OF assms(1)]
  by (intro encodeSucc_repr [where bs = bs]) auto

text \<open>Short strings: their characters one by one.\<close>

lemma short_string:
  assumes "chars s = Some cs" and "\<forall>c \<in> set cs. length c \<noteq> 4 \<and> hd c \<noteq> 0xED" and "length s < 2 ^ 32"
    and "text_bytes (split_text cs) = bs" and "length bs < 2 ^ 63" and "n = length bs"
    and "expected = [] \<or> expected = bs"
  shows "encodeSucc (encode_string java_lite) (decode_string java_lite) (=) s n expected"
  by (rule encodeSucc_string [OF plain_string(1) [OF assms(1-3)] _ assms(5-7)])
    (use plain_string(2) [OF assms(1-3)] assms(4) in simp)

lemma t_string_encodes:
  assumes "m < 2 ^ 32" and "text_bytes (split_text (replicate m [0x74])) = bs" and "length bs < 2 ^ 63"
    and "n = length bs" and "expected = [] \<or> expected = bs"
  shows "encodeSucc (encode_string java_lite) (decode_string java_lite) (=) (t_bytes m) n expected"
  by (rule short_string [OF t_chars t_plain]) (use assms in \<open>simp_all add: t_bytes_def\<close>)

lemma t_texts:
  "text_bytes (split_text (replicate 32 [0x74])) = [0x30, 0x20] @ t_bytes 32"
  "text_bytes (split_text (replicate 256 [0x74])) = [0x31, 0x00] @ t_bytes 256"
  "text_bytes (split_text (replicate 257 [0x74])) = [0x31, 0x01] @ t_bytes 257"
  "text_bytes (split_text (replicate 1024 [0x74])) = [0x53, 0x04, 0x00] @ t_bytes 1024"
  "text_bytes (split_text (replicate 65536 [0x74]))
     = [0x52, 0x80, 0x00] @ t_bytes 32768 @ [0x53, 0x80, 0x00] @ t_bytes 32768"
  by (simp_all add: split_text.simps be_bytes_def t_bytes_def byte_257)

lemma laughing_encoded:
  "string_ok java_lite [0xf0, 0x9f, 0xa4, 0xa3, 0xf0, 0x9f, 0xa4, 0xa3, 0xf0, 0x9f, 0xa4, 0xa3]"
  "length (string_repr java_lite [0xf0, 0x9f, 0xa4, 0xa3, 0xf0, 0x9f, 0xa4, 0xa3, 0xf0, 0x9f, 0xa4, 0xa3])
     = (if java_lite then 19 else 13)"
  by (cases java_lite; simp add: string_ok_def string_repr_def sent_chars_def eval_scalar escape_char_def
      surrogates_def plane_offset_def three_bytes_of_def split_text.simps Let_def)+

lemma StringEncode_passes: "StringEncode java_lite"
  unfolding StringEncode_def Let_def
proof (intro conjI)
  note eval_chars = eval_scalar ascii_def split_text.simps Let_def
  show "encodeSucc (encode_string java_lite) (decode_string java_lite) (=) [] 1 []"
    by (rule short_string [where cs = "[]" and bs = "[0]"]) (simp_all add: eval_chars)
  show "encodeSucc (encode_string java_lite) (decode_string java_lite) (=) [0] 2 []"
    by (rule short_string [where cs = "[[0]]" and bs = "[1, 0]"]) (simp_all add: eval_chars)
  show "encodeSucc (encode_string java_lite) (decode_string java_lite) (=) [0xe4, 0xb8, 0xad, 0xe6, 0x96, 0x87] 7
      [0x02, 0xe4, 0xb8, 0xad, 0xe6, 0x96, 0x87]"
    by (rule short_string [where cs = "[[0xe4, 0xb8, 0xad], [0xe6, 0x96, 0x87]]" and bs = "[0x02, 0xe4, 0xb8, 0xad, 0xe6, 0x96, 0x87]"]) (simp_all add: eval_chars)
  show "encodeSucc (encode_string java_lite) (decode_string java_lite) (=) (ascii ''hello'') 6 []"
    by (rule short_string [where cs = "map (\<lambda>b. [b]) (ascii ''hello'')" and bs = "5 # ascii ''hello''"]) (simp_all add: eval_chars)
  show "encodeSucc (encode_string java_lite) (decode_string java_lite) (=) (ascii ''hello, world'') 13 []"
    by (rule short_string [where cs = "map (\<lambda>b. [b]) (ascii ''hello, world'')" and bs = "12 # ascii ''hello, world''"]) (simp_all add: eval_chars)
  show "encodeSucc (encode_string java_lite) (decode_string java_lite) (=) (t_bytes 257) 259 []"
    by (rule t_string_encodes [OF _ t_texts(3)]) (simp_all add: t_bytes_def)
  show "encodeSucc (encode_string java_lite) (decode_string java_lite) (=) (t_bytes 32) 34 ([0x30, 0x20] @ t_bytes 32)"
    by (rule t_string_encodes [OF _ t_texts(1)]) (simp_all add: t_bytes_def)
  show "encodeSucc (encode_string java_lite) (decode_string java_lite) (=) (t_bytes 256) 258 ([0x31, 0x00] @ t_bytes 256)"
    by (rule t_string_encodes [OF _ t_texts(2)]) (simp_all add: t_bytes_def)
  show "encodeSucc (encode_string java_lite) (decode_string java_lite) (=) (t_bytes 1024) 1027 
      ([0x53, 0x04, 0x00] @ t_bytes 1024)"
    by (rule t_string_encodes [OF _ t_texts(4)]) (simp_all add: t_bytes_def)
  show "encodeSucc (encode_string java_lite) (decode_string java_lite) (=) (t_bytes 65536) 65542 
      ([0x52, 0x80, 0x00] @ t_bytes 32768 @ [0x53, 0x80, 0x00] @ t_bytes 32768)"
    by (rule t_string_encodes [OF _ t_texts(5)]) (simp_all add: t_bytes_def)
  show "encodeSucc (encode_string java_lite) (decode_string java_lite) (=)
      [0xf0, 0x9f, 0xa4, 0xa3, 0xf0, 0x9f, 0xa4, 0xa3, 0xf0, 0x9f, 0xa4, 0xa3] (if java_lite then 19 else 13) []"
    by (rule encodeSucc_string [OF laughing_encoded(1) refl]) (simp_all add: laughing_encoded(2))
qed

section \<open>Property\<close>


end
