(* ===== verification/Reader_Writer_Tests.thy ===== *)
theory Reader_Writer_Tests
  imports Reader Writer Object_Model
begin

text \<open>
  The unit tests of StringReader and StringWriter (src/hessian2/string_reader_unittests.cc and
  string_writer_unittests.cc), as propositions about the model, on a host of either byte order. The
  tests also check that the buffer keeps its size: a reader of the model never changes it.
\<close>

section \<open>The fixture\<close>

fun reads_in_order ::
    "(string_reader \<Rightarrow> ((bool \<times> 'a::len word) \<times> string_reader) option) \<Rightarrow> ('a word \<times> bool) list
      \<Rightarrow> string_reader \<Rightarrow> bool" where
  "reads_in_order rd [] r \<longleftrightarrow> True"
| "reads_in_order rd (val # vals) r \<longleftrightarrow> (case rd r of
     None \<Rightarrow> False
   | Some (out, r') \<Rightarrow> fst out = snd val \<and> (fst out \<longrightarrow> snd out = fst val) \<and> reads_in_order rd vals r')"

definition test_readBE :: "host \<Rightarrow> bool \<Rightarrow> ('a::len word \<times> bool) list \<Rightarrow> bytes \<Rightarrow> bool" where
  "test_readBE h signed_t vals buf \<longleftrightarrow>
     reads_in_order (readBE h signed_t string_length string_raw_read) vals (string_reader buf)"

definition test_readLE :: "host \<Rightarrow> bool \<Rightarrow> ('a::len word \<times> bool) list \<Rightarrow> bytes \<Rightarrow> bool" where
  "test_readLE h signed_t vals buf \<longleftrightarrow>
     reads_in_order (readLE h signed_t string_length string_raw_read) vals (string_reader buf)"

text \<open>The two components of the result of a peek into a new reader.\<close>

definition test_peek :: "host \<Rightarrow> byte_order_type \<Rightarrow> bool \<Rightarrow> bytes \<Rightarrow> nat \<Rightarrow> (bool \<times> 'a::len word) option" where
  "test_peek h e signed_t buf off =
     peek h e (size_of TYPE('a)) signed_t string_length string_raw_read (string_reader buf) off"

definition second_is :: "(bool \<times> 'a::len word) option \<Rightarrow> 'a word \<Rightarrow> bool" where
  "second_is result v \<longleftrightarrow> map_option snd result = Some v"

definition first_is_false :: "(bool \<times> 'a::len word) option \<Rightarrow> bool" where
  "first_is_false result \<longleftrightarrow> map_option fst result = Some False"

section \<open>The tests of StringReader\<close>

definition ReadAndPeekI8 :: "host \<Rightarrow> bool" where
  "ReadAndPeekI8 h \<longleftrightarrow>
     second_is (test_peek h Host True [0, 1, 0xFE] 0) (0 :: i8)
   \<and> second_is (test_peek h Host True [0, 1, 0xFE] 1) (1 :: i8)
   \<and> second_is (test_peek h Host True [0, 1, 0xFE] 2) (- 2 :: i8)
   \<and> test_readBE h True [(0 :: i8, True), (1, True), (- 2, True), (0, False)] [0, 1, 0xFE]
   \<and> first_is_false (test_peek h Host True [] 0 :: (bool \<times> i8) option)
   \<and> test_readBE h True [(0 :: i8, False)] []
   \<and> second_is (test_peek h Host True [0x30] 0) (0x30 :: i8)
   \<and> first_is_false (test_peek h Host True [0x30] 1 :: (bool \<times> i8) option)
   \<and> test_readBE h True [(0x30 :: i8, True), (0, False)] [0x30]"

definition ReadAndPeekLEI16 :: "host \<Rightarrow> bool" where
  "ReadAndPeekLEI16 h \<longleftrightarrow>
     second_is (test_peek h LittleEndian True [0, 1, 2, 3, 0xFF, 0xFF] 0) (0x0100 :: i16)
   \<and> second_is (test_peek h LittleEndian True [0, 1, 2, 3, 0xFF, 0xFF] 1) (0x0201 :: i16)
   \<and> second_is (test_peek h LittleEndian True [0, 1, 2, 3, 0xFF, 0xFF] 2) (0x0302 :: i16)
   \<and> second_is (test_peek h LittleEndian True [0, 1, 2, 3, 0xFF, 0xFF] 4) (- 1 :: i16)
   \<and> test_readLE h True [(0x0100 :: i16, True), (0x0302, True), (0xFFFF, True), (0, False)] [0, 1, 2, 3, 0xFF, 0xFF]
   \<and> first_is_false (test_peek h LittleEndian True [] 0 :: (bool \<times> i16) option)
   \<and> test_readLE h True [(0 :: i16, False)] []
   \<and> second_is (test_peek h Host True [0x30, 0x30] 0) (0x3030 :: i16)
   \<and> first_is_false (test_peek h Host True [0x30, 0x30] 1 :: (bool \<times> i16) option)
   \<and> test_readLE h True [(0x3030 :: i16, True), (0, False)] [0x30, 0x30]"

definition ReadAndPeekLEI32 :: "host \<Rightarrow> bool" where
  "ReadAndPeekLEI32 h \<longleftrightarrow>
     second_is (test_peek h LittleEndian True [0, 1, 2, 3, 0xFF, 0xFF, 0xFF, 0xFF] 0) (0x03020100 :: i32)
   \<and> second_is (test_peek h LittleEndian True [0, 1, 2, 3, 0xFF, 0xFF, 0xFF, 0xFF] 1) (0xFF030201 :: i32)
   \<and> second_is (test_peek h LittleEndian True [0, 1, 2, 3, 0xFF, 0xFF, 0xFF, 0xFF] 2) (0xFFFF0302 :: i32)
   \<and> second_is (test_peek h LittleEndian True [0, 1, 2, 3, 0xFF, 0xFF, 0xFF, 0xFF] 4) (- 1 :: i32)
   \<and> test_readLE h True [(0x03020100 :: i32, True), (0xFFFFFFFF, True), (0, False)] [0, 1, 2, 3, 0xFF, 0xFF, 0xFF, 0xFF]
   \<and> first_is_false (test_peek h LittleEndian True [] 0 :: (bool \<times> i32) option)
   \<and> test_readLE h True [(0 :: i32, False)] []
   \<and> second_is (test_peek h LittleEndian True [0x30, 0x30, 0x30, 0x30] 0) (0x30303030 :: i32)
   \<and> first_is_false (test_peek h LittleEndian True [0x30, 0x30, 0x30, 0x30] 1 :: (bool \<times> i32) option)
   \<and> test_readLE h True [(0x30303030 :: i32, True), (0, False)] [0x30, 0x30, 0x30, 0x30]"

definition ReadAndPeekLEI64 :: "host \<Rightarrow> bool" where
  "ReadAndPeekLEI64 h \<longleftrightarrow>
     second_is (test_peek h LittleEndian True [0, 1, 2, 3, 4, 5, 6, 7, 0xFF, 0xFF, 0xFF, 0xFF, 0xFF, 0xFF, 0xFF, 0xFF] 0) (0x0706050403020100 :: i64)
   \<and> second_is (test_peek h LittleEndian True [0, 1, 2, 3, 4, 5, 6, 7, 0xFF, 0xFF, 0xFF, 0xFF, 0xFF, 0xFF, 0xFF, 0xFF] 1) (0xFF07060504030201 :: i64)
   \<and> second_is (test_peek h LittleEndian True [0, 1, 2, 3, 4, 5, 6, 7, 0xFF, 0xFF, 0xFF, 0xFF, 0xFF, 0xFF, 0xFF, 0xFF] 2) (0xFFFF070605040302 :: i64)
   \<and> second_is (test_peek h LittleEndian True [0, 1, 2, 3, 4, 5, 6, 7, 0xFF, 0xFF, 0xFF, 0xFF, 0xFF, 0xFF, 0xFF, 0xFF] 8) (- 1 :: i64)
   \<and> test_readLE h True [(0x0706050403020100 :: i64, True), (- 1, True), (0, False)] [0, 1, 2, 3, 4, 5, 6, 7, 0xFF, 0xFF, 0xFF, 0xFF, 0xFF, 0xFF, 0xFF, 0xFF]
   \<and> first_is_false (test_peek h LittleEndian True [] 0 :: (bool \<times> i64) option)
   \<and> test_readLE h True [(0 :: i64, False)] []
   \<and> second_is (test_peek h LittleEndian True [0x30, 0x30, 0x30, 0x30, 0x30, 0x30, 0x30, 0x30] 0) (0x3030303030303030 :: i64)
   \<and> first_is_false (test_peek h LittleEndian True [0x30, 0x30, 0x30, 0x30, 0x30, 0x30, 0x30, 0x30] 1 :: (bool \<times> i64) option)
   \<and> test_readLE h True [(0x3030303030303030 :: i64, True), (0, False)] [0x30, 0x30, 0x30, 0x30, 0x30, 0x30, 0x30, 0x30]"

definition ReadAndPeekLEU16 :: "host \<Rightarrow> bool" where
  "ReadAndPeekLEU16 h \<longleftrightarrow>
     second_is (test_peek h LittleEndian False [0, 1, 2, 3, 0xFF, 0xFF] 0) (0x0100 :: u16)
   \<and> second_is (test_peek h LittleEndian False [0, 1, 2, 3, 0xFF, 0xFF] 1) (0x0201 :: u16)
   \<and> second_is (test_peek h LittleEndian False [0, 1, 2, 3, 0xFF, 0xFF] 2) (0x0302 :: u16)
   \<and> second_is (test_peek h LittleEndian False [0, 1, 2, 3, 0xFF, 0xFF] 4) (0xFFFF :: u16)
   \<and> test_readLE h False [(0x0100 :: u16, True), (0x0302, True), (0xFFFF, True), (0, False)] [0, 1, 2, 3, 0xFF, 0xFF]
   \<and> test_readBE h False [(0 :: u16, False)] []
   \<and> test_readBE h False [(0x3030 :: u16, True), (0, False)] [0x30, 0x30]"

definition ReadBEU32 :: "host \<Rightarrow> bool" where
  "ReadBEU32 h \<longleftrightarrow>
     test_readBE h False [(0x00010203 :: u32, True), (- 1, True), (0, False)] [0, 1, 2, 3, 0xFF, 0xFF, 0xFF, 0xFF]
   \<and> test_readBE h False [(0 :: u32, False)] []
   \<and> test_readBE h False [(0x30303030 :: u32, True), (0, False)] [0x30, 0x30, 0x30, 0x30]"

definition ReadBEU64 :: "host \<Rightarrow> bool" where
  "ReadBEU64 h \<longleftrightarrow>
     test_readBE h False [(0x0001020304050607 :: u64, True), (- 1, True), (0, False)] [0, 1, 2, 3, 4, 5, 6, 7, 0xFF, 0xFF, 0xFF, 0xFF, 0xFF, 0xFF, 0xFF, 0xFF]
   \<and> test_readBE h False [(0 :: u64, False)] []
   \<and> test_readBE h False [(0x3030303030303030 :: u64, True), (0, False)] [0x30, 0x30, 0x30, 0x30, 0x30, 0x30, 0x30, 0x30]"

text \<open>\<open>reader_.readNBytes(Utils::allocStringBuffer(&data, len), n)\<close>: the string \<open>data\<close> afterwards.\<close>

definition read_string :: "bytes \<Rightarrow> nat \<Rightarrow> nat \<Rightarrow> string_reader \<Rightarrow> (bytes \<times> string_reader) option" where
  "read_string data len n r = (case allocStringBuffer data len of
     Ret buf \<Rightarrow> map_option (\<lambda>(bs, r'). (bs @ drop n buf, r')) (read_n_bytes string_raw_read r n)
   | _ \<Rightarrow> None)"

definition ReadString :: bool where
  "ReadString \<longleftrightarrow> (let r = string_reader (ascii ''HELLO'') in
     byte_available string_length r = 5
     \<and> (case read_string [] 2 1 r of None \<Rightarrow> False | Some (data, r1) \<Rightarrow>
          data = ascii ''H'' \<and> byte_available string_length r1 = 4
          \<and> (case read_string data 3 2 r1 of None \<Rightarrow> False | Some (data', r2) \<Rightarrow>
               data' = ascii ''EL'' \<and> byte_available string_length r2 = 2)))"

section \<open>The tests of StringWriter\<close>

text \<open>What a writer to an empty string leaves there.\<close>

definition writesLE :: "host \<Rightarrow> 'a::len word \<Rightarrow> bytes \<Rightarrow> bool" where
  "writesLE h v out \<longleftrightarrow> writeLE h string_raw_write v [] = out"

definition writesBE :: "host \<Rightarrow> 'a::len word \<Rightarrow> bytes \<Rightarrow> bool" where
  "writesBE h v out \<longleftrightarrow> writeBE h string_raw_write v [] = out"

definition WriteI8 :: bool where
  "WriteI8 \<longleftrightarrow> foldl (\<lambda>w v. write_byte_of string_raw_write v w) [] [- 128, - 1, 0, 1, 127]
     = [0x80, 0xFF, 0, 1, 0x7F]"

definition WriteLEI16 :: "host \<Rightarrow> bool" where
  "WriteLEI16 h \<longleftrightarrow>
     writesLE h (- 0x8000 :: i16) [0x0, 0x80]
   \<and> writesLE h (0 :: i16) [0x0, 0x0]
   \<and> writesLE h (1 :: i16) [0x1, 0x0]
   \<and> writesLE h (0x7fff :: i16) [0xff, 0x7f]"

definition WriteLEU16 :: "host \<Rightarrow> bool" where
  "WriteLEU16 h \<longleftrightarrow>
     writesLE h (0 :: u16) [0x0, 0x0]
   \<and> writesLE h (1 :: u16) [0x1, 0x0]
   \<and> writesLE h (0x7fff + 1 :: u16) [0x0, 0x80]
   \<and> writesLE h (0xffff :: u16) [0xff, 0xff]"

definition WriteLEI32 :: "host \<Rightarrow> bool" where
  "WriteLEI32 h \<longleftrightarrow>
     writesLE h (- 0x80000000 :: i32) [0x0, 0x0, 0x0, 0x80]
   \<and> writesLE h (0 :: i32) [0x0, 0x0, 0x0, 0x0]
   \<and> writesLE h (1 :: i32) [0x1, 0x0, 0x0, 0x0]
   \<and> writesLE h (0x7fffffff :: i32) [0xff, 0xff, 0xff, 0x7f]"

definition WriteLEU32 :: "host \<Rightarrow> bool" where
  "WriteLEU32 h \<longleftrightarrow>
     writesLE h (0 :: u32) [0x0, 0x0, 0x0, 0x0]
   \<and> writesLE h (1 :: u32) [0x1, 0x0, 0x0, 0x0]
   \<and> writesLE h (0x7fffffff + 1 :: u32) [0x0, 0x0, 0x0, 0x80]
   \<and> writesLE h (0xffffffff :: u32) [0xff, 0xff, 0xff, 0xff]"

definition WriteLEI64 :: "host \<Rightarrow> bool" where
  "WriteLEI64 h \<longleftrightarrow>
     writesLE h (- 0x8000000000000000 :: i64) [0x0, 0x0, 0x0, 0x0, 0x0, 0x0, 0x0, 0x80]
   \<and> writesLE h (1 :: i64) [0x1, 0x0, 0x0, 0x0, 0x0, 0x0, 0x0, 0x0]
   \<and> writesLE h (0 :: i64) [0x0, 0x0, 0x0, 0x0, 0x0, 0x0, 0x0, 0x0]
   \<and> writesLE h (0x7fffffffffffffff :: i64) [0xff, 0xff, 0xff, 0xff, 0xff, 0xff, 0xff, 0x7f]"

definition WriteBEI16 :: "host \<Rightarrow> bool" where
  "WriteBEI16 h \<longleftrightarrow>
     writesBE h (- 0x8000 :: i16) [0x80, 0x0]
   \<and> writesBE h (0 :: i16) [0x0, 0x0]
   \<and> writesBE h (1 :: i16) [0x0, 0x1]
   \<and> writesBE h (0x7fff :: i16) [0x7f, 0xff]"

definition WriteBEU16 :: "host \<Rightarrow> bool" where
  "WriteBEU16 h \<longleftrightarrow>
     writesBE h (0 :: u16) [0x0, 0x0]
   \<and> writesBE h (1 :: u16) [0x0, 0x1]
   \<and> writesBE h (0x7fff + 1 :: u16) [0x80, 0x0]
   \<and> writesBE h (0xffff :: u16) [0xff, 0xff]"

definition WriteBEI32 :: "host \<Rightarrow> bool" where
  "WriteBEI32 h \<longleftrightarrow>
     writesBE h (- 0x80000000 :: i32) [0x80, 0x0, 0x0, 0x0]
   \<and> writesBE h (0 :: i32) [0x0, 0x0, 0x0, 0x0]
   \<and> writesBE h (1 :: i32) [0x0, 0x0, 0x0, 0x1]
   \<and> writesBE h (0x7fffffff :: i32) [0x7f, 0xff, 0xff, 0xff]"

definition WriteBEU32 :: "host \<Rightarrow> bool" where
  "WriteBEU32 h \<longleftrightarrow>
     writesBE h (0 :: u32) [0x0, 0x0, 0x0, 0x0]
   \<and> writesBE h (1 :: u32) [0x0, 0x0, 0x0, 0x1]
   \<and> writesBE h (0x7fffffff + 1 :: u32) [0x80, 0x0, 0x0, 0x0]
   \<and> writesBE h (0xffffffff :: u32) [0xff, 0xff, 0xff, 0xff]"

definition WriteBEI64 :: "host \<Rightarrow> bool" where
  "WriteBEI64 h \<longleftrightarrow>
     writesBE h (- 0x8000000000000000 :: i64) [0x80, 0x0, 0x0, 0x0, 0x0, 0x0, 0x0, 0x0]
   \<and> writesBE h (1 :: i64) [0x0, 0x0, 0x0, 0x0, 0x0, 0x0, 0x0, 0x1]
   \<and> writesBE h (0 :: i64) [0x0, 0x0, 0x0, 0x0, 0x0, 0x0, 0x0, 0x0]
   \<and> writesBE h (0x7fffffffffffffff :: i64) [0x7f, 0xff, 0xff, 0xff, 0xff, 0xff, 0xff, 0xff]"

section \<open>The tests pass\<close>

lemma test_peek_LE:
  "byte_sized TYPE('a::len) \<Longrightarrow> length buf < 2 ^ 63 \<Longrightarrow> off + size_of TYPE('a) \<le> length buf \<Longrightarrow>
    test_peek h LittleEndian signed_t buf off
      = Some (True, of_nat (le_val (take (size_of TYPE('a)) (drop off buf))) :: 'a word)"
  by (simp add: test_peek_def str.peek_full_LE str.wf_reader_def str.unread_def valid_buffer_def string_reader_def)

lemma test_peek_short:
  "length buf < 2 ^ 63 \<Longrightarrow> off \<le> length buf \<Longrightarrow> length buf < off + size_of TYPE('a::len) \<Longrightarrow>
    test_peek h e signed_t buf off = Some (False, 0 :: 'a word)"
  by (simp add: test_peek_def str.peek_short str.wf_reader_def str.unread_def valid_buffer_def string_reader_def)

text \<open>A peek in the order of the host, on either host.\<close>

lemma test_peek_order:
  assumes "off + size_of TYPE('a::len) \<le> length buf" and "length buf < 2 ^ 63"
  shows "test_peek h Host signed_t buf off = Some (True, of_mem h (take (size_of TYPE('a)) (drop off buf)) :: 'a word)"
proof -
  have "\<not> length buf - off < size_of TYPE('a)" using assms by linarith
  then show ?thesis
    using assms str.raw_unread [of "string_reader buf" off "size_of TYPE('a)"]
      str.byte_available_unread [of "string_reader buf"]
    by (simp add: test_peek_def peek_def Let_def from_endian_def converter_from_def str.wf_reader_def str.unread_def
        valid_buffer_def string_reader_def)
qed

lemma test_peek_host:
  "off < length buf \<Longrightarrow> length buf < 2 ^ 63 \<Longrightarrow> test_peek h Host signed_t buf off = Some (True, buf ! off :: i8)"
  "test_peek h Host signed_t [0x30, 0x30] 0 = Some (True, 0x3030 :: i16)"
proof -
  have val: "of_mem h [x] = x" for x :: u8
    by (cases h) (simp_all add: of_mem_def be_val_def)
  show "test_peek h Host signed_t buf off = Some (True, buf ! off :: i8)" if "off < length buf" "length buf < 2 ^ 63"
    using test_peek_order [of off buf, where 'a = 8] that by (simp add: take_Suc_conv_app_nth hd_drop_conv_nth take_Suc val)
  show "test_peek h Host signed_t [0x30, 0x30] 0 = Some (True, 0x3030 :: i16)"
    using test_peek_order [of 0 "[0x30, 0x30]", where 'a = 16] by (cases h) (simp_all add: of_mem_def be_val_def)
qed

lemmas eval_reader = reads_in_order.simps test_readBE_def test_readLE_def second_is_def
  first_is_false_def str.readBE_unread str.readLE_unread test_peek_LE test_peek_short test_peek_host
  str.wf_reader_def str.unread_def valid_buffer_def string_reader_def offset_def be_val_def

lemma reader_tests:
  shows "ReadAndPeekI8 h" and "ReadAndPeekLEI16 h" and "ReadAndPeekLEI32 h" and "ReadAndPeekLEI64 h"
    and "ReadAndPeekLEU16 h" and "ReadBEU32 h" and "ReadBEU64 h"
  unfolding ReadAndPeekI8_def ReadAndPeekLEI16_def ReadAndPeekLEI32_def ReadAndPeekLEI64_def ReadAndPeekLEU16_def
    ReadBEU32_def ReadBEU64_def
  by (intro conjI; simp add: eval_reader)+

lemma ReadString_passes: ReadString
  by (simp add: ReadString_def read_string_def allocStringBuffer_def ascii_def string_reader_def
      byte_available_def string_length_def read_n_bytes_def string_raw_read_def offset_def u64_sub_def u64_add_def Let_def)

lemma WriteI8_passes: WriteI8
  by (simp add: WriteI8_def write_byte_of_def write_byte_def string_raw_write_def)

lemma writes_words:
  "byte_sized TYPE('a::len) \<Longrightarrow> writesLE h (v :: 'a word) out \<longleftrightarrow> le_bytes (size_of TYPE('a)) (unat v) = out"
  "byte_sized TYPE('a::len) \<Longrightarrow> writesBE h (v :: 'a word) out \<longleftrightarrow> be_bytes (size_of TYPE('a)) (unat v) = out"
  by (simp_all add: writesLE_def writesBE_def strw.written_writeLE strw.written_writeBE)

lemma writer_tests:
  shows "WriteLEI16 h"
    and "WriteLEU16 h"
    and "WriteLEI32 h"
    and "WriteLEU32 h"
    and "WriteLEI64 h"
    and "WriteBEI16 h"
    and "WriteBEU16 h"
    and "WriteBEI32 h"
    and "WriteBEU32 h"
    and "WriteBEI64 h"
  unfolding WriteLEI16_def WriteLEU16_def WriteLEI32_def WriteLEU32_def WriteLEI64_def WriteBEI16_def WriteBEU16_def WriteBEI32_def WriteBEU32_def WriteBEI64_def
  by (intro conjI; simp add: writes_words be_bytes_def)+

section \<open>Property\<close>


end
