(* ===== verification/Model_Tests.thy ===== *)
theory Model_Tests
  imports Object_Properties
begin

text \<open>
  The unit tests of the object model (src/hessian2/object_unittests.cc), one definition per test, as
  propositions about the model. The tests compare hash values of the libraries: which ones must
  differ is \<open>hashes_apart\<close>, and the tests pass exactly then. A formatter returns a non-empty text.
\<close>

section \<open>What the tests use\<close>

text \<open>The hash of an object that refers to no other one and is not binary, and \<open>equal\<close>.\<close>

definition hash_of :: "hashers \<Rightarrow> obj \<Rightarrow> u64" where
  "hash_of H = object_hasher H (\<lambda>_. 0) 0"

definition has_debug_string :: "fmt_fn \<Rightarrow> (addr \<Rightarrow> obj option) \<Rightarrow> obj \<Rightarrow> bool" where
  "has_debug_string fmt heap p \<longleftrightarrow> (case obj_debug fmt heap (Suc (Suc 0)) p of None \<Rightarrow> False | Some s \<Rightarrow> 0 < length s)"

text \<open>The loop over the characters of a string object that copies them.\<close>

definition copied :: "bytes \<Rightarrow> bytes" where
  "copied s = foldl (\<lambda>actual i. actual @ [i]) [] s"

text \<open>The pairs of values whose hash values the tests expect to differ.\<close>

definition hashes_apart :: "hashers \<Rightarrow> bool" where
  "hashes_apart H \<longleftrightarrow>
     std_bool H True \<noteq> std_bool H False
   \<and> std_f64 H 0 \<noteq> std_f64 H 0x3FB999999999999A
   \<and> std_i32 H 0 \<noteq> std_i32 H 1
   \<and> std_i64 H 0 \<noteq> std_i64 H 1
   \<and> std_size H 100 \<noteq> std_size H 200
   \<and> absl_string H (ascii ''test'') \<noteq> absl_string H (ascii ''test1'')
   \<and> hash_combine (std_size H) (std_string H (ascii ''typ1'')) 3
       \<noteq> hash_combine (std_size H) (std_string H (ascii ''typ2'')) 3
   \<and> hash_combine (std_size H) (std_string H (ascii ''type1'')) 1
       \<noteq> hash_combine (std_size H) (std_string H (ascii ''type2'')) 1
   \<and> hash_combine (std_size H) (hash_combine (std_size H) (std_string H (ascii ''type1'')) 0) 0
       \<noteq> hash_combine (std_size H) (hash_combine (std_size H) (std_string H (ascii ''type2'')) 0) 0"

section \<open>Types, definitions and the simple objects\<close>

definition BasicOperation :: "fmt_fn \<Rightarrow> bool" where
  "BasicOperation fmt \<longleftrightarrow>
     type_ref_equal (ascii ''ref1'') (ascii ''ref1'')
   \<and> \<not> type_ref_equal (ascii ''ref1'') (ascii ''ref2'')
   \<and> (let r1 = \<lparr>def_type = [], field_names = []\<rparr>; r2 = \<lparr>def_type = [], field_names = []\<rparr>
      in raw_definition_equal r1 r2 \<and> 0 < length (definition_debug fmt r1))"

definition ObjectTest_Binary :: "hashers \<Rightarrow> fmt_fn \<Rightarrow> u64 \<Rightarrow> bool" where
  "ObjectTest_Binary H fmt st \<longleftrightarrow>
     (let vec = [0x0, 0x1, 0x2, 0x3, 0x4]; bin = Binary_Obj vec; bin2 = Binary_Obj [0x0, 0x1, 0x2, 0x3, 0x4];
          (h, st') = obj_hash H (\<lambda>_. 0) st bin; (h2, st2) = obj_hash H (\<lambda>_. 0) st' bin2
      in toBinary bin \<noteq> None \<and> toInteger bin = None \<and> toLong bin = None \<and> toDate bin = None
       \<and> toTypedList bin = None \<and> toUntypedList bin = None \<and> toUntypedMap bin = None
       \<and> toTypedMap bin = None \<and> toClassInstance bin = None \<and> toRefDest bin = None
       \<and> has_debug_string fmt (\<lambda>_. None) bin
       \<and> obj_type_of bin = T_Binary \<and> toBinary bin = Some vec \<and> h = h2
       \<and> obj_equal (hash_of H) bin bin2)"

definition ObjectTest_Boolean :: "hashers \<Rightarrow> bool" where
  "ObjectTest_Boolean H \<longleftrightarrow>
     (let b = Boolean_Obj True; b2 = Boolean_Obj False; b3 = Boolean_Obj True
      in obj_type_of b = T_Boolean \<and> hash_of H b = hash_of H b3 \<and> toBoolean b = Some True
       \<and> hash_of H b \<noteq> hash_of H b2 \<and> obj_equal (hash_of H) b b3 \<and> \<not> obj_equal (hash_of H) b b2)"

definition ObjectTest_Double :: "hashers \<Rightarrow> fmt_fn \<Rightarrow> bool" where
  "ObjectTest_Double H fmt \<longleftrightarrow>
     (let b = Double_Obj 0; b2 = Double_Obj 0; b3 = Double_Obj 0x3FB999999999999A
      in toBinary b = None \<and> toInteger b = None \<and> toLong b = None \<and> toDate b = None
       \<and> toTypedList b = None \<and> toUntypedList b = None \<and> toUntypedMap b = None
       \<and> toTypedMap b = None \<and> toClassInstance b = None \<and> toRefDest b = None
       \<and> has_debug_string fmt (\<lambda>_. None) b
       \<and> obj_type_of b = T_Double \<and> hash_of H b = hash_of H b2
       \<and> (case toDouble b of None \<Rightarrow> False | Some x \<Rightarrow> f64_eq x 0)
       \<and> hash_of H b \<noteq> hash_of H b3 \<and> obj_equal (hash_of H) b b2 \<and> \<not> obj_equal (hash_of H) b3 b2)"

definition ObjectTest_Integer :: "hashers \<Rightarrow> bool" where
  "ObjectTest_Integer H \<longleftrightarrow>
     (let b = Integer_Obj 0; b2 = Integer_Obj 0; b3 = Integer_Obj 1
      in obj_type_of b = T_Integer \<and> hash_of H b = hash_of H b2 \<and> toInteger b = Some 0
       \<and> hash_of H b \<noteq> hash_of H b3 \<and> obj_equal (hash_of H) b b2 \<and> \<not> obj_equal (hash_of H) b3 b2)"

definition ObjectTest_Long :: "hashers \<Rightarrow> fmt_fn \<Rightarrow> bool" where
  "ObjectTest_Long H fmt \<longleftrightarrow>
     (let b = Long_Obj 0; b2 = Long_Obj 0; b3 = Long_Obj 1
      in toBinary b = None \<and> toInteger b = None \<and> toDouble b = None \<and> toDate b = None
       \<and> toTypedList b = None \<and> toUntypedList b = None \<and> toUntypedMap b = None
       \<and> toTypedMap b = None \<and> toClassInstance b = None \<and> toRefDest b = None
       \<and> has_debug_string fmt (\<lambda>_. None) b
       \<and> obj_type_of b = T_Long \<and> hash_of H b = hash_of H b2 \<and> toLong b = Some 0
       \<and> hash_of H b \<noteq> hash_of H b3 \<and> obj_equal (hash_of H) b b2 \<and> \<not> obj_equal (hash_of H) b3 b2)"

definition ObjectTest_Date :: "hashers \<Rightarrow> fmt_fn \<Rightarrow> bool" where
  "ObjectTest_Date H fmt \<longleftrightarrow>
     (let b = Date_Obj 100; b2 = Date_Obj 100; b3 = Date_Obj 200
      in toBinary b = None \<and> toInteger b = None \<and> toDouble b = None \<and> toLong b = None
       \<and> toTypedList b = None \<and> toUntypedList b = None \<and> toUntypedMap b = None
       \<and> toTypedMap b = None \<and> toClassInstance b = None \<and> toRefDest b = None
       \<and> has_debug_string fmt (\<lambda>_. None) b
       \<and> obj_type_of b = T_Date \<and> hash_of H b = hash_of H b2 \<and> toDate b = Some 100
       \<and> hash_of H b \<noteq> hash_of H b3 \<and> obj_equal (hash_of H) b b2 \<and> \<not> obj_equal (hash_of H) b3 b2)"

definition ObjectTest_String :: "hashers \<Rightarrow> fmt_fn \<Rightarrow> bool" where
  "ObjectTest_String H fmt \<longleftrightarrow>
     (let b = String_Obj (ascii ''test''); b2 = String_Obj (ascii ''test''); b3 = String_Obj (ascii ''test1'')
      in toBinary b = None \<and> toInteger b = None \<and> toDouble b = None \<and> toDate b = None \<and> toLong b = None
       \<and> toTypedList b = None \<and> toUntypedList b = None \<and> toUntypedMap b = None
       \<and> toTypedMap b = None \<and> toClassInstance b = None \<and> toRefDest b = None
       \<and> has_debug_string fmt (\<lambda>_. None) b
       \<and> obj_type_of b = T_String \<and> hash_of H b = hash_of H b2 \<and> toString b = Some (ascii ''test'')
       \<and> hash_of H b \<noteq> hash_of H b3 \<and> obj_equal (hash_of H) b b2 \<and> \<not> obj_equal (hash_of H) b3 b2)"

definition ObjectTest_Null :: "hashers \<Rightarrow> fmt_fn \<Rightarrow> bool" where
  "ObjectTest_Null H fmt \<longleftrightarrow>
     (let p = Null_Obj; p2 = Null_Obj
      in obj_debug fmt (\<lambda>_. None) (Suc (Suc 0)) p = Some (ascii ''Type: Null'') \<and> obj_type_of p = T_Null
       \<and> obj_equal (hash_of H) p p2 \<and> hash_of H p = hash_of H p2)"

text \<open>The heap of the test holds the string, at address 1.\<close>

definition ObjectTest_Ref :: "hashers \<Rightarrow> fmt_fn \<Rightarrow> bool" where
  "ObjectTest_Ref H fmt \<longleftrightarrow>
     (let heap = [1 \<mapsto> String_Obj (ascii ''ref'')]; p = Ref_Obj 1; p2 = Ref_Obj 1;
          hash = object_hasher H (\<lambda>d. case heap d of None \<Rightarrow> 0 | Some r \<Rightarrow> hash_of H r) 0
      in has_debug_string fmt heap p \<and> obj_type_of p = T_Ref \<and> obj_equal hash p p2 \<and> hash p = hash p2
       \<and> Option.bind (Option.bind (toRefDest p) heap) toString = Some (ascii ''ref''))"

section \<open>Lists, maps and instances\<close>

definition ObjectTest_UntypedList :: "hashers \<Rightarrow> fmt_fn \<Rightarrow> bool" where
  "ObjectTest_UntypedList H fmt \<longleftrightarrow>
     (let untyped_list1 = [String_Obj (ascii ''obj1''), Integer_Obj 1, Boolean_Obj True];
          untyped_list2 = [String_Obj (ascii ''obj1''), Integer_Obj 1, Boolean_Obj True];
          untyped_list3 = [String_Obj (ascii ''obj1''), Integer_Obj 1];
          p = Untyped_List 1 untyped_list1; p2 = Untyped_List 2 untyped_list2; p3 = Untyped_List 3 untyped_list3;
          p4 = untyped_list_emplace_back (untyped_list_emplace_back [] (Integer_Obj 1)) (Boolean_Obj True)
      in toUntypedList p \<noteq> None \<and> has_debug_string fmt (\<lambda>_. None) p
       \<and> obj_type_of p = T_UntypedList \<and> hash_of H p = hash_of H p2
       \<and> obj_equal (hash_of H) p p2 \<and> \<not> obj_equal (hash_of H) p p3
       \<and> map_option length (toUntypedList p) = Some 3
       \<and> Option.bind (untyped_list_get p4 0) toInteger = Some 1
       \<and> Option.bind (untyped_list_get p4 1) toBoolean = Some True
       \<and> untyped_list_get p4 2 = None)"

definition ObjectTest_TypedList :: "hashers \<Rightarrow> fmt_fn \<Rightarrow> bool" where
  "ObjectTest_TypedList H fmt \<longleftrightarrow>
     (let untyped_list1 = [String_Obj (ascii ''obj1''), Integer_Obj 1, Boolean_Obj True];
          untyped_list2 = [String_Obj (ascii ''obj1''), Integer_Obj 1, Boolean_Obj True];
          untyped_list3 = [String_Obj (ascii ''obj1''), Integer_Obj 1];
          p = Typed_List 1 (ascii ''typ1'') untyped_list1; p2 = Typed_List 2 (ascii ''typ2'') untyped_list2;
          p3 = Typed_List 3 (ascii ''typ1'') untyped_list3;
          p4 = typed_list_emplace_back (typed_list_emplace_back ([], []) (Integer_Obj 1)) (Boolean_Obj True)
      in has_debug_string fmt (\<lambda>_. None) p
       \<and> obj_type_of p = T_TypedList \<and> hash_of H p \<noteq> hash_of H p2
       \<and> \<not> obj_equal (hash_of H) p p2 \<and> \<not> obj_equal (hash_of H) p p3 \<and> \<not> obj_equal (hash_of H) p2 p3
       \<and> map_option (length \<circ> snd) (toTypedList p) = Some 3
       \<and> Option.bind (typed_list_get (snd p4) 0) toInteger = Some 1
       \<and> Option.bind (typed_list_get (snd p4) 1) toBoolean = Some True
       \<and> typed_list_get (snd p4) 2 = None)"

definition ObjectTest_UntypedMap :: "hashers \<Rightarrow> fmt_fn \<Rightarrow> emplace_fn \<Rightarrow> bool" where
  "ObjectTest_UntypedMap H fmt emp \<longleftrightarrow>
     (let untyped_map1 = emp [] (String_Obj (ascii ''key1''), Integer_Obj 1);
          untyped_map2 = emp [] (String_Obj (ascii ''key1''), Integer_Obj 1);
          p = Untyped_Map 1 untyped_map1; p2 = Untyped_Map 2 untyped_map2;
          get = (\<lambda>q. Option.bind (toUntypedMap q) (\<lambda>kvs. untyped_map_get H (\<lambda>_. 0) 0 kvs (ascii ''key1'')))
      in obj_type_of p = T_UntypedMap \<and> map_option length (toUntypedMap p) = Some 1
       \<and> has_debug_string fmt (\<lambda>_. None) p
       \<and> map_option length (toUntypedMap p2) = Some 1
       \<and> hash_of H p = hash_of H p2 \<and> obj_equal (hash_of H) p p2
       \<and> Option.bind (get p) toInteger = Some 1 \<and> Option.bind (get p2) toInteger = Some 1)"

definition ObjectTest_TypedMap :: "hashers \<Rightarrow> fmt_fn \<Rightarrow> emplace_fn \<Rightarrow> bool" where
  "ObjectTest_TypedMap H fmt emp \<longleftrightarrow>
     (let map1 = (ascii ''type1'', emp [] (String_Obj (ascii ''key1''), Integer_Obj 1));
          map2 = (ascii ''type1'', emp [] (String_Obj (ascii ''key1''), Integer_Obj 2));
          map3 = (ascii ''type2'', emp [] (String_Obj (ascii ''key1''), Integer_Obj 2));
          p = Typed_Map 1 (fst map1) (snd map1); p2 = Typed_Map 2 (fst map2) (snd map2);
          p3 = Typed_Map 3 (fst map3) (snd map3);
          p4 = typed_map_emplace emp ([], []) (String_Obj (ascii ''key2''), String_Obj (ascii ''key3''));
          get = (\<lambda>m key. typed_map_get H (\<lambda>_. 0) 0 (snd m) (ascii key))
      in has_debug_string fmt (\<lambda>_. None) p
       \<and> Option.bind (get map1 ''key1'') toInteger = Some 1
       \<and> obj_type_of p = T_TypedMap \<and> map_option (length \<circ> snd) (toTypedMap p) = Some 1
       \<and> Option.bind (get map3 ''key1'') toInteger = Some 2
       \<and> Option.bind (get p4 ''key2'') toString = Some (ascii ''key3'')
       \<and> hash_of H p = hash_of H p2 \<and> \<not> obj_equal (hash_of H) p p2
       \<and> hash_of H p \<noteq> hash_of H p3 \<and> hash_of H p2 \<noteq> hash_of H p3
       \<and> \<not> obj_equal (hash_of H) p p3 \<and> \<not> obj_equal (hash_of H) p2 p3)"

definition ObjectTest_ClassInstance :: "hashers \<Rightarrow> fmt_fn \<Rightarrow> bool" where
  "ObjectTest_ClassInstance H fmt \<longleftrightarrow>
     (let d1 = \<lparr>def_type = ascii ''type1'', field_names = []\<rparr>; d2 = \<lparr>def_type = ascii ''type2'', field_names = []\<rparr>;
          p1 = Class_Instance 1 d1 []; p2 = Class_Instance 2 d1 []; p3 = Class_Instance 3 d2 []
      in has_debug_string fmt (\<lambda>_. None) p1
       \<and> hash_of H p1 = hash_of H p2 \<and> hash_of H p1 \<noteq> hash_of H p3 \<and> hash_of H p2 \<noteq> hash_of H p3
       \<and> obj_equal (hash_of H) p1 p2 \<and> \<not> obj_equal (hash_of H) p1 p3 \<and> \<not> obj_equal (hash_of H) p2 p3)"

definition ObjectTest_AsType :: bool where
  "ObjectTest_AsType \<longleftrightarrow>
     (case asType T_Boolean (Boolean_Obj True) of
       Ret convert_after \<Rightarrow> obj_type_of convert_after = T_Boolean \<and> toBoolean convert_after = Some True
     | _ \<Rightarrow> False)"

definition ObjectTest_Iterator :: bool where
  "ObjectTest_Iterator \<longleftrightarrow>
     (let const_b = String_Obj (ascii ''test'') in Some (copied (ascii ''test'')) = toString const_b)"

section \<open>The tests pass\<close>

lemma hash_of_simps [simp]:
  "hash_of H Null_Obj = null_hash H" "hash_of H (Boolean_Obj b) = std_bool H b"
  "hash_of H (Integer_Obj i) = std_i32 H i" "hash_of H (Double_Obj x) = std_f64 H x"
  "hash_of H (Date_Obj t) = std_size H t" "hash_of H (Long_Obj l) = std_i64 H l"
  "hash_of H (String_Obj s) = absl_string H s"
  "hash_of H (Untyped_List a vs) = untyped_list_hash H vs"
  "hash_of H (Typed_List a ty vs) = typed_list_hash H ty vs"
  "hash_of H (Typed_Map a ty kvs) = typed_map_hash H ty kvs"
  "hash_of H (Untyped_Map a kvs) = untyped_map_hash H kvs"
  "hash_of H (Class_Instance a df vs) = class_instance_hash H df vs"
  by (simp_all add: hash_of_def object_hasher_def string_hash_def date_hash_def)

lemmas eval_debug = has_debug_string_def null_debug_def ref_debug_def boolean_debug_def
  integer_debug_def double_debug_def date_debug_def long_debug_def binary_debug_def string_debug_def
  untyped_list_debug_def typed_list_debug_def typed_map_debug_def untyped_map_debug_def
  class_instance_debug_def

lemmas eval_hash = untyped_list_hash_def typed_list_hash_def typed_map_hash_def untyped_map_hash_def
  class_instance_hash_def definition_hash_def

lemma bytes_of_chars: "inj (\<lambda>c :: char. (of_nat (of_char c) :: u8))"
proof (rule injI)
  fix c d :: char
  assume "(of_nat (of_char c) :: u8) = of_nat (of_char d)"
  moreover have "unat (of_nat (of_char x) :: u8) = of_char x" for x :: char
    by (simp add: unat_of_nat take_bit_eq_mod)
  ultimately have "(of_char c :: nat) = of_char d" by metis
  then show "c = d" by simp
qed

lemma ascii_eq [simp]: "ascii s = ascii t \<longleftrightarrow> s = t"
  unfolding ascii_def by (rule inj_eq [OF inj_mapI [OF bytes_of_chars]])

lemma emplace_first: "emplace_contract hsh emp \<Longrightarrow> emp [] kv = [kv]"
  unfolding emplace_contract_def by (metis empty_iff list.set(1) mset.simps(1) mset_single_iff_right)

lemma doubles_of_the_tests:
  "f64_eq 0 0" "\<not> f64_eq 0 0x3FB999999999999A" "\<not> f64_eq 0x3FB999999999999A 0"
  by (simp_all add: f64_eq_def f64_is_nan_def f64_is_zero_def f64_exp_def f64_frac_def)

lemma simple_object_tests:
  assumes "\<And>f args. fmt f args \<noteq> []"
  shows "BasicOperation fmt" "ObjectTest_Binary H fmt st" "ObjectTest_Null H fmt" "ObjectTest_Ref H fmt"
    "ObjectTest_Boolean H \<longleftrightarrow> std_bool H True \<noteq> std_bool H False"
    "ObjectTest_Double H fmt \<longleftrightarrow> std_f64 H 0 \<noteq> std_f64 H 0x3FB999999999999A"
    "ObjectTest_Integer H \<longleftrightarrow> std_i32 H 0 \<noteq> std_i32 H 1"
    "ObjectTest_Long H fmt \<longleftrightarrow> std_i64 H 0 \<noteq> std_i64 H 1"
    "ObjectTest_Date H fmt \<longleftrightarrow> std_size H 100 \<noteq> std_size H 200"
    "ObjectTest_String H fmt \<longleftrightarrow> absl_string H (ascii ''test'') \<noteq> absl_string H (ascii ''test1'')"
  using assms
  by (auto simp: BasicOperation_def type_ref_equal_def raw_definition_equal_def definition_debug_def
      ObjectTest_Binary_def ObjectTest_Null_def ObjectTest_Ref_def ObjectTest_Boolean_def ObjectTest_Double_def
      ObjectTest_Integer_def ObjectTest_Long_def ObjectTest_Date_def ObjectTest_String_def
      Let_def accessor_defs eval_debug binary_hash_def object_hasher_def doubles_of_the_tests)

lemma list_object_tests:
  assumes "\<And>f args. fmt f args \<noteq> []"
  shows "ObjectTest_UntypedList H fmt"
    "ObjectTest_TypedList H fmt \<longleftrightarrow>
       hash_combine (std_size H) (std_string H (ascii ''typ1'')) 3
         \<noteq> hash_combine (std_size H) (std_string H (ascii ''typ2'')) 3"
  using assms
  by (auto simp: ObjectTest_UntypedList_def ObjectTest_TypedList_def Let_def accessor_defs eval_debug eval_hash
      untyped_list_emplace_back_def typed_list_emplace_back_def untyped_list_get_def typed_list_get_def)

lemma map_object_tests:
  assumes "\<And>f args. fmt f args \<noteq> []" and "emplace_contract (hash_of H) emp"
  shows "ObjectTest_UntypedMap H fmt emp"
    "ObjectTest_TypedMap H fmt emp \<longleftrightarrow>
       hash_combine (std_size H) (std_string H (ascii ''type1'')) 1
         \<noteq> hash_combine (std_size H) (std_string H (ascii ''type2'')) 1"
  using assms(1)
  by (auto simp: ObjectTest_UntypedMap_def ObjectTest_TypedMap_def Let_def accessor_defs eval_debug eval_hash
      emplace_first [OF assms(2)] typed_map_emplace_def untyped_map_get_def typed_map_get_def
      object_hasher_def view_hasher_def object_equal_view_def string_hash_def entries_found_def map_find_def)

lemma instance_object_tests:
  assumes "\<And>f args. fmt f args \<noteq> []"
  shows "ObjectTest_ClassInstance H fmt \<longleftrightarrow>
       hash_combine (std_size H) (hash_combine (std_size H) (std_string H (ascii ''type1'')) 0) 0
         \<noteq> hash_combine (std_size H) (hash_combine (std_size H) (std_string H (ascii ''type2'')) 0) 0"
    "ObjectTest_AsType" "ObjectTest_Iterator"
  using assms
  by (auto simp: ObjectTest_ClassInstance_def ObjectTest_AsType_def ObjectTest_Iterator_def Let_def
      accessor_defs eval_debug eval_hash asType_def copied_def ascii_def)

section \<open>Properties\<close>

text \<open>C40. The unit tests of the object model pass exactly when the hash functions of the libraries keep
  apart the pairs of values for which they expect this, whatever the formatter prints as long as it
  prints something, and whatever order the hash table has: nothing else in them depends on the
  libraries.\<close>

theorem object_model_tests_pass:
  assumes "\<And>f args. fmt f args \<noteq> []" and "emplace_contract (hash_of H) emp"
  shows "(BasicOperation fmt \<and> ObjectTest_Binary H fmt st \<and> ObjectTest_Boolean H \<and> ObjectTest_Double H fmt
      \<and> ObjectTest_Integer H \<and> ObjectTest_Long H fmt \<and> ObjectTest_Date H fmt \<and> ObjectTest_String H fmt
      \<and> ObjectTest_Null H fmt \<and> ObjectTest_Ref H fmt \<and> ObjectTest_UntypedList H fmt
      \<and> ObjectTest_TypedList H fmt \<and> ObjectTest_UntypedMap H fmt emp \<and> ObjectTest_TypedMap H fmt emp
      \<and> ObjectTest_ClassInstance H fmt \<and> ObjectTest_AsType \<and> ObjectTest_Iterator)
    \<longleftrightarrow> hashes_apart H"
  by (simp add: simple_object_tests [OF assms(1)] list_object_tests [OF assms(1)]
      map_object_tests [OF assms] instance_object_tests [OF assms(1)] hashes_apart_def)

text \<open>Hash functions that keep them apart.\<close>

definition test_hashers :: hashers where
  "test_hashers = \<lparr>std_string = foldl (\<lambda>h b. 31 * h + ucast b) 0, absl_string = foldl (\<lambda>h b. 31 * h + ucast b) 0,
     std_bool = (\<lambda>b. if b then 1 else 0), std_i32 = scast, std_i64 = id, std_f64 = id, std_size = id,
     std_u8 = ucast\<rparr>"

theorem object_model_tests_pass_witness:
  "ObjectTest_TypedMap test_hashers (\<lambda>f args. [0x20]) (append_entry (hash_of test_hashers))"
proof -
  have "hashes_apart test_hashers"
    by (simp add: hashes_apart_def test_hashers_def hash_combine_def ascii_def)
  then show ?thesis
    using object_model_tests_pass [of "\<lambda>f args. [0x20]" test_hashers "append_entry (hash_of test_hashers)"]
    by (simp add: append_entry_contract)
qed

end
