(* ===== verification/Java_Framework.thy ===== *)
theory Java_Framework
  imports String_Tests Map_Codec
begin

text \<open>
  The framework of the tests that talk to a Java process (src/hessian2/test_framework): the process,
  its temporary files, and the fixtures \<open>Decode\<close> and \<open>Encode\<close>. What the system and the Java program
  do is a parameter: what a command prints, or what it leaves in files after it has been sent some
  bytes.
\<close>

section \<open>Processes\<close>

text \<open>
  \<open>popen(command, "r")\<close>: the bytes that the command prints, unless there is no pipe.
  \<open>popen(command, "w")\<close>: how many bytes of its argument a call \<open>fwrite\<close> puts into the pipe, and the
  files after the command has ended, given what has been sent to it.
\<close>

type_synonym read_pipe = "string \<Rightarrow> bytes option"

record write_end =
  fwrite_size :: "bytes \<Rightarrow> nat"
  files_after :: "bytes \<Rightarrow> string \<Rightarrow> bytes"

type_synonym write_pipe = "string \<Rightarrow> write_end option"

text \<open>The loop of \<open>Process::Run\<close>: blocks of 128 bytes, until \<open>feof\<close> holds after a short block.\<close>

function read_blocks :: "bytes \<Rightarrow> bytes \<Rightarrow> bytes" where
  "read_blocks output left =
     (let buf = take 128 left in
      if length buf < 128 then output @ buf else read_blocks (output @ buf) (drop 128 left))"
  by pat_completeness auto
termination by (relation "measure (\<lambda>(output, left). length left)") (auto simp: Let_def)

declare read_blocks.simps [simp del]

definition Process_Run :: "read_pipe \<Rightarrow> string \<Rightarrow> bytes option" where
  "Process_Run popen command = (case popen command of None \<Rightarrow> None | Some printed \<Rightarrow> Some (read_blocks [] printed))"

definition RunWithWriteMode :: "write_pipe \<Rightarrow> string \<Rightarrow> write_end option" where
  "RunWithWriteMode popen command = popen command"

text \<open>\<open>Process::write\<close>: the result, and the files after \<open>pclose\<close>.\<close>

definition Process_write :: "write_end \<Rightarrow> bytes \<Rightarrow> bool \<times> (string \<Rightarrow> bytes)" where
  "Process_write pipe input =
     (let sent = take (fwrite_size pipe input) input
      in (\<not> length sent < length input, files_after pipe sent))"

text \<open>\<open>TmpFile::GetFileContent\<close>.\<close>

definition GetFileContent :: "(string \<Rightarrow> bytes) \<Rightarrow> string \<Rightarrow> bytes" where
  "GetFileContent files tmp_file = files tmp_file"

definition decoder_command :: "string \<Rightarrow> string" where
  "decoder_command testcase_name =
     ''bash -c '' @ [CHR 0x27] @ ''java -jar test_hessian/target/test_hessian-1.0.0.jar '' @ testcase_name @ [CHR 0x27]"

definition encoder_command :: "string \<Rightarrow> string \<Rightarrow> string \<Rightarrow> string" where
  "encoder_command testcase_name err_tmp_file out_tmp_file =
     ''bash -c '' @ [CHR 0x27] @ ''java -jar test_hessian/target/test_hessian-1.0.0.jar '' @ testcase_name
     @ '' 2> '' @ err_tmp_file @ '' 1> '' @ out_tmp_file @ [CHR 0x27]"

section \<open>Values with their types\<close>

text \<open>
  The argument of a test, tagged with the \<open>T\<close> of \<open>Decode<T>\<close> and \<open>Encode<T>\<close>. \<open>Of_object\<close> stands for
  \<open>TypedListObject\<close>, \<open>UntypedListObject\<close>, \<open>TypedMapObject\<close>, \<open>UntypedMapObject\<close> and
  \<open>ClassInstanceObject\<close>, after the class of the object.
\<close>

datatype test_value = Of_bool bool | Of_int32 i32 | Of_int64 i64 | Of_double f64
  | Of_bytes bytes | Of_string bytes | Of_milliseconds i64 | Of_seconds i64 | Of_minutes i64
  | Of_object obj

definition top_typed_map :: "bool \<Rightarrow> emplace_fn \<Rightarrow> (decoder, obj) comp" where
  "top_typed_map java_lite emp = and_then dec_byte_available (\<lambda>n.
     decode_typed_map java_lite emp (decode_object_fuel java_lite emp (Suc n)) (Suc n))"

definition top_untyped_map :: "bool \<Rightarrow> emplace_fn \<Rightarrow> (decoder, obj) comp" where
  "top_untyped_map java_lite emp = and_then dec_byte_available (\<lambda>n.
     decode_untyped_map emp (decode_object_fuel java_lite emp (Suc n)) (Suc n))"

text \<open>\<open>decoder.decode<T>()\<close> for the \<open>T\<close> of the expected value.\<close>

definition decode_same :: "bool \<Rightarrow> emplace_fn \<Rightarrow> test_value \<Rightarrow> (decoder, test_value) comp" where
  "decode_same java_lite emp expect_output = (case expect_output of
     Of_bool _ \<Rightarrow> and_then decode_bool (\<lambda>v. ret (Of_bool v))
   | Of_int32 _ \<Rightarrow> and_then decode_i32 (\<lambda>v. ret (Of_int32 v))
   | Of_int64 _ \<Rightarrow> and_then decode_i64 (\<lambda>v. ret (Of_int64 v))
   | Of_double _ \<Rightarrow> and_then decode_double (\<lambda>v. ret (Of_double v))
   | Of_bytes _ \<Rightarrow> and_then decode_bytes (\<lambda>v. ret (Of_bytes v))
   | Of_string _ \<Rightarrow> and_then (decode_string java_lite) (\<lambda>v. ret (Of_string v))
   | Of_milliseconds _ \<Rightarrow> and_then decode_milliseconds (\<lambda>v. ret (Of_milliseconds v))
   | Of_seconds _ \<Rightarrow> and_then decode_seconds (\<lambda>v. ret (Of_seconds v))
   | Of_minutes _ \<Rightarrow> and_then decode_minutes (\<lambda>v. ret (Of_minutes v))
   | Of_object p \<Rightarrow> and_then (case p of
         Typed_List _ _ _ \<Rightarrow> top_typed_list java_lite emp
       | Untyped_List _ _ \<Rightarrow> top_untyped_list java_lite emp
       | Typed_Map _ _ _ \<Rightarrow> top_typed_map java_lite emp
       | Untyped_Map _ _ \<Rightarrow> top_untyped_map java_lite emp
       | Class_Instance _ _ _ \<Rightarrow> top_class_instance java_lite emp
       | _ \<Rightarrow> decode_object java_lite emp) (\<lambda>v. ret (Of_object v)))"

text \<open>\<open>encoder.encode<T>(input)\<close>.\<close>

definition encode_same :: "bool \<Rightarrow> (f64 \<Rightarrow> i32) \<Rightarrow> test_value \<Rightarrow> (encoder, bool) comp" where
  "encode_same java_lite oor input = (case input of
     Of_bool v \<Rightarrow> encode_bool v
   | Of_int32 v \<Rightarrow> encode_i32 v
   | Of_int64 v \<Rightarrow> encode_i64 v
   | Of_double v \<Rightarrow> encode_double oor v
   | Of_bytes v \<Rightarrow> encode_bytes v
   | Of_string v \<Rightarrow> encode_string java_lite v
   | Of_milliseconds v \<Rightarrow> encode_milliseconds v
   | Of_seconds v \<Rightarrow> encode_seconds v
   | Of_minutes v \<Rightarrow> encode_minutes v
   | Of_object p \<Rightarrow> encode_object java_lite oor p)"

text \<open>\<open>operator==\<close> of \<open>T\<close>.\<close>

definition same_value :: "(obj \<Rightarrow> u64) \<Rightarrow> test_value \<Rightarrow> test_value \<Rightarrow> bool" where
  "same_value hsh v w \<longleftrightarrow> (case (v, w) of
     (Of_double x, Of_double y) \<Rightarrow> f64_eq x y
   | (Of_object p, Of_object q) \<Rightarrow> obj_equal hsh p q
   | _ \<Rightarrow> v = w)"

section \<open>The fixtures\<close>

text \<open>
  A test passes if \<open>Decode\<close> or \<open>Encode\<close> returns true and no expectation fails on the way. \<open>Decode\<close>
  looks at the decoded value only if \<open>ignore_equal\<close> is false.
\<close>

definition Decode :: "read_pipe \<Rightarrow> bool \<Rightarrow> (obj \<Rightarrow> u64) \<Rightarrow> string \<times> test_value \<times> bool \<Rightarrow> bool" where
  "Decode popen java_lite hsh = (\<lambda>(testcase_name, expect_output, ignore_equal).
     case Process_Run popen (decoder_command testcase_name) of
       None \<Rightarrow> False
     | Some output \<Rightarrow>
        (case decode_same java_lite (append_entry hsh) expect_output (new_decoder output) of
           (decode_output, decoder) \<Rightarrow>
             (case decode_output of
                Ret v \<Rightarrow> ignore_equal \<or> same_value hsh v expect_output
              | Null \<Rightarrow> ignore_equal
              | _ \<Rightarrow> False)
             \<and> length output = d_offset decoder))"

definition Encode ::
    "write_pipe \<Rightarrow> string \<Rightarrow> string \<Rightarrow> bool \<Rightarrow> (f64 \<Rightarrow> i32) \<Rightarrow> string \<times> test_value \<Rightarrow> bool" where
  "Encode popen err_tmp_file out_tmp_file java_lite oor = (\<lambda>(testcase_name, input).
     case RunWithWriteMode popen (encoder_command testcase_name err_tmp_file out_tmp_file) of
       None \<Rightarrow> False
     | Some pro \<Rightarrow>
        (case encode_same java_lite oor input (new_encoder []) of
           (Ret _, encoder) \<Rightarrow>
             (case Process_write pro (e_out encoder) of (written, files) \<Rightarrow>
                written \<and> GetFileContent files err_tmp_file = []
                \<and> GetFileContent files out_tmp_file = ascii ''true'')
         | _ \<Rightarrow> False))"

end
