(* ===== verification/Java_Replies.thy ===== *)
theory Java_Replies
  imports Java_Framework
begin

text \<open>
  What the tests against Java assume of the Java side, in terms of the grammar of Object_Grammar, and
  why the fixtures of src/hessian2/test_framework then pass. A decoder never exchanges its buffer, so
  its offset after a whole text is the length of the text.
\<close>

section \<open>The buffer of a decoder\<close>

definition keeps_buffer :: "(decoder, 'v) comp \<Rightarrow> bool" where
  "keeps_buffer m \<longleftrightarrow> (\<forall>d r d'. m d = (r, d') \<longrightarrow> impl (d_reader d') = impl (d_reader d))"

named_theorems buffer_intros \<open>rules for keeps_buffer\<close>

lemma buffer_basic [buffer_intros]:
  "keeps_buffer (ret x)" "keeps_buffer nullptr" "keeps_buffer abort" "keeps_buffer hang" "keeps_buffer (gets g)"
  by (simp_all add: keeps_buffer_def)

lemma buffer_modify [buffer_intros]: "(\<And>d. d_reader (g d) = d_reader d) \<Longrightarrow> keeps_buffer (modify g)"
  by (simp add: keeps_buffer_def)

lemma buffer_and_then [buffer_intros]:
  "keeps_buffer m \<Longrightarrow> (\<And>x. keeps_buffer (f x)) \<Longrightarrow> keeps_buffer (and_then m f)"
  unfolding keeps_buffer_def and_then_def by (fastforce split: prod.splits result.splits)

lemma buffer_if [buffer_intros]: "keeps_buffer m \<Longrightarrow> keeps_buffer m' \<Longrightarrow> keeps_buffer (if b then m else m')"
  by simp

lemma buffer_of_defined [buffer_intros]: "keeps_buffer (of_defined x)"
  by (cases x) (simp_all add: buffer_basic)

lemma buffer_set_error [buffer_intros]: "keeps_buffer (set_error c)"
  by (simp add: keeps_buffer_def set_error_def)

lemma buffer_lift:
  "(\<And>r v r'. f r = Some (v, r') \<Longrightarrow> impl r' = impl r) \<Longrightarrow> keeps_buffer (lift_read f)"
  by (auto simp: keeps_buffer_def lift_read_def split: option.splits)

lemma buffer_reads [buffer_intros]:
  "keeps_buffer dec_read_u8" "keeps_buffer dec_peek_u8" "keeps_buffer dec_readBE"
  "keeps_buffer (dec_read_n_bytes k)" "keeps_buffer dec_byte_available"
  unfolding dec_read_u8_def dec_peek_u8_def dec_readBE_def dec_read_n_bytes_def dec_byte_available_def
  by (auto intro!: buffer_lift buffer_basic simp: read_u8_def readBE_def read_def advance_if_read_def
      read_n_bytes_def split: option.splits)

lemma buffer_numbers [buffer_intros]:
  "keeps_buffer decode_bool" "keeps_buffer decode_i32" "keeps_buffer decode_i64" "keeps_buffer decode_double"
  "keeps_buffer decode_milliseconds" "keeps_buffer decode_seconds" "keeps_buffer decode_minutes"
  unfolding decode_bool_def decode_i32_def decode_i64_def decode_double_def decode_milliseconds_def
    decode_seconds_def decode_minutes_def readDate_def readBE_double4_def readBE_double8_def Let_def
  by (intro buffer_intros)+

lemma buffer_finalRead [buffer_intros]: "keeps_buffer (finalReadUtf8String k st len)"
  by (induction k st len rule: finalReadUtf8String.induct)
    (simp_all add: Let_def buffer_intros split: prod.splits)

lemma buffer_decodeStringWithReader: "keeps_buffer (decodeStringWithReader k st)"
  by (induction k arbitrary: st) (auto simp: Let_def readChunkString_def intro!: buffer_intros)

lemma buffer_decodeBytesWithReader: "keeps_buffer (decodeBytesWithReader k out)"
  by (induction k arbitrary: out) (auto simp: Let_def readBytes_def intro!: buffer_intros)

lemma buffer_strings [buffer_intros]: "keeps_buffer (decode_string java_lite)" "keeps_buffer decode_bytes"
  unfolding decode_string_def decode_bytes_def Let_def
  by (intro buffer_intros buffer_decodeStringWithReader buffer_decodeBytesWithReader)+

lemma buffer_decode_field_names [buffer_intros]: "keeps_buffer (decode_field_names java_lite k names)"
  by (induction k arbitrary: names) (auto intro!: buffer_intros)

lemma buffer_tables [buffer_intros]:
  "keeps_buffer decode_null" "keeps_buffer (decode_type_ref java_lite)" "keeps_buffer (decode_definition java_lite)"
  "keeps_buffer (find_definition java_lite)" "keeps_buffer decode_ref" "keeps_buffer new_ref"
proof -
  show def: "keeps_buffer (decode_definition java_lite)"
    unfolding decode_definition_def Let_def by (intro buffer_intros; simp)
  show "keeps_buffer (find_definition java_lite)"
    unfolding find_definition_def by (intro buffer_intros def)
  show "keeps_buffer new_ref" by (simp add: keeps_buffer_def new_ref_def)
qed (unfold decode_null_def decode_type_ref_def decode_ref_def Let_def, (intro buffer_intros; simp)+)

lemma buffer_insert_entry [buffer_intros]: "keeps_buffer (insert_entry emp kvs k v)"
  by (auto simp: keeps_buffer_def insert_entry_def Let_def split: if_splits)

lemma buffer_loops:
  assumes "keeps_buffer dec"
  shows "keeps_buffer (read_nums dec c acc)" and "keeps_buffer (read_until_end dec k acc)"
    and "keeps_buffer (read_entries emp dec k kvs)"
proof -
  show "keeps_buffer (read_nums dec c acc)"
    by (induction c arbitrary: acc) (auto intro!: buffer_intros assms simp del: ret_run)
  show "keeps_buffer (read_until_end dec k acc)"
    by (induction k arbitrary: acc) (auto intro!: buffer_intros assms simp del: hang_run)
  show "keeps_buffer (read_entries emp dec k kvs)"
    by (induction k arbitrary: kvs) (auto intro!: buffer_intros assms simp del: hang_run)
qed

lemma buffer_containers:
  assumes "keeps_buffer dec"
  shows "keeps_buffer (decode_typed_list java_lite dec k)" "keeps_buffer (decode_untyped_list dec k)"
    "keeps_buffer (decode_typed_map java_lite emp dec k)" "keeps_buffer (decode_untyped_map emp dec k)"
    "keeps_buffer (decode_class_instance java_lite dec)"
  unfolding decode_typed_list_def decode_untyped_list_def decode_typed_map_def decode_untyped_map_def
    decode_class_instance_def Let_def
  by (intro buffer_intros buffer_loops [OF assms]; simp)+

lemma buffer_decode_object_fuel: "keeps_buffer (decode_object_fuel java_lite emp k)"
proof (induction k)
  case (Suc k)
  then show ?case unfolding decode_object_fuel.simps Let_def by (intro buffer_intros buffer_containers)
qed (simp add: decode_object_fuel.simps buffer_basic del: hang_run)

lemma buffer_decode_object: "keeps_buffer (decode_object java_lite emp)"
  unfolding decode_object_def by (intro buffer_intros buffer_decode_object_fuel)

lemma buffer_tops:
  "keeps_buffer (top_typed_list java_lite emp)" "keeps_buffer (top_untyped_list java_lite emp)"
  "keeps_buffer (top_typed_map java_lite emp)" "keeps_buffer (top_untyped_map java_lite emp)"
  "keeps_buffer (top_class_instance java_lite emp)"
  unfolding top_typed_list_def top_untyped_list_def top_typed_map_def top_untyped_map_def top_class_instance_def
  by (intro buffer_intros buffer_containers buffer_decode_object_fuel)+

lemma reads_consumes:
  assumes "reads m no_tables bs v T" and "keeps_buffer m" and "length bs < 2 ^ 63"
  shows "\<exists>d'. m (new_decoder bs) = (Ret v, d') \<and> d_offset d' = length bs"
proof -
  have wf: "wf_decoder (new_decoder bs)" using assms(3) by simp
  obtain d' where d': "m (new_decoder bs) = (Ret v, d')" "wf_decoder d'" "unread d' = []"
    using assms(1) wf dec_has_new [of bs] unread_new_decoder [of bs] unfolding reads_def
    by (metis append_Nil2)
  have "impl (d_reader d') = impl (d_reader (new_decoder bs))" using assms(2) d'(1) by (simp add: keeps_buffer_def)
  then have "impl (d_reader d') = bs" by (simp add: new_decoder_def string_reader_def)
  then have "d_offset d' = length bs"
    using d'(2,3) by (simp add: d_offset_def offset_def wf_decoder_def unread_def str.wf_reader_def str.unread_def)
  with d'(1) show ?thesis by blast
qed

section \<open>Values at the top of a text\<close>

lemma leaf_of_value:
  assumes "value_text java_lite emp T bs v T'" and "hd bs \<noteq> 0x43"
    and "case v of Ref_Obj _ \<Rightarrow> False | Untyped_List _ _ \<Rightarrow> False | Typed_List _ _ _ \<Rightarrow> False
      | Typed_Map _ _ _ \<Rightarrow> False | Untyped_Map _ _ \<Rightarrow> False | Class_Instance _ _ _ \<Rightarrow> False | _ \<Rightarrow> True"
  shows "leaf_text java_lite bs v"
  using assms by cases (auto dest: class_def_first)

lemma leaf_code_no_container:
  "leaf_code v c \<Longrightarrow> case v of Untyped_List _ _ \<Rightarrow> False | Typed_List _ _ _ \<Rightarrow> False
     | Typed_Map _ _ _ \<Rightarrow> False | Untyped_Map _ _ \<Rightarrow> False | _ \<Rightarrow> True"
  by (simp add: leaf_code_def split: obj.splits)

lemma container_first:
  assumes "value_text java_lite emp T bs v T'" and "hd bs \<noteq> 0x43"
  shows "bs \<noteq> [] \<and> (case v of Untyped_List _ _ \<Rightarrow> untyped_list_code (hd bs)
    | Typed_List _ _ _ \<Rightarrow> typed_list_code (hd bs) | Typed_Map _ _ _ \<Rightarrow> hd bs = 0x4d
    | Untyped_Map _ _ \<Rightarrow> hd bs = 0x48 | _ \<Rightarrow> True)"
  using assms(1)
proof cases
  case leaf
  then obtain c cs where "bs = c # cs" "leaf_code v c" using leaf_text_first by blast
  then show ?thesis using leaf_code_no_container [of v c] by (auto split: obj.splits)
next
  case (defined ds df bs')
  then show ?thesis using assms(2) class_def_first by fastforce
next
  case (text_instance ds df bs' vs)
  then show ?thesis using def_ref_reads(2) by fastforce
qed (simp_all add: untyped_list_code_def typed_list_code_def byte_compare)

text \<open>The decoder of the class is the one that \<open>decode<Object>\<close> dispatches to.\<close>

lemma top_dispatch:
  assumes "wf_decoder d" and "unread d = c # cs"
  shows "typed_list_code c \<Longrightarrow> top_typed_list java_lite emp d = decode_object_fuel java_lite emp (Suc (Suc (length (unread d)))) d"
    and "untyped_list_code c \<Longrightarrow> top_untyped_list java_lite emp d = decode_object_fuel java_lite emp (Suc (Suc (length (unread d)))) d"
    and "c = 0x4d \<Longrightarrow> top_typed_map java_lite emp d = decode_object_fuel java_lite emp (Suc (Suc (length (unread d)))) d"
    and "c = 0x48 \<Longrightarrow> top_untyped_map java_lite emp d = decode_object_fuel java_lite emp (Suc (Suc (length (unread d)))) d"
proof -
  have peek: "and_then dec_peek_u8 f d = f (True, c) d" for f :: "_ \<Rightarrow> (decoder, obj) comp"
    using assms by (simp add: and_then_run dec_peek_u8_run)
  have len: "and_then dec_byte_available f d = f (length (unread d)) d" for f :: "_ \<Rightarrow> (decoder, obj) comp"
    using assms by (simp add: and_then_run dec_byte_available_run)
  note run = top_typed_list_def top_untyped_list_def top_typed_map_def top_untyped_map_def len peek Let_def
    decode_object_fuel.simps(2) [of _ _ "Suc (length (unread d))"] fst_conv snd_conv not_True_eq_False if_False
  show "typed_list_code c \<Longrightarrow> top_typed_list java_lite emp d = decode_object_fuel java_lite emp (Suc (Suc (length (unread d)))) d"
    "untyped_list_code c \<Longrightarrow> top_untyped_list java_lite emp d = decode_object_fuel java_lite emp (Suc (Suc (length (unread d)))) d"
    by (simp_all only: run code_cases)
  show "c = 0x4d \<Longrightarrow> top_typed_map java_lite emp d = decode_object_fuel java_lite emp (Suc (Suc (length (unread d)))) d"
    "c = 0x48 \<Longrightarrow> top_untyped_map java_lite emp d = decode_object_fuel java_lite emp (Suc (Suc (length (unread d)))) d"
    by (simp_all only: run) (simp_all add: byte_compare)
qed

lemma top_reads:
  assumes "value_text java_lite emp T bs v T'" and "hd bs \<noteq> 0x43"
  shows "(case v of Typed_List _ _ _ \<Rightarrow> reads (top_typed_list java_lite emp) T bs v T'
    | Untyped_List _ _ \<Rightarrow> reads (top_untyped_list java_lite emp) T bs v T'
    | Typed_Map _ _ _ \<Rightarrow> reads (top_typed_map java_lite emp) T bs v T'
    | Untyped_Map _ _ \<Rightarrow> reads (top_untyped_map java_lite emp) T bs v T'
    | _ \<Rightarrow> reads (decode_object java_lite emp) T bs v T')"
proof -
  note first = container_first [OF assms]
  have top: "reads m T bs v T'"
    if m: "\<And>d cs. wf_decoder d \<Longrightarrow> unread d = hd bs # cs \<Longrightarrow>
      m d = decode_object_fuel java_lite emp (Suc (Suc (length (unread d)))) d" for m
    unfolding reads_def
  proof (intro allI impI)
    fix d rest assume d: "wf_decoder d" "dec_has T d" "unread d = bs @ rest"
    have "reads (decode_object_fuel java_lite emp (Suc (Suc (length (unread d))))) T bs v T'"
      using d(3) by (intro reads_valueD [OF grammar_reads(1) [OF assms(1)]]) simp
    moreover have "unread d = hd bs # tl bs @ rest" using first d(3) by simp
    ultimately show "\<exists>d'. m d = (Ret v, d') \<and> wf_decoder d' \<and> unread d' = rest \<and> dec_has T' d'"
      using d m [OF d(1)] unfolding reads_def by metis
  qed
  note typed_list = top [OF top_dispatch(1)] and untyped_list = top [OF top_dispatch(2)]
    and typed_map = top [OF top_dispatch(3)] and untyped_map = top [OF top_dispatch(4)]
  show ?thesis using first value_text_reads_object [OF assms(1)] typed_list untyped_list typed_map untyped_map
    by (cases v) simp_all
qed

text \<open>An instance at the start of a stream follows its definition.\<close>

definition with_def :: "raw_definition \<Rightarrow> tables" where
  "with_def df = (add_value no_tables)\<lparr>t_defs := [df]\<rparr>"

lemma find_after_definition:
  assumes "class_def_text java_lite ds df" and "def_ref_text_of (with_def df) rs df"
  shows "reads (find_definition java_lite) (add_value no_tables) (ds @ rs) df (with_def df)"
proof -
  obtain cs where c: "ds = 0x43 # cs" using class_def_first [OF assms(1)] by blast
  have T: "(add_value no_tables)\<lparr>t_defs := t_defs (add_value no_tables) @ [df]\<rparr> = with_def df"
    by (simp add: with_def_def add_value_def no_tables_def)
  have first: "reads (and_then (decode_definition java_lite) (\<lambda>_. ret ())) (add_value no_tables) ds () (with_def df)"
    using reads_then_ret [OF class_def_reads [OF assms(1), of "add_value no_tables"]] unfolding T .
  have "reads (and_then (and_then (decode_definition java_lite) (\<lambda>_. ret ())) (\<lambda>_. decode_definition java_lite))
      (add_value no_tables) (0x43 # cs @ rs) df (with_def df)"
    using reads_and_then [OF first def_ref_reads(1) [OF assms(2)]] by (simp add: c del: ret_run)
  then have "reads (find_definition java_lite) (add_value no_tables) (0x43 # cs @ rs) df (with_def df)"
    unfolding find_definition_def by (intro reads_peek_then) (simp del: ret_run)
  then show ?thesis by (simp add: c)
qed

lemma top_instance_reads:
  assumes ds: "class_def_text java_lite ds df" "def_ref_text_of (with_def df) rs df"
    and vs: "values_text java_lite emp (with_def df) cs vs T" and len: "length vs = length (field_names df)"
  shows "reads (top_class_instance java_lite emp) no_tables (ds @ rs @ cs) (Class_Instance 0 df vs) T"
proof -
  have any: "reads (decode_class_instance java_lite (decode_object_fuel java_lite emp k)) no_tables (ds @ rs @ cs)
      (Class_Instance 0 df vs) T" if k: "length cs \<le> k" for k
  proof -
    note items = reads_valuesD(1) [OF grammar_reads(2) [OF vs] k, of "[]", unfolded append_Nil len]
    have "reads (and_then (find_definition java_lite) (\<lambda>df.
        and_then (read_nums (decode_object_fuel java_lite emp k) (length (field_names df)) []) (\<lambda>vs.
        and_then (modify (\<lambda>d. d\<lparr>d_dead := remove1 0 (d_dead d)\<rparr>)) (\<lambda>_. ret (Class_Instance 0 df vs)))))
        (add_value no_tables) ((ds @ rs) @ cs) (Class_Instance 0 df vs) T"
      by (intro reads_and_then [OF find_after_definition [OF ds]] reads_then_pure [OF items] reads_dead_then reads_ret)
    then show ?thesis
      unfolding decode_class_instance_def by (intro reads_new_ref_then reads_dead_then) (simp add: no_tables_def)
  qed
  show ?thesis unfolding reads_def
  proof (intro allI impI)
    fix d rest assume d: "wf_decoder d" "dec_has no_tables d" "unread d = (ds @ rs @ cs) @ rest"
    have "top_class_instance java_lite emp d
        = decode_class_instance java_lite (decode_object_fuel java_lite emp (Suc (length (unread d)))) d"
      using d(1) by (simp add: top_class_instance_def and_then_run dec_byte_available_run)
    moreover have "length cs \<le> Suc (length (unread d))" using d(3) by simp
    ultimately show "\<exists>d'. top_class_instance java_lite emp d = (Ret (Class_Instance 0 df vs), d')
        \<and> wf_decoder d' \<and> unread d' = rest \<and> dec_has T d'"
      using any d unfolding reads_def by metis
  qed
qed

text \<open>A date read in another unit: the milliseconds are divided, towards zero.\<close>

lemma date_text_units:
  assumes "leaf_text java_lite bs (Date_Obj t)"
  shows "decodes decode_seconds bs (word_of_int (tdiv (sint t) 1000))"
    and "decodes decode_minutes bs (word_of_int (tdiv (sint t) 60000))"
proof -
  have ms: "duration_cast milliseconds seconds t = Some (word_of_int (tdiv (sint t) 1000))"
    using sint_i64_bounds [of t] by (simp add: duration_cast_def Let_def)
  have m: "sint (word_of_int (sint w) :: i64) = sint w" for w :: i32
    by (rule sint_i64_of_int) (use sint_i32_bounds [of w] in auto)
  have m60: "sint (word_of_int (sint w * 60000) :: i64) = sint w * 60000" for w :: i32
    by (rule sint_i64_of_int) (use sint_i32_bounds [of w] in auto)
  have s: "duration_cast minutes seconds (word_of_int (sint w)) = Some (word_of_int (sint w * 60))" for w :: i32
    using sint_i32_bounds [of w] by (subst duration_cast_some) (simp_all add: m abs_less_iff del: of_int_sint)
  have id: "duration_cast minutes minutes (word_of_int (sint w)) = Some (word_of_int (sint w))" for w :: i32
    by (rule duration_cast_same) simp
  have q: "tdiv (sint w * 60000) 1000 = sint w * 60" for w :: i32
    using tdiv_cancel [of 1000 "sint w * 60" 1] by (simp add: mult.commute)
  show "decodes decode_seconds bs (word_of_int (tdiv (sint t) 1000))"
    using assms by cases (auto simp: decode_seconds_def m60 q intro!: readDate_minutes readDate_millis s ms
        simp del: of_int_mult of_int_sint)
  show "decodes decode_minutes bs (word_of_int (tdiv (sint t) 60000))"
    using assms by cases (auto simp: decode_minutes_def m60 intro!: readDate_minutes readDate_millis id millis_to_minutes(1)
        simp del: of_int_mult of_int_sint)
qed

section \<open>What the tests assume of Java\<close>

text \<open>
  The texts of an object that a call \<open>decode<T>\<close> for its class accepts at the start of a stream: those of
  the grammar, except that a definition is expected before an instance and nowhere else.
\<close>

definition reply_text :: "bool \<Rightarrow> emplace_fn \<Rightarrow> bytes \<Rightarrow> obj \<Rightarrow> bool" where
  "reply_text java_lite emp bs p \<longleftrightarrow> (case p of
     Class_Instance a df vs \<Rightarrow> a = 0 \<and> length vs = length (field_names df)
       \<and> (\<exists>ds rs cs T. bs = ds @ rs @ cs \<and> class_def_text java_lite ds df
            \<and> def_ref_text_of (with_def df) rs df \<and> values_text java_lite emp (with_def df) cs vs T)
   | _ \<Rightarrow> hd bs \<noteq> 0x43 \<and> (\<exists>T. value_text java_lite emp no_tables bs p T))"

text \<open>The object is one that the test expects, read as its type.\<close>

definition denotes :: "(obj \<Rightarrow> u64) \<Rightarrow> bool \<Rightarrow> obj \<Rightarrow> test_value \<Rightarrow> bool" where
  "denotes hsh ignored p w \<longleftrightarrow> (case w of
     Of_bool v \<Rightarrow> p = Boolean_Obj v
   | Of_int32 v \<Rightarrow> p = Integer_Obj v
   | Of_int64 v \<Rightarrow> p = Long_Obj v
   | Of_double v \<Rightarrow> (case p of Double_Obj x \<Rightarrow> f64_eq x v | _ \<Rightarrow> False)
   | Of_bytes v \<Rightarrow> p = Binary_Obj v
   | Of_string v \<Rightarrow> p = String_Obj v
   | Of_milliseconds v \<Rightarrow> p = Date_Obj v
   | Of_seconds v \<Rightarrow> (case p of Date_Obj t \<Rightarrow> word_of_int (tdiv (sint t) 1000) = v | _ \<Rightarrow> False)
   | Of_minutes v \<Rightarrow> (case p of Date_Obj t \<Rightarrow> word_of_int (tdiv (sint t) 60000) = v | _ \<Rightarrow> False)
   | Of_object q \<Rightarrow> obj_type_of p = obj_type_of q \<and> (ignored \<or> obj_equal hsh p q))"

text \<open>
  On a test of the decoder, the Java method answers with a text that stands for what is expected,
  in whatever form of the grammar.
\<close>

definition java_replies :: "read_pipe \<Rightarrow> bool \<Rightarrow> (obj \<Rightarrow> u64) \<Rightarrow> string \<times> test_value \<times> bool \<Rightarrow> bool" where
  "java_replies popen java_lite hsh = (\<lambda>(testcase_name, w, ignored).
     \<exists>bs p. popen (decoder_command testcase_name) = Some bs \<and> length bs < 2 ^ 63
       \<and> reply_text java_lite (append_entry hsh) bs p \<and> denotes hsh ignored p w)"

section \<open>The decoder fixture passes\<close>

lemma read_blocks_all: "read_blocks bs cs = bs @ cs"
  by (induction bs cs rule: read_blocks.induct) (subst read_blocks.simps, simp add: Let_def)

lemma Process_Run_all [simp]: "Process_Run popen command = popen command"
  by (simp add: Process_Run_def read_blocks_all split: option.splits)

lemma buffer_decode_same: "keeps_buffer (decode_same java_lite emp w)"
  unfolding decode_same_def
  by (cases w) (simp_all add: buffer_intros del: ret_run,
    auto intro!: buffer_intros buffer_decode_object buffer_tops split: obj.splits)

lemma decode_passes:
  assumes "popen (decoder_command testcase_name) = Some bs" and "length bs < 2 ^ 63"
    and "reads (decode_same java_lite (append_entry hsh) w) no_tables bs v T" and "ignored \<or> same_value hsh v w"
  shows "Decode popen java_lite hsh (testcase_name, w, ignored)"
  using reads_consumes [OF assms(3) buffer_decode_same assms(2)] assms(1,4) by (auto simp: Decode_def)

lemma reply_leaf:
  assumes "reply_text java_lite emp bs p"
    and "case p of Ref_Obj _ \<Rightarrow> False | Untyped_List _ _ \<Rightarrow> False | Typed_List _ _ _ \<Rightarrow> False
      | Typed_Map _ _ _ \<Rightarrow> False | Untyped_Map _ _ \<Rightarrow> False | Class_Instance _ _ _ \<Rightarrow> False | _ \<Rightarrow> True"
  shows "leaf_text java_lite bs p"
  using assms leaf_of_value by (cases p) (auto simp: reply_text_def)

lemma reply_object_reads:
  assumes "reply_text java_lite emp bs p" and "obj_type_of p = obj_type_of q"
  shows "\<exists>T. reads (decode_same java_lite emp (Of_object q)) no_tables bs (Of_object p) T"
proof (cases "\<exists>a df vs. p = Class_Instance a df vs")
  case True
  then obtain a df vs where p: "p = Class_Instance a df vs" by blast
  then obtain b dg ws where q: "q = Class_Instance b dg ws" using assms(2) by (cases q) simp_all
  show ?thesis using assms(1) top_instance_reads [of java_lite _ df] unfolding p q
    by (fastforce simp: reply_text_def decode_same_def intro: reads_then_ret simp del: ret_run)
next
  case False
  then obtain T where t: "hd bs \<noteq> 0x43" "value_text java_lite emp no_tables bs p T"
    using assms(1) by (auto simp: reply_text_def split: obj.splits)
  have "reads (case q of Typed_List _ _ _ \<Rightarrow> top_typed_list java_lite emp
      | Untyped_List _ _ \<Rightarrow> top_untyped_list java_lite emp | Typed_Map _ _ _ \<Rightarrow> top_typed_map java_lite emp
      | Untyped_Map _ _ \<Rightarrow> top_untyped_map java_lite emp | Class_Instance _ _ _ \<Rightarrow> top_class_instance java_lite emp
      | _ \<Rightarrow> decode_object java_lite emp) no_tables bs p T"
    using top_reads [OF t(2,1)] assms(2) False by (cases p; cases q) simp_all
  then show ?thesis unfolding decode_same_def by (auto intro: reads_then_ret simp del: ret_run)
qed

lemma reply_reads:
  assumes r: "reply_text java_lite emp bs p" and d: "denotes hsh ignored p w"
  shows "\<exists>v T. reads (decode_same java_lite emp w) no_tables bs v T \<and> (ignored \<or> same_value hsh v w)"
proof (cases "\<exists>q. w = Of_object q")
  case True
  then show ?thesis using reply_object_reads [OF r] d by (fastforce simp: denotes_def same_value_def)
next
  case False
  have leaf: "leaf_text java_lite bs p"
    by (rule reply_leaf [OF r]) (use d False in \<open>auto simp: denotes_def split: test_value.splits obj.splits\<close>)
  note read = leaf_text_decodes [OF leaf, unfolded decodes_leaf_def]
  have dates: "decodes decode_seconds bs (word_of_int (tdiv (sint t) 1000))"
      "decodes decode_minutes bs (word_of_int (tdiv (sint t) 60000))" if "p = Date_Obj t" for t
    using date_text_units leaf that by blast+
  show ?thesis
    using d False read dates unfolding denotes_def decode_same_def same_value_def
    by (cases w) (auto split: obj.splits intro!: exI reads_then_ret reads_decodes simp del: ret_run)
qed

lemma replies_decode:
  assumes "java_replies popen java_lite hsh c"
  shows "Decode popen java_lite hsh c"
proof -
  obtain testcase_name w ignored where c: "c = (testcase_name, w, ignored)" by (cases c)
  obtain bs p where r: "popen (decoder_command testcase_name) = Some bs" "length bs < 2 ^ 63"
      "reply_text java_lite (append_entry hsh) bs p" "denotes hsh ignored p w"
    using assms by (auto simp: java_replies_def c)
  obtain v T where "reads (decode_same java_lite (append_entry hsh) w) no_tables bs v T" "ignored \<or> same_value hsh v w"
    using reply_reads [OF r(3,4)] by blast
  then show ?thesis unfolding c by (rule decode_passes [where popen = popen, OF r(1) r(2)])
qed

section \<open>The encoder fixture passes\<close>

text \<open>
  On a test of the encoder, the Java program takes all the bytes of a text that stands for the
  expected value, prints nothing on its error output and \<open>true\<close> on the other.
\<close>

definition java_accepts ::
    "write_pipe \<Rightarrow> string \<Rightarrow> string \<Rightarrow> bool \<Rightarrow> (obj \<Rightarrow> u64) \<Rightarrow> string \<times> test_value \<Rightarrow> bool" where
  "java_accepts popen err_tmp_file out_tmp_file java_lite hsh = (\<lambda>(testcase_name, w).
     \<exists>pro. popen (encoder_command testcase_name err_tmp_file out_tmp_file) = Some pro
       \<and> (\<forall>bs p T. value_text java_lite (append_entry hsh) no_tables bs p T \<longrightarrow> denotes hsh False p w \<longrightarrow>
            length bs \<le> fwrite_size pro bs \<and> files_after pro bs err_tmp_file = []
            \<and> files_after pro bs out_tmp_file = ascii ''true''))"

text \<open>The values for which the encoder writes a text of the grammar.\<close>

definition sendable :: "bool \<Rightarrow> (obj \<Rightarrow> u64) \<Rightarrow> test_value \<Rightarrow> bool" where
  "sendable java_lite hsh w \<longleftrightarrow> (case w of
     Of_double x \<Rightarrow> x \<noteq> f64_neg_zero \<and> \<not> f64_is_nan x
   | Of_bytes bs \<Rightarrow> length bs \<le> 2 ^ 32
   | Of_string s \<Rightarrow> string_ok java_lite s
   | Of_milliseconds t \<Rightarrow> date_ok (sint t)
   | Of_seconds t \<Rightarrow> date_ok (sint t * 1000)
   | Of_minutes t \<Rightarrow> - (2 ^ 31) \<le> sint t \<and> sint t < 2 ^ 31
   | Of_object p \<Rightarrow> encodable java_lite p \<and> (\<exists>m \<le> 32768. number 0 p = Some m)
       \<and> keys_differ hsh p \<and> self_equal hsh p
   | _ \<Rightarrow> True)"

lemma encodable_run:
  assumes "encodable java_lite p" and "number 0 p = Some m" and "m \<le> 32768" and "keys_differ hsh p"
  obtains e T where "encode_object java_lite oor p (new_encoder []) = (Ret True, e)"
    and "value_text java_lite (append_entry hsh) no_tables (e_out e) p T"
proof -
  have "small no_tables 0" by (simp add: small_def no_tables_def)
  then obtain bs T where t: "value_text java_lite (append_entry hsh) no_tables bs (rebuild (append_entry hsh) p) T"
      "writes (encode_object java_lite oor p) no_tables bs T"
    using encodable_writes [OF assms(1), of "append_entry hsh" oor] assms(2,3) unfolding writes_value_def by blast
  obtain e where "encode_object java_lite oor p (new_encoder []) = (Ret True, e)" "e_out e = e_out (new_encoder []) @ bs"
    using t(2) enc_has_new unfolding writes_def by blast
  then show ?thesis using that t(1) rebuild_append_entry [OF assms(4)] by (simp add: new_encoder_def)
qed

lemma encodes_run: "encodes m bs \<Longrightarrow> \<exists>e. m (new_encoder []) = (Ret True, e) \<and> e_out e = bs"
  by (simp add: encodesD new_encoder_def)

lemma encode_minutes_text:
  assumes "- (2 ^ 31) \<le> sint t" and "sint t < 2 ^ 31"
  shows "\<exists>u :: i64. encodes (encode_minutes t) (date_repr (sint u)) \<and> date_ok (sint u)
    \<and> word_of_int (tdiv (sint u) 60000) = t"
proof -
  have u: "sint (word_of_int (sint t * 60000) :: i64) = sint t * 60000"
    by (rule sint_i64_of_int) (use assms in auto)
  have "encodes (encode_minutes t) (date_repr (sint t * 60000))"
    by (simp add: encodes_def encode_minutes_def date_repr_def)
  moreover have "date_ok (sint t * 60000)" using assms by (simp add: date_ok_def)
  ultimately show ?thesis by (intro exI [of _ "word_of_int (sint t * 60000)"]) (simp only: u tdiv_exact, simp)
qed

lemma encode_seconds_text:
  assumes "date_ok (sint t * 1000)"
  shows "\<exists>u :: i64. encodes (encode_seconds t) (date_repr (sint u)) \<and> date_ok (sint u)
    \<and> word_of_int (tdiv (sint u) 1000) = t"
proof -
  have u: "sint (word_of_int (sint t * 1000) :: i64) = sint t * 1000"
    by (rule sint_i64_of_int) (use assms date_ok_thousands [of "sint t"] in \<open>auto simp: abs_mult\<close>)
  show ?thesis using assms s_codec.enc_repr [of t]
    by (intro exI [of _ "word_of_int (sint t * 1000)"]) (simp only: u tdiv_exact, simp)
qed

lemma date_leaf:
  "encodes m (date_repr (sint u)) \<Longrightarrow> date_ok (sint u) \<Longrightarrow> \<exists>bs. encodes m bs \<and> leaf_text java_lite bs (Date_Obj u)"
  using date_repr_leaf by blast

text \<open>What the encoder writes is a text for the value.\<close>

lemma sendable_leaf:
  assumes "sendable java_lite hsh w" and "\<not> (\<exists>p. w = Of_object p)"
  shows "\<exists>bs p. encodes (encode_same java_lite oor w) bs \<and> leaf_text java_lite bs p \<and> denotes hsh ignored p w"
proof (cases w)
  case (Of_bool b)
  then show ?thesis using bool_codec.enc_repr [of b] leaf_text.true leaf_text.false
    by (cases b) (auto simp: encode_same_def denotes_def bool_repr_def)
next
  case (Of_int32 i)
  then show ?thesis using encode_i32_encodes [of i] i32_repr_leaf [of java_lite i] by (auto simp: encode_same_def denotes_def)
next
  case (Of_int64 i)
  then show ?thesis using encode_i64_encodes [of i] i64_repr_leaf [of java_lite i] by (auto simp: encode_same_def denotes_def)
next
  case (Of_double x)
  then have "f64_eq x x" "x \<noteq> f64_neg_zero" using assms(1) by (simp_all add: sendable_def f64_eq_def)
  then show ?thesis using Of_double encode_double_encodes [of oor x] double_repr_leaf [of x java_lite oor]
    by (fastforce simp: encode_same_def denotes_def)
next
  case (Of_bytes bs)
  then have "length bs \<le> 2 ^ 32" using assms(1) by (simp add: sendable_def)
  then show ?thesis using Of_bytes encode_bytes_encodes [of bs] leaf_text.binary [of "binary_of bs" java_lite]
    by (fastforce simp: encode_same_def denotes_def)
next
  case (Of_string s)
  then have "string_ok java_lite s" using assms(1) by (simp add: sendable_def)
  then show ?thesis using Of_string encode_string_encodes string_repr_leaf
    by (fastforce simp: encode_same_def denotes_def)
next
  case (Of_milliseconds t)
  then have "date_ok (sint t)" using assms(1) by (simp add: sendable_def)
  then show ?thesis using Of_milliseconds date_leaf [OF encode_milliseconds_encodes]
    by (fastforce simp: encode_same_def denotes_def)
next
  case (Of_seconds t)
  then obtain u :: i64 where "encodes (encode_seconds t) (date_repr (sint u))" "date_ok (sint u)"
      "word_of_int (tdiv (sint u) 1000) = t"
    using assms(1) encode_seconds_text [of t] by (auto simp: sendable_def)
  then show ?thesis using Of_seconds date_leaf by (fastforce simp: encode_same_def denotes_def)
next
  case (Of_minutes t)
  then obtain u :: i64 where "encodes (encode_minutes t) (date_repr (sint u))" "date_ok (sint u)"
      "word_of_int (tdiv (sint u) 60000) = t"
    using assms(1) encode_minutes_text [of t] by (auto simp: sendable_def)
  then show ?thesis using Of_minutes date_leaf by (fastforce simp: encode_same_def denotes_def)
qed (use assms(2) in simp)

lemma sendable_text:
  assumes "sendable java_lite hsh w"
  shows "\<exists>e p T. encode_same java_lite oor w (new_encoder []) = (Ret True, e)
    \<and> value_text java_lite (append_entry hsh) no_tables (e_out e) p T \<and> denotes hsh ignored p w"
proof (cases "\<exists>p. w = Of_object p")
  case True
  then obtain p m where p: "w = Of_object p" "encodable java_lite p" "number 0 p = Some m" "m \<le> 32768"
      "keys_differ hsh p" "self_equal hsh p"
    using assms by (auto simp: sendable_def)
  from encodable_run [OF p(2-5), of oor] obtain e T where "encode_object java_lite oor p (new_encoder []) = (Ret True, e)"
      "value_text java_lite (append_entry hsh) no_tables (e_out e) p T" .
  then show ?thesis using p(1) self_equal_equal [OF p(6)] by (auto simp: encode_same_def denotes_def)
next
  case False
  from sendable_leaf [OF assms False, of oor ignored] obtain bs p where
    bs: "encodes (encode_same java_lite oor w) bs" "leaf_text java_lite bs p" "denotes hsh ignored p w" by blast
  then show ?thesis using encodes_run [OF bs(1)] value_text_values_text_entries_text.leaf by blast
qed

lemma accepts_encode:
  assumes "java_accepts popen err_tmp_file out_tmp_file java_lite hsh (testcase_name, w)"
    and "sendable java_lite hsh w"
  shows "Encode popen err_tmp_file out_tmp_file java_lite oor (testcase_name, w)"
proof -
  obtain e p T where e: "encode_same java_lite oor w (new_encoder []) = (Ret True, e)"
      "value_text java_lite (append_entry hsh) no_tables (e_out e) p T" "denotes hsh False p w"
    using sendable_text [OF assms(2), of oor False] by blast
  obtain pro where pro: "popen (encoder_command testcase_name err_tmp_file out_tmp_file) = Some pro"
      "length (e_out e) \<le> fwrite_size pro (e_out e)" "files_after pro (e_out e) err_tmp_file = []"
      "files_after pro (e_out e) out_tmp_file = ascii ''true''"
    using assms(1) e(2,3) by (auto simp: java_accepts_def)
  then show ?thesis
    using e(1) by (simp add: Encode_def RunWithWriteMode_def Process_write_def GetFileContent_def Let_def)
qed

end
