(* ===== verification/Java_Tests.thy ===== *)
theory Java_Tests
  imports Java_Replies
begin

text \<open>
  The tests that compare with the Java implementation: \<open>DecoderJavaTestCaseFor...\<close> and
  \<open>EncoderJavaTestCaseFor...\<close> of the unit tests under src/hessian2/basic_codec. A test is the list of
  its cases: the method of the Java program, the expected value with the type of the call, and for a
  decoder whether the comparison is skipped. The addresses in an object are those in the order in
  which its parts are encoded; the ones of C++ are as different from each other, which is all that the
  code looks at.
\<close>

section \<open>Single values\<close>

definition DecoderJavaTestCaseForBool :: "(string \<times> test_value \<times> bool) list" where
  "DecoderJavaTestCaseForBool = [(''replyTrue'', Of_bool True, False), (''replyFalse'', Of_bool False, False)]"

definition EncoderJavaTestCaseForBool :: "(string \<times> test_value) list" where
  "EncoderJavaTestCaseForBool = [(''argTrue'', Of_bool True), (''argFalse'', Of_bool False)]"

definition DecoderJavaTestCaseForDouble :: "(string \<times> test_value \<times> bool) list" where
  "DecoderJavaTestCaseForDouble =
    [(''replyDouble_0_0'', Of_double 0, False), (''replyDouble_1_0'', Of_double (f64_of_int 1), False),
     (''replyDouble_2_0'', Of_double (f64_of_int 2), False),
     (''replyDouble_127_0'', Of_double (f64_of_int 127), False),
     (''replyDouble_m128_0'', Of_double (f64_of_int (- 128)), False),
     (''replyDouble_128_0'', Of_double (f64_of_int 128), False),
     (''replyDouble_m129_0'', Of_double (f64_of_int (- 129)), False),
     (''replyDouble_32767_0'', Of_double (f64_of_int 32767), False),
     (''replyDouble_m32768_0'', Of_double (f64_of_int (- 32768)), False),
     (''replyDouble_0_001'', Of_double 0x3F50624DD2F1A9FC, False),
     (''replyDouble_m0_001'', Of_double 0xBF50624DD2F1A9FC, False),
     (''replyDouble_65_536'', Of_double 0x4050624DD2F1A9FC, False),
     (''replyDouble_3_14159'', Of_double 0x400921F9F01B866E, False)]"

definition EncoderJavaTestCaseForDouble :: "(string \<times> test_value) list" where
  "EncoderJavaTestCaseForDouble =
    [(''argDouble_0_0'', Of_double 0), (''argDouble_1_0'', Of_double (f64_of_int 1)),
     (''argDouble_2_0'', Of_double (f64_of_int 2)), (''argDouble_127_0'', Of_double (f64_of_int 127)),
     (''argDouble_m128_0'', Of_double (f64_of_int (- 128))),
     (''argDouble_128_0'', Of_double (f64_of_int 128)),
     (''argDouble_m129_0'', Of_double (f64_of_int (- 129))),
     (''argDouble_32767_0'', Of_double (f64_of_int 32767)),
     (''argDouble_m32768_0'', Of_double (f64_of_int (- 32768))),
     (''argDouble_0_001'', Of_double 0x3F50624DD2F1A9FC),
     (''argDouble_m0_001'', Of_double 0xBF50624DD2F1A9FC),
     (''argDouble_65_536'', Of_double 0x4050624DD2F1A9FC),
     (''argDouble_3_14159'', Of_double 0x400921F9F01B866E)]"

definition DecoderJavaTestCaseForInteger :: "(string \<times> test_value \<times> bool) list" where
  "DecoderJavaTestCaseForInteger =
    [(''replyInt_0'', Of_int32 0, False), (''replyInt_1'', Of_int32 1, False),
     (''replyInt_47'', Of_int32 47, False), (''replyInt_m16'', Of_int32 (- 16), False),
     (''replyInt_0x30'', Of_int32 48, False), (''replyInt_0x7ff'', Of_int32 2047, False),
     (''replyInt_m17'', Of_int32 (- 17), False), (''replyInt_m0x800'', Of_int32 (- 2048), False),
     (''replyInt_0x800'', Of_int32 2048, False), (''replyInt_0x3ffff'', Of_int32 262143, False),
     (''replyInt_m0x801'', Of_int32 (- 2049), False), (''replyInt_m0x40000'', Of_int32 (- 262144), False),
     (''replyInt_0x40000'', Of_int32 262144, False), (''replyInt_0x7fffffff'', Of_int32 2147483647, False),
     (''replyInt_m0x40001'', Of_int32 (- 262145), False),
     (''replyInt_m0x80000000'', Of_int32 (- 2147483648), False), (''replyLong_0'', Of_int64 0, False),
     (''replyLong_1'', Of_int64 1, False), (''replyLong_15'', Of_int64 15, False),
     (''replyLong_m8'', Of_int64 (- 8), False), (''replyLong_0x10'', Of_int64 16, False),
     (''replyLong_0x7ff'', Of_int64 2047, False), (''replyLong_m9'', Of_int64 (- 9), False),
     (''replyLong_m0x800'', Of_int64 (- 2048), False), (''replyLong_0x800'', Of_int64 2048, False),
     (''replyLong_0x3ffff'', Of_int64 262143, False), (''replyLong_m0x801'', Of_int64 (- 2049), False),
     (''replyLong_m0x40000'', Of_int64 (- 262144), False), (''replyLong_0x40000'', Of_int64 262144, False),
     (''replyLong_0x7fffffff'', Of_int64 2147483647, False),
     (''replyLong_m0x40001'', Of_int64 (- 262145), False),
     (''replyLong_m0x80000000'', Of_int64 (- 2147483648), False),
     (''replyLong_0x80000000'', Of_int64 2147483648, False),
     (''replyLong_m0x80000001'', Of_int64 (- 2147483649), False)]"

definition EncoderJavaTestCaseForInteger :: "(string \<times> test_value) list" where
  "EncoderJavaTestCaseForInteger =
    [(''argInt_0'', Of_int32 0), (''argInt_1'', Of_int32 1), (''argInt_47'', Of_int32 47),
     (''argInt_m16'', Of_int32 (- 16)), (''argInt_0x30'', Of_int32 48), (''argInt_0x7ff'', Of_int32 2047),
     (''argInt_m17'', Of_int32 (- 17)), (''argInt_m0x800'', Of_int32 (- 2048)),
     (''argInt_0x800'', Of_int32 2048), (''argInt_0x3ffff'', Of_int32 262143),
     (''argInt_m0x801'', Of_int32 (- 2049)), (''argInt_m0x40000'', Of_int32 (- 262144)),
     (''argInt_0x40000'', Of_int32 262144), (''argInt_0x7fffffff'', Of_int32 2147483647),
     (''argInt_m0x40001'', Of_int32 (- 262145)), (''argInt_m0x80000000'', Of_int32 (- 2147483648)),
     (''argLong_0'', Of_int64 0), (''argLong_1'', Of_int64 1), (''argLong_15'', Of_int64 15),
     (''argLong_m8'', Of_int64 (- 8)), (''argLong_0x10'', Of_int64 16), (''argLong_0x7ff'', Of_int64 2047),
     (''argLong_m9'', Of_int64 (- 9)), (''argLong_m0x800'', Of_int64 (- 2048)),
     (''argLong_0x800'', Of_int64 2048), (''argLong_0x3ffff'', Of_int64 262143),
     (''argLong_m0x801'', Of_int64 (- 2049)), (''argLong_m0x40000'', Of_int64 (- 262144)),
     (''argLong_0x40000'', Of_int64 262144), (''argLong_0x7fffffff'', Of_int64 2147483647),
     (''argLong_m0x40001'', Of_int64 (- 262145)), (''argLong_m0x80000000'', Of_int64 (- 2147483648)),
     (''argLong_0x80000000'', Of_int64 2147483648), (''argLong_m0x80000001'', Of_int64 (- 2147483649))]"

definition DecoderJavaTestCaseForDate :: "(string \<times> test_value \<times> bool) list" where
  "DecoderJavaTestCaseForDate =
    [(''replyDate_0'', Of_milliseconds 0, False), (''replyDate_0'', Of_minutes 0, False),
     (''replyDate_1'', Of_milliseconds 894621091000, False), (''replyDate_1'', Of_seconds 894621091, False),
     (''replyDate_1'', Of_minutes 14910351, False), (''replyDate_2'', Of_milliseconds 894621060000, False),
     (''replyDate_2'', Of_seconds 894621060, False), (''replyDate_2'', Of_minutes 14910351, False)]"

definition EncoderJavaTestCaseForDate :: "(string \<times> test_value) list" where
  "EncoderJavaTestCaseForDate =
    [(''argDate_0'', Of_milliseconds 0), (''argDate_0'', Of_minutes 0),
     (''argDate_1'', Of_milliseconds 894621091000), (''argDate_1'', Of_seconds 894621091),
     (''argDate_2'', Of_milliseconds 894621060000), (''argDate_2'', Of_seconds 894621060),
     (''argDate_2'', Of_minutes 14910351)]"

text \<open>The binary data of the tests: numbered lines, cut to size.\<close>

definition lines_of_two_digits :: bytes where
  "lines_of_two_digits = concat (map (\<lambda>i. decimal (i div 10) @ decimal (i mod 10)
     @ ascii '' 456789012345678901234567890123456789012345678901234567890123'' @ [10]) [0..<16])"

definition lines_of_three_digits :: bytes where
  "lines_of_three_digits = concat (map (\<lambda>i. decimal (i div 100) @ decimal (i div 10 mod 10) @ decimal (i mod 10)
     @ ascii '' 56789012345678901234567890123456789012345678901234567890123'' @ [10]) [0..<1024])"

definition DecoderJavaTestCaseForByte :: "(string \<times> test_value \<times> bool) list" where
  "DecoderJavaTestCaseForByte =
    [(''replyBinary_0'', Of_bytes [], False), (''replyBinary_1'', Of_bytes (ascii ''0''), False),
     (''replyBinary_15'', Of_bytes (ascii ''012345678901234''), False),
     (''replyBinary_16'', Of_bytes (ascii ''0123456789012345''), False),
     (''replyBinary_1023'', Of_bytes (resize 1023 lines_of_two_digits), False),
     (''replyBinary_1024'', Of_bytes (resize 1024 lines_of_two_digits), False),
     (''replyBinary_65536'', Of_bytes (resize 65536 lines_of_three_digits), False)]"

definition EncoderJavaTestCaseForByte :: "(string \<times> test_value) list" where
  "EncoderJavaTestCaseForByte =
    [(''argBinary_0'', Of_bytes []), (''argBinary_1'', Of_bytes (ascii ''0'')),
     (''argBinary_15'', Of_bytes (ascii ''012345678901234'')),
     (''argBinary_16'', Of_bytes (ascii ''0123456789012345'')),
     (''argBinary_1023'', Of_bytes (resize 1023 lines_of_two_digits)),
     (''argBinary_1024'', Of_bytes (resize 1024 lines_of_two_digits)),
     (''argBinary_65536'', Of_bytes (resize 65536 lines_of_three_digits))]"

definition GenerateString1023 :: bytes where
  "GenerateString1023 = resize 1023 (concat (map (\<lambda>i. decimal (i div 10) @ decimal (i mod 10)
     @ ascii '' 456789012345678901234567890123456789012345678901234567890123'' @ [10]) [0..<16]))"

definition GenerateString1024 :: bytes where
  "GenerateString1024 = resize 1024 (concat (map (\<lambda>i. decimal (i div 10) @ decimal (i mod 10)
     @ ascii '' 456789012345678901234567890123456789012345678901234567890123'' @ [10]) [0..<16]))"

definition GenerateString65536 :: bytes where
  "GenerateString65536 = resize 65536 (concat (map (\<lambda>i.
     decimal (i div 100) @ decimal (i div 10 mod 10) @ decimal (i mod 10)
     @ ascii '' 56789012345678901234567890123456789012345678901234567890123'' @ [10]) [0..<1024]))"

text \<open>Two cases are compiled with the compatibility flag only.\<close>

definition DecoderJavaTestCaseForString :: "bool \<Rightarrow> (string \<times> test_value \<times> bool) list" where
  "DecoderJavaTestCaseForString java_lite =
    [(''replyString_0'', Of_string [], False), (''replyString_1'', Of_string (ascii ''0''), False),
     (''replyString_31'', Of_string (ascii ''0123456789012345678901234567890''), False),
     (''replyString_32'', Of_string (ascii ''01234567890123456789012345678901''), False),
     (''replyString_1023'', Of_string GenerateString1023, False),
     (''replyString_1024'', Of_string GenerateString1024, False),
     (''replyString_65536'', Of_string GenerateString65536, False),
     (''customReplyComplexString'', Of_string GenerateComplexString, False)]
    @ (if java_lite
       then [(''customReplySuperComplexString'', Of_string GenerateSuperComplexString, False),
             (''customReplyStringEmoji'', Of_string GenerateEmojiString, False)]
       else [])"

definition EncoderJavaTestCaseForString :: "(string \<times> test_value) list" where
  "EncoderJavaTestCaseForString =
    [(''argString_0'', Of_string []), (''argString_1'', Of_string (ascii ''0'')),
     (''argString_31'', Of_string (ascii ''0123456789012345678901234567890'')),
     (''argString_32'', Of_string (ascii ''01234567890123456789012345678901'')),
     (''argString_1023'', Of_string GenerateString1023), (''argString_1024'', Of_string GenerateString1024),
     (''argString_65536'', Of_string GenerateString65536),
     (''customArgComplexString'', Of_string GenerateComplexString)]"

section \<open>Lists and maps\<close>

definition strings_of :: "string list \<Rightarrow> obj list" where
  "strings_of ss = map (\<lambda>s. String_Obj (ascii s)) ss"

definition ints_of :: "int list \<Rightarrow> obj list" where
  "ints_of xs = map (\<lambda>x. Integer_Obj (word_of_int x)) xs"

definition typed_list_of :: "addr \<Rightarrow> string \<Rightarrow> obj list \<Rightarrow> obj" where
  "typed_list_of a type_name values = Typed_List a (ascii type_name) values"

definition instance_of :: "addr \<Rightarrow> string \<Rightarrow> string list \<Rightarrow> obj list \<Rightarrow> obj" where
  "instance_of a type_name names data = Class_Instance a \<lparr>def_type = ascii type_name, field_names = map ascii names\<rparr> data"

definition A0 :: "addr \<Rightarrow> obj" where
  "A0 a = instance_of a ''com.caucho.hessian.test.A0'' [] []"

definition A1 :: "addr \<Rightarrow> obj" where
  "A1 a = instance_of a ''com.caucho.hessian.test.A1'' [] []"

definition DecoderJavaTestCaseForList :: "(string \<times> test_value \<times> bool) list" where
  "DecoderJavaTestCaseForList =
    [(''replyUntypedFixedList_0'', Of_object (Untyped_List 0 []), False),
     (''replyUntypedFixedList_1'', Of_object (Untyped_List 0 (strings_of [''1''])), False),
     (''replyUntypedFixedList_7'',
       Of_object (Untyped_List 0 (strings_of [''1'', ''2'', ''3'', ''4'', ''5'', ''6'', ''7''])), False),
     (''replyUntypedFixedList_8'',
       Of_object (Untyped_List 0 (strings_of [''1'', ''2'', ''3'', ''4'', ''5'', ''6'', ''7'', ''8''])), False),
     (''replyTypedFixedList_0'', Of_object (typed_list_of 0 ''[string'' []), False),
     (''replyTypedFixedList_1'', Of_object (typed_list_of 0 ''[string'' (strings_of [''1''])), False),
     (''replyTypedFixedList_7'',
       Of_object (typed_list_of 0 ''[string'' (strings_of [''1'', ''2'', ''3'', ''4'', ''5'', ''6'', ''7''])), False),
     (''replyTypedFixedList_8'',
       Of_object (typed_list_of 0 ''[string'' (strings_of [''1'', ''2'', ''3'', ''4'', ''5'', ''6'', ''7'', ''8''])),
       False)]"

definition GenerateTypedListTestObject :: obj where
  "GenerateTypedListTestObject = instance_of 0 ''test.TypedListTest'' [''a'', ''list'', ''list1'']
    [A0 1,
     typed_list_of 2 ''[[com.caucho.hessian.test.A0''
      [typed_list_of 3 ''[com.caucho.hessian.test.A0'' [A0 4, A0 5],
       typed_list_of 6 ''[com.caucho.hessian.test.A0'' [A0 7, A0 8]],
     typed_list_of 9 ''[[com.caucho.hessian.test.A1''
      [typed_list_of 10 ''[com.caucho.hessian.test.A1'' [A1 11, A1 12],
       typed_list_of 13 ''[com.caucho.hessian.test.A1'' [A1 14, A1 15]]]"

definition number_lists :: "(string \<times> test_value) list" where
  "number_lists =
    [(''customArgUntypedFixedListHasNull'', Of_object (Untyped_List 0 [A0 1, A1 2, Null_Obj])),
     (''customArgTypedFixedList'', Of_object (typed_list_of 0 ''[com.caucho.hessian.test.A0'' [A0 1])),
     (''customArgTypedFixedList_short_0'', Of_object (typed_list_of 0 ''[short'' [])),
     (''customArgTypedFixedList_short_7'', Of_object (typed_list_of 0 ''[short'' (ints_of [1, 2, 3, 4, 5, 6, 7]))),
     (''customArgTypedFixedList_int_0'', Of_object (typed_list_of 0 ''[int'' [])),
     (''customArgTypedFixedList_int_7'', Of_object (typed_list_of 0 ''[int'' (ints_of [1, 2, 3, 4, 5, 6, 7]))),
     (''customArgTypedFixedList_long_0'', Of_object (typed_list_of 0 ''[long'' [])),
     (''customArgTypedFixedList_long_7'',
       Of_object (typed_list_of 0 ''[long'' (map Long_Obj [1, 2, 3, 4, 5, 6, 7]))),
     (''customArgTypedFixedList_float_0'', Of_object (typed_list_of 0 ''[float'' [])),
     (''customArgTypedFixedList_float_7'',
       Of_object (typed_list_of 0 ''[float'' (map (\<lambda>x. Double_Obj (f64_of_int x)) [1, 2, 3, 4, 5, 6, 7]))),
     (''customArgTypedFixedList_double_0'', Of_object (typed_list_of 0 ''[double'' [])),
     (''customArgTypedFixedList_double_7'',
       Of_object (typed_list_of 0 ''[double'' (map (\<lambda>x. Double_Obj (f64_of_int x)) [1, 2, 3, 4, 5, 6, 7])))]"

definition boolean_and_date_lists :: "(string \<times> test_value) list" where
  "boolean_and_date_lists =
    [(''customArgTypedFixedList_boolean_0'', Of_object (typed_list_of 0 ''[boolean'' [])),
     (''customArgTypedFixedList_boolean_7'',
       Of_object (typed_list_of 0 ''[boolean'' (map Boolean_Obj [True, False, True, False, True, False, True]))),
     (''customArgTypedFixedList_date_0'', Of_object (typed_list_of 0 ''[java.util.Date'' [])),
     (''customArgTypedFixedList_date_3'',
       Of_object (typed_list_of 0 ''[java.util.Date'' (map Date_Obj [1560864000, 1560864000, 1560864000])))]"

definition nested_lists :: "(string \<times> test_value) list" where
  "nested_lists =
    [(''customArgTypedFixedList_arrays'', Of_object
       (typed_list_of 0 ''[[[int''
         [typed_list_of 1 ''[[int'' [typed_list_of 2 ''[int'' (ints_of [1, 2, 3]), typed_list_of 3 ''[int'' (ints_of [4, 5, 6, 7])],
          typed_list_of 4 ''[[int''
           [typed_list_of 5 ''[int'' (ints_of [8, 9, 10]), typed_list_of 6 ''[int'' (ints_of [11, 12, 13, 14])]])),
     (''customArgTypedFixedList_A0arrays'', Of_object
       (typed_list_of 0 ''[[[com.caucho.hessian.test.A0''
         [typed_list_of 1 ''[[com.caucho.hessian.test.A0''
           [typed_list_of 2 ''[com.caucho.hessian.test.A0'' [A0 3, A0 4, A0 5],
            typed_list_of 6 ''[com.caucho.hessian.test.A0'' [A0 7, A0 8, A0 9, Null_Obj]],
          typed_list_of 10 ''[[com.caucho.hessian.test.A0''
           [typed_list_of 11 ''[com.caucho.hessian.test.A0'' [A0 12],
            typed_list_of 13 ''[com.caucho.hessian.test.A0'' [A0 14]]])),
     (''customArgTypedFixedList_Test'', Of_object GenerateTypedListTestObject),
     (''customArgTypedFixedList_Object'', Of_object (typed_list_of 0 ''[java.lang.Object'' [A0 1])),
     (''customArgTypedFixedList_HashSet'', Of_object (typed_list_of 0 ''java.util.HashSet'' (ints_of [0, 1])))]"

definition string_lists :: "(string \<times> test_value) list" where
  "string_lists =
    [(''argUntypedFixedList_0'', Of_object (Untyped_List 0 [])),
     (''argUntypedFixedList_1'', Of_object (Untyped_List 0 (strings_of [''1'']))),
     (''argUntypedFixedList_7'',
       Of_object (Untyped_List 0 (strings_of [''1'', ''2'', ''3'', ''4'', ''5'', ''6'', ''7'']))),
     (''argUntypedFixedList_8'',
       Of_object (Untyped_List 0 (strings_of [''1'', ''2'', ''3'', ''4'', ''5'', ''6'', ''7'', ''8'']))),
     (''argTypedFixedList_0'', Of_object (typed_list_of 0 ''[string'' [])),
     (''argTypedFixedList_1'', Of_object (typed_list_of 0 ''[string'' (strings_of [''1'']))),
     (''argTypedFixedList_7'',
       Of_object (typed_list_of 0 ''[string'' (strings_of [''1'', ''2'', ''3'', ''4'', ''5'', ''6'', ''7'']))),
     (''argTypedFixedList_8'',
       Of_object (typed_list_of 0 ''[string'' (strings_of [''1'', ''2'', ''3'', ''4'', ''5'', ''6'', ''7'', ''8''])))]"

definition EncoderJavaTestCaseForList :: "(string \<times> test_value) list" where
  "EncoderJavaTestCaseForList = number_lists @ boolean_and_date_lists @ nested_lists @ string_lists"

text \<open>A map is built by inserting its entries into an empty hash table.\<close>

definition hash_map :: "(obj \<Rightarrow> u64) \<Rightarrow> (obj \<times> obj) list \<Rightarrow> (obj \<times> obj) list" where
  "hash_map hsh kvs = foldl (append_entry hsh) [] kvs"

definition untyped_map_of :: "(obj \<Rightarrow> u64) \<Rightarrow> (obj \<times> obj) list \<Rightarrow> obj" where
  "untyped_map_of hsh kvs = Untyped_Map 0 (hash_map hsh kvs)"

definition hashtable_of :: "(obj \<Rightarrow> u64) \<Rightarrow> (obj \<times> obj) list \<Rightarrow> obj" where
  "hashtable_of hsh kvs = Typed_Map 0 (ascii ''java.util.Hashtable'') (hash_map hsh kvs)"

text \<open>The entries that the tests insert.\<close>

definition one_entry :: "(obj \<times> obj) list" where
  "one_entry = [(String_Obj (ascii ''a''), Integer_Obj 0)]"

definition two_entries :: "(obj \<times> obj) list" where
  "two_entries = [(Integer_Obj 0, String_Obj (ascii ''a'')), (Integer_Obj 1, String_Obj (ascii ''b''))]"

definition list_entry :: "(obj \<times> obj) list" where
  "list_entry = [(Untyped_List 1 [String_Obj (ascii ''a'')], Integer_Obj 0)]"

definition DecoderJavaTestCaseForMap :: "(obj \<Rightarrow> u64) \<Rightarrow> (string \<times> test_value \<times> bool) list" where
  "DecoderJavaTestCaseForMap hsh =
    [(''replyUntypedMap_0'', Of_object (untyped_map_of hsh []), False),
     (''replyUntypedMap_1'', Of_object (untyped_map_of hsh one_entry), False),
     (''replyUntypedMap_2'', Of_object (untyped_map_of hsh two_entries), False),
     (''replyUntypedMap_3'', Of_object (untyped_map_of hsh list_entry), False),
     (''replyTypedMap_0'', Of_object (hashtable_of hsh []), False),
     (''replyTypedMap_1'', Of_object (hashtable_of hsh one_entry), False),
     (''replyTypedMap_2'', Of_object (hashtable_of hsh two_entries), False),
     (''replyTypedMap_3'', Of_object (hashtable_of hsh list_entry), False)]"

definition EncoderJavaTestCaseForMap :: "(obj \<Rightarrow> u64) \<Rightarrow> (string \<times> test_value) list" where
  "EncoderJavaTestCaseForMap hsh =
    [(''argUntypedMap_0'', Of_object (untyped_map_of hsh [])),
     (''argUntypedMap_1'', Of_object (untyped_map_of hsh one_entry)),
     (''argUntypedMap_2'', Of_object (untyped_map_of hsh two_entries)),
     (''argUntypedMap_3'', Of_object (untyped_map_of hsh list_entry)),
     (''argTypedMap_0'', Of_object (hashtable_of hsh [])),
     (''argTypedMap_1'', Of_object (hashtable_of hsh one_entry)),
     (''argTypedMap_2'', Of_object (hashtable_of hsh two_entries)),
     (''argTypedMap_3'', Of_object (hashtable_of hsh list_entry))]"

section \<open>Class instances\<close>

definition test_object :: "addr \<Rightarrow> i32 \<Rightarrow> obj" where
  "test_object a v = instance_of a ''com.caucho.hessian.test.TestObject'' [''_value''] [Integer_Obj v]"

text \<open>A cell whose rest is the cell itself.\<close>

definition test_cons :: obj where
  "test_cons = instance_of 0 ''com.caucho.hessian.test.TestCons'' [''_first'', ''_rest'']
     [String_Obj (ascii ''a''), Ref_Obj 0]"

definition A0_to_A16 :: obj where
  "A0_to_A16 = Untyped_List 0 (map (\<lambda>i. Class_Instance (Suc i)
     \<lparr>def_type = ascii ''com.caucho.hessian.test.A'' @ decimal i, field_names = []\<rparr> []) [0..<17])"

definition DecoderJavaTestCaseForClassInstance :: "(string \<times> test_value \<times> bool) list" where
  "DecoderJavaTestCaseForClassInstance =
    [(''replyObject_0'', Of_object (A0 0), False),
     (''replyObject_1'', Of_object (test_object 0 0), False),
     (''replyObject_2'', Of_object (Untyped_List 0 [test_object 1 0, test_object 2 1]), False),
     (''replyObject_2a'', Of_object (Untyped_List 0 [test_object 1 0, Ref_Obj 1]), True),
     (''replyObject_2b'', Of_object (Untyped_List 0 [test_object 1 0, test_object 2 0]), False),
     (''replyObject_3'', Of_object test_cons, True),
     (''replyObject_16'', Of_object A0_to_A16, False)]"

definition big_integer :: "i32 \<Rightarrow> obj" where
  "big_integer signum = instance_of 0 ''java.math.BigInteger''
     [''mag'', ''firstNonzeroIntNumPlusTwo'', ''lowestSetBitPlusTwo'', ''bitLengthPlusOne'', ''bitCountPlusOne'', ''signum'']
     [typed_list_of 1 ''[int'' (ints_of [1, 2]), Integer_Obj 0, Integer_Obj 0, Integer_Obj 0, Integer_Obj 0,
      Integer_Obj signum]"

definition custom_instances :: "(string \<times> test_value) list" where
  "custom_instances =
    [(''customArgTypedFixed_Integer'', Of_object (big_integer 1)),
     (''customArgTypedFixed_IntegerSigned'', Of_object (big_integer (- 2))),
     (''customArgTypedFixed_Decimal'',
       Of_object (instance_of 0 ''java.math.BigDecimal'' [''value''] (strings_of [''100.256'']))),
     (''customArgTypedFixed_Extends'',
       Of_object (instance_of 0 ''test.Dog'' [''name'', ''gender''] (strings_of [''a dog'', ''male'']))),
     (''customArgTypedFixed_DateNull'',
       Of_object (instance_of 0 ''test.model.DateDemo'' [''name'', ''date'', ''date1''] [Null_Obj, Null_Obj, Null_Obj]))]"

definition argument_instances :: "(string \<times> test_value) list" where
  "argument_instances =
    [(''argObject_0'', Of_object (A0 0)),
     (''argObject_1'', Of_object (test_object 0 0)),
     (''argObject_2'', Of_object (Untyped_List 0 [test_object 1 0, test_object 2 1])),
     (''argObject_2a'', Of_object (Untyped_List 0 [test_object 1 0, Ref_Obj 1])),
     (''argObject_2b'', Of_object (Untyped_List 0 [test_object 1 0, test_object 2 0])),
     (''argObject_3'', Of_object test_cons),
     (''argObject_16'', Of_object A0_to_A16)]"

definition EncoderJavaTestCaseForClassInstance :: "(string \<times> test_value) list" where
  "EncoderJavaTestCaseForClassInstance = custom_instances @ argument_instances"

text \<open>All of them.\<close>

definition decoder_tests :: "bool \<Rightarrow> (obj \<Rightarrow> u64) \<Rightarrow> (string \<times> test_value \<times> bool) list" where
  "decoder_tests java_lite hsh =
     DecoderJavaTestCaseForBool @ DecoderJavaTestCaseForDouble @ DecoderJavaTestCaseForInteger
     @ DecoderJavaTestCaseForDate @ DecoderJavaTestCaseForByte @ DecoderJavaTestCaseForString java_lite
     @ DecoderJavaTestCaseForList @ DecoderJavaTestCaseForMap hsh @ DecoderJavaTestCaseForClassInstance"

definition encoder_tests :: "(obj \<Rightarrow> u64) \<Rightarrow> (string \<times> test_value) list" where
  "encoder_tests hsh =
     EncoderJavaTestCaseForBool @ EncoderJavaTestCaseForDouble @ EncoderJavaTestCaseForInteger
     @ EncoderJavaTestCaseForDate @ EncoderJavaTestCaseForByte @ EncoderJavaTestCaseForString
     @ EncoderJavaTestCaseForList @ EncoderJavaTestCaseForMap hsh @ EncoderJavaTestCaseForClassInstance"

end
