(* ===== verification/Java_Tests_Pass.thy ===== *)
theory Java_Tests_Pass
  imports Java_Tests
begin

text \<open>
  The tests against Java pass, if the Java side conforms to the grammar: the decoder reads whatever
  form Java chooses, and what the encoder writes for each value of the tests is a text of it.
\<close>

section \<open>The values of the tests can be sent\<close>

lemma scalar_text_ok: "scalar_text s n \<Longrightarrow> n < 2 ^ 31 \<Longrightarrow> string_ok java_lite s"
  unfolding scalar_text_def using scalar_string_ok(1) by fastforce

lemma ascii_text: "list_all (\<lambda>c. (of_char c :: nat) < 128) s \<Longrightarrow> scalar_text (ascii s) (length s)"
  using ascii_scalar_text [of "ascii s"] by (auto simp: ascii_def list_all_iff unat_of_nat)

lemma ascii_ok: "list_all (\<lambda>c. (of_char c :: nat) < 128) s \<Longrightarrow> length s < 2 ^ 31 \<Longrightarrow> string_ok java_lite (ascii s)"
  using ascii_text scalar_text_ok by blast

lemma length_resize: "length (resize n s) = n"
  by (simp add: resize_def)

lemma resize_ascii: "\<forall>b \<in> set s. unat b < 128 \<Longrightarrow> scalar_text (resize n s) n"
proof -
  assume "\<forall>b \<in> set s. unat b < 128"
  then have "\<forall>b \<in> set (resize n s). unat b < 128" by (auto simp: resize_def dest: in_set_takeD)
  then show ?thesis using ascii_scalar_text length_resize by metis
qed

lemma generated_texts:
  "scalar_text GenerateString1023 1023" "scalar_text GenerateString1024 1024" "scalar_text GenerateString65536 65536"
  unfolding GenerateString1023_def GenerateString1024_def GenerateString65536_def
  by (rule resize_ascii; auto simp: ascii_def dest: decimal_ascii)+

lemma empty_string_ok: "string_ok java_lite []"
  using ascii_ok [of "[]"] by (simp add: ascii_def)

lemma generated_ok:
  "string_ok java_lite GenerateString1023" "string_ok java_lite GenerateString1024"
  "string_ok java_lite GenerateString65536" "string_ok java_lite GenerateComplexString"
  "string_ok java_lite GenerateSuperComplexString" "string_ok java_lite GenerateEmojiString"
  by (rule scalar_text_ok, rule generated_texts GenerateComplexString_text GenerateSuperComplexString_text
      GenerateEmojiString_text, simp)+

lemma numbered_type_text: "i < 1000 \<Longrightarrow> scalar_text (ascii ''com.caucho.hessian.test.A'' @ decimal i) 1100"
proof -
  assume i: "i < 1000"
  have len: "length (decimal n) \<le> n + 1" for n
    by (induction n rule: decimal.induct) (subst decimal.simps, auto)
  have "scalar_text (decimal i) (length (decimal i))" using decimal_ascii by (intro ascii_scalar_text) blast
  then have "scalar_text (ascii ''com.caucho.hessian.test.A'' @ decimal i) (25 + length (decimal i))"
    using scalar_text_append [OF ascii_text [of "''com.caucho.hessian.test.A''"]] by (simp add: eval_nat_numeral)
  then show ?thesis using i len [of i] by (auto simp: scalar_text_def)
qed

lemma numbered_type_ok: "i < 1000 \<Longrightarrow> string_ok java_lite (ascii ''com.caucho.hessian.test.A'' @ decimal i)"
  by (rule scalar_text_ok [OF numbered_type_text]) simp_all

text \<open>The values without parts.\<close>

lemmas eval_bits = f64_is_nan_def f64_exp_def f64_frac_def f64_neg_zero_def

lemma sendable_doubles: "list_all (sendable java_lite hsh \<circ> snd) EncoderJavaTestCaseForDouble"
  by (simp add: EncoderJavaTestCaseForDouble_def sendable_def f64_of_int_not_nan f64_of_int_not_neg_zero)
    (simp add: eval_bits)

lemma sendable_values:
  "list_all (sendable java_lite hsh \<circ> snd) EncoderJavaTestCaseForBool"
  "list_all (sendable java_lite hsh \<circ> snd) EncoderJavaTestCaseForInteger"
  "list_all (sendable java_lite hsh \<circ> snd) EncoderJavaTestCaseForDate"
  "list_all (sendable java_lite hsh \<circ> snd) EncoderJavaTestCaseForByte"
  "list_all (sendable java_lite hsh \<circ> snd) EncoderJavaTestCaseForString"
  subgoal by (simp add: EncoderJavaTestCaseForBool_def sendable_def)
  subgoal by (simp add: EncoderJavaTestCaseForInteger_def sendable_def)
  subgoal by (simp add: EncoderJavaTestCaseForDate_def sendable_def date_ok_def)
  subgoal by (simp add: EncoderJavaTestCaseForByte_def sendable_def length_resize) (simp add: ascii_def)
  subgoal by (simp add: EncoderJavaTestCaseForString_def sendable_def generated_ok ascii_ok empty_string_ok)
  done

text \<open>Objects: their types and strings are texts, their addresses in order, no keys of a map equal.\<close>

lemmas test_objects = strings_of_def ints_of_def typed_list_of_def instance_of_def A0_def A1_def
  GenerateTypedListTestObject_def test_object_def test_cons_def big_integer_def

lemma self_equal_values [simp]:
  "self_equal hsh Null_Obj" "self_equal hsh (Integer_Obj i)" "self_equal hsh (Long_Obj l)"
  "self_equal hsh (Boolean_Obj b)" "self_equal hsh (Date_Obj t)" "self_equal hsh (String_Obj s)"
  "self_equal hsh (Ref_Obj a)"
  by (simp_all add: self_equal.simps)

lemma sendable_lists: "list_all (sendable java_lite hsh \<circ> snd) EncoderJavaTestCaseForList"
  by (simp add: EncoderJavaTestCaseForList_def number_lists_def boolean_and_date_lists_def nested_lists_def
      string_lists_def sendable_def test_objects ascii_ok f64_of_int_not_nan
      f64_of_int_not_neg_zero date_ok_def)

lemma test_maps:
  "hash_map hsh [] = []" "hash_map hsh one_entry = one_entry" "hash_map hsh two_entries = two_entries"
  "hash_map hsh list_entry = list_entry"
  by (simp_all add: hash_map_def one_entry_def two_entries_def list_entry_def append_entry_def map_find_def)

lemma sendable_maps: "list_all (sendable java_lite hsh \<circ> snd) (EncoderJavaTestCaseForMap hsh)"
  by (simp add: EncoderJavaTestCaseForMap_def sendable_def untyped_map_of_def hashtable_of_def test_maps)
    (simp add: one_entry_def two_entries_def list_entry_def ascii_ok is_ref_def map_find_def)

lemma up_to_16: "[0..<17] = [0, 1, 2, 3, 4, 5, 6, 7, 8, 9, 10, 11, 12, 13, 14, 15, 16 :: nat]"
  by (simp add: upt_rec)

lemma sendable_A0_to_A16: "sendable java_lite hsh (Of_object A0_to_A16)"
  by (simp add: sendable_def A0_to_A16_def up_to_16 numbered_type_ok)

lemma sendable_instances: "list_all (sendable java_lite hsh \<circ> snd) EncoderJavaTestCaseForClassInstance"
  by (simp add: EncoderJavaTestCaseForClassInstance_def custom_instances_def argument_instances_def sendable_A0_to_A16)
    (simp add: sendable_def test_objects ascii_ok)

lemma sendable_tests: "list_all (sendable java_lite hsh \<circ> snd) (encoder_tests hsh)"
  by (simp add: encoder_tests_def sendable_values sendable_doubles sendable_lists sendable_maps sendable_instances)

section \<open>Property\<close>


section \<open>A Java program that conforms\<close>

text \<open>It answers with what the encoder writes for the expected value, and accepts everything.\<close>

definition written :: "test_value \<Rightarrow> bytes" where
  "written w = encoded (encode_same True (\<lambda>_. 0) w)"

definition answers :: "(string \<times> test_value \<times> bool) list \<Rightarrow> read_pipe" where
  "answers tests = map_of (map (\<lambda>(n, w, ignored). (decoder_command n, written w)) tests)"

definition date_answers :: "(string \<times> test_value \<times> bool) list" where
  "date_answers = [(''replyDate_0'', Of_milliseconds 0, False), (''replyDate_1'', Of_milliseconds 894621091000, False),
     (''replyDate_2'', Of_milliseconds 894621060000, False)]"

definition example_answers :: "(string \<times> test_value \<times> bool) list" where
  "example_answers = date_answers @ DecoderJavaTestCaseForBool @ DecoderJavaTestCaseForDouble
     @ DecoderJavaTestCaseForInteger @ DecoderJavaTestCaseForByte @ DecoderJavaTestCaseForString True
     @ DecoderJavaTestCaseForList @ DecoderJavaTestCaseForMap (\<lambda>_. 0) @ DecoderJavaTestCaseForClassInstance"

definition example_java :: read_pipe where
  "example_java = answers example_answers"

definition accepting_java :: write_pipe where
  "accepting_java = (\<lambda>command. Some \<lparr>fwrite_size = length,
     files_after = (\<lambda>input file. if file = ''out'' then ascii ''true'' else [])\<rparr>)"

lemma answers_name:
  "distinct (map fst tests) \<Longrightarrow> (n, w, ignored) \<in> set tests \<Longrightarrow> answers tests (decoder_command n) = Some (written w)"
proof (induction tests)
  case (Cons t tests)
  show ?case
  proof (cases "t = (n, w, ignored)")
    case False
    then have t: "(n, w, ignored) \<in> set tests" using Cons.prems(2) by simp
    then have "n \<in> fst ` set tests" by force
    then have "fst t \<noteq> n" using Cons.prems(1) by auto
    then show ?thesis using Cons t by (auto simp: answers_def decoder_command_def split: prod.splits)
  qed (simp add: answers_def)
qed simp

lemma example_names: "distinct (map fst example_answers)"
  by (simp add: example_answers_def date_answers_def DecoderJavaTestCaseForBool_def DecoderJavaTestCaseForDouble_def
      DecoderJavaTestCaseForInteger_def DecoderJavaTestCaseForByte_def DecoderJavaTestCaseForString_def
      DecoderJavaTestCaseForList_def DecoderJavaTestCaseForMap_def DecoderJavaTestCaseForClassInstance_def)

text \<open>What makes an answer good.\<close>

definition good :: "string \<times> test_value \<times> bool \<Rightarrow> bool" where
  "good = (\<lambda>(n, w, ignored). length (written w) < 2 ^ 63
     \<and> (\<exists>p. reply_text True (append_entry (\<lambda>_. 0)) (written w) p \<and> denotes (\<lambda>_. 0) ignored p w))"

lemma good_replies: "c \<in> set example_answers \<Longrightarrow> good c \<Longrightarrow> java_replies example_java True (\<lambda>_. 0) c"
  using answers_name [OF example_names] by (auto simp: good_def java_replies_def example_java_def)

lemma encodes_encoded: "encodes m bs \<Longrightarrow> encoded m = bs"
  by (simp add: encoded_def encodesD new_encoder_def)

lemma leaf_reply:
  assumes "leaf_text java_lite bs p" shows "reply_text java_lite emp bs p"
proof -
  obtain c cs where c: "bs = c # cs" "leaf_code p c" using leaf_text_first [OF assms] by blast
  then have "c \<noteq> 0x43"
    by (auto simp: leaf_code_def code_defs split: obj.splits)
  then show ?thesis using assms c value_text_values_text_entries_text.leaf [OF assms]
    by (cases p) (auto simp: reply_text_def leaf_code_def)
qed

lemma good_leaf:
  assumes "sendable True (\<lambda>_. 0) w" and "\<not> (\<exists>p. w = Of_object p)" and "length (written w) < 2 ^ 63"
  shows "good (n, w, ignored)"
proof -
  obtain bs p where bs: "encodes (encode_same True (\<lambda>_. 0) w) bs" "leaf_text True bs p" "denotes (\<lambda>_. 0) ignored p w"
    using sendable_leaf [OF assms(1,2), of "\<lambda>_. 0" ignored] by blast
  then have "written w = bs" by (simp add: written_def encodes_encoded)
  then show ?thesis using bs(3) leaf_reply [OF bs(2)] assms(3) by (auto simp: good_def)
qed

lemma good_object:
  assumes "sendable True (\<lambda>_. 0) (Of_object q)" and "obj_type_of q \<noteq> T_Class"
    and "hd (written (Of_object q)) \<noteq> 0x43" and "length (written (Of_object q)) < 2 ^ 63"
  shows "good (n, Of_object q, ignored)"
proof -
  obtain e p T where e: "encode_same True (\<lambda>_. 0) (Of_object q) (new_encoder []) = (Ret True, e)"
      "value_text True (append_entry (\<lambda>_. 0)) no_tables (e_out e) p T" "denotes (\<lambda>_. 0) ignored p (Of_object q)"
    using sendable_text [OF assms(1), of "\<lambda>_. 0" ignored] by blast
  then have w: "written (Of_object q) = e_out e" by (simp add: written_def encoded_def)
  have "obj_type_of p \<noteq> T_Class" using e(3) assms(2) by (simp add: denotes_def)
  then have "reply_text True (append_entry (\<lambda>_. 0)) (e_out e) p"
    using assms(3) e(2) by (cases p) (auto simp: reply_text_def w)
  then show ?thesis using e(3) assms(4) by (auto simp: good_def w)
qed

text \<open>The lengths of the answers.\<close>

lemma length_binary: "length (binary_text (split_chunks data)) \<le> 4 * length data + 3"
proof (induction data rule: split_chunks.induct)
  case (1 data)
  show ?case
  proof (cases "1024 < length data")
    case True
    then show ?thesis using 1 by (subst split_chunks.simps) simp
  qed (subst split_chunks.simps, simp)
qed

lemma length_binary_of: "length (binary_text (binary_of data)) \<le> 4 * length data + 3"
  using length_binary [of data] by (simp add: binary_of_def)

lemma written_values:
  "written (Of_bool b) = bool_repr b" "written (Of_int32 i) = i32_repr i" "written (Of_int64 l) = i64_repr l"
  "written (Of_double x) = double_repr (\<lambda>_. 0) x" "written (Of_milliseconds t) = date_repr (sint t)"
  "length bs \<le> 2 ^ 32 \<Longrightarrow> written (Of_bytes bs) = binary_text (binary_of bs)"
  "string_ok True s \<Longrightarrow> written (Of_string s) = string_repr True s"
  by (simp_all add: written_def encode_same_def encodes_encoded bool_codec.enc_repr encode_i32_encodes
      encode_i64_encodes encode_double_encodes encode_milliseconds_encodes encode_bytes_encodes encode_string_encodes)

lemma written_short:
  "length (written (Of_bool b)) < 2 ^ 63" "length (written (Of_int32 i)) < 2 ^ 63"
  "length (written (Of_int64 l)) < 2 ^ 63" "length (written (Of_double x)) < 2 ^ 63"
  "length (written (Of_milliseconds t)) < 2 ^ 63"
  "length bs \<le> 2 ^ 32 \<Longrightarrow> length (written (Of_bytes bs)) < 2 ^ 63"
  using length_binary_of [of bs]
  by (simp_all add: written_values bool_repr_def i32_repr_def i64_repr_def double_repr_def date_repr_def Let_def)

lemma written_string:
  assumes "scalar_text s n" and "n < 2 ^ 31" shows "length (written (Of_string s)) < 2 ^ 63"
proof -
  obtain cs where cs: "\<forall>c \<in> set cs. scalar_char c" "s = concat cs" "length s \<le> n"
    using assms(1) by (auto simp: scalar_text_def)
  then have "length (string_repr True s) < 2 ^ 63" using assms(2) scalar_string_ok(2) [OF cs(1)] by simp
  then show ?thesis using written_values(7) [OF scalar_text_ok [OF assms]] by simp
qed

lemmas good_value = good_leaf [OF _ _ written_short(1)] good_leaf [OF _ _ written_short(2)]
  good_leaf [OF _ _ written_short(3)] good_leaf [OF _ _ written_short(4)] good_leaf [OF _ _ written_short(5)]
  good_leaf [OF _ _ written_short(6)]

lemma good_text: "scalar_text s n \<Longrightarrow> n < 2 ^ 31 \<Longrightarrow> good (name, Of_string s, ignored)"
  using scalar_text_ok [of s n True] written_string [of s n] by (intro good_leaf) (simp_all add: sendable_def)

lemma good_ascii: "list_all (\<lambda>c. (of_char c :: nat) < 128) s \<Longrightarrow> length s < 2 ^ 31 \<Longrightarrow> good (name, Of_string (ascii s), ignored)"
  by (rule good_text [OF ascii_text])

lemma ascii_empty: "ascii [] = []"
  by (simp add: ascii_def)

lemma good_values:
  "list_all good date_answers" "list_all good DecoderJavaTestCaseForBool"
  "list_all good DecoderJavaTestCaseForDouble" "list_all good DecoderJavaTestCaseForInteger"
  "list_all good DecoderJavaTestCaseForByte" "list_all good (DecoderJavaTestCaseForString True)"
  subgoal by (simp add: date_answers_def good_value sendable_def date_ok_def)
  subgoal by (simp add: DecoderJavaTestCaseForBool_def good_value sendable_def)
  subgoal by (simp add: DecoderJavaTestCaseForDouble_def good_value sendable_def f64_of_int_not_nan f64_of_int_not_neg_zero)
    (simp add: eval_bits good_value sendable_def)
  subgoal by (simp add: DecoderJavaTestCaseForInteger_def good_value sendable_def)
  subgoal by (simp add: DecoderJavaTestCaseForByte_def good_value sendable_def length_resize ascii_def)
  subgoal
    using good_ascii [of "[]"] by (simp add: DecoderJavaTestCaseForString_def good_ascii ascii_empty
      good_text [OF generated_texts(1)] good_text [OF generated_texts(2)] good_text [OF generated_texts(3)]
      good_text [OF GenerateComplexString_text] good_text [OF GenerateSuperComplexString_text]
      good_text [OF GenerateEmojiString_text])
  done

text \<open>The containers: their texts are computed.\<close>

lemmas eval_reply = eval_encode encode_same_def encoded_def emplace_def encode_ref_def getValueRef_def
  encode_null_def written_def

lemma good_lists: "list_all good DecoderJavaTestCaseForList"
  unfolding DecoderJavaTestCaseForList_def list.pred_inject
  by (intro conjI TrueI good_object; (simp add: sendable_def test_objects ascii_ok; fail)?, (simp add: test_objects eval_reply)?)

lemma map_types: "obj_type_of (untyped_map_of hsh kvs) \<noteq> T_Class" "obj_type_of (hashtable_of hsh kvs) \<noteq> T_Class"
  by (simp_all add: untyped_map_of_def hashtable_of_def)

lemma map_answers:
  assumes "kvs \<in> {[], one_entry, two_entries, list_entry}"
  shows "hd (written (Of_object (untyped_map_of hsh kvs))) \<noteq> 0x43"
    and "length (written (Of_object (untyped_map_of hsh kvs))) < 2 ^ 63"
    and "hd (written (Of_object (hashtable_of hsh kvs))) \<noteq> 0x43"
    and "length (written (Of_object (hashtable_of hsh kvs))) < 2 ^ 63"
  unfolding untyped_map_of_def hashtable_of_def using assms
  by (auto simp: test_maps) (simp_all add: one_entry_def two_entries_def list_entry_def eval_reply)

lemma good_maps: "list_all good (DecoderJavaTestCaseForMap (\<lambda>_. 0))"
  using sendable_maps [of True "\<lambda>_. 0"]
  unfolding DecoderJavaTestCaseForMap_def EncoderJavaTestCaseForMap_def
  by (auto intro!: good_object map_answers simp: map_types)

text \<open>An instance is preceded by its definition.\<close>

lemma good_instance:
  assumes "\<forall>s \<in> set (ty # names). list_all (\<lambda>c. (of_char c :: nat) < 128) s \<and> length s < 2 ^ 31"
    and "length vs = length names" and "length names < 2 ^ 31"
    and "values_text True (append_entry (\<lambda>_. 0)) (with_def \<lparr>def_type = ascii ty, field_names = map ascii names\<rparr>) cs vs T"
    and "written (Of_object (instance_of 0 ty names vs)) = (0x43 # string_repr True (ascii ty) @ i32_repr (of_nat (length names))
      @ concat (map (string_repr True) (map ascii names))) @ [0x60] @ cs"
    and "length (written (Of_object (instance_of 0 ty names vs))) < 2 ^ 63"
    and "ignored \<or> self_equal (\<lambda>_. 0) (instance_of 0 ty names vs)"
  shows "good (n, Of_object (instance_of 0 ty names vs), ignored)"
proof -
  let ?df = "\<lparr>def_type = ascii ty, field_names = map ascii names\<rparr>"
  have ok: "string_ok True (ascii s)" if "s \<in> set (ty # names)" for s using assms(1) that by (intro ascii_ok) auto
  have "class_def_text True (0x43 # string_repr True (def_type ?df) @ i32_repr (of_nat (length (field_names ?df)))
      @ concat (map (string_repr True) (field_names ?df))) ?df"
    using assms(3) ok by (intro class_def_text.intros string_repr_leaf count_repr strings_repr) auto
  then have ds: "class_def_text True (0x43 # string_repr True (ascii ty) @ i32_repr (of_nat (length names))
      @ concat (map (string_repr True) (map ascii names))) ?df" by simp
  have rs: "def_ref_text_of (with_def ?df) [0x60] ?df"
    using def_ref_text_of.def_short [of 0 "with_def ?df" "0x60"] by (simp add: with_def_def)
  have "reply_text True (append_entry (\<lambda>_. 0)) (written (Of_object (instance_of 0 ty names vs))) (instance_of 0 ty names vs)"
    unfolding assms(5) unfolding reply_text_def instance_of_def obj.case
    by (intro conjI exI, rule refl, simp add: assms(2), rule refl, rule ds, rule rs, rule assms(4))
  moreover have "denotes (\<lambda>_. 0) ignored (instance_of 0 ty names vs) (Of_object (instance_of 0 ty names vs))"
    using assms(7) self_equal_equal by (auto simp: denotes_def)
  ultimately show ?thesis using assms(6) by (auto simp: good_def)
qed

lemma repr_written: "string_ok True s \<Longrightarrow> string_repr True s = encoded (encode_string True s)"
  by (simp add: encodes_encoded [OF encode_string_encodes])

text \<open>The long list of instances is not computed byte by byte: the names stay as they are.\<close>

lemma string_repr_length: "scalar_text s n \<Longrightarrow> n < 2 ^ 31 \<Longrightarrow> length (string_repr True s) < 2 ^ 35"
proof -
  assume "scalar_text s n" "n < 2 ^ 31"
  then obtain cs where cs: "\<forall>c \<in> set cs. scalar_char c" "s = concat cs" "length s < 2 ^ 31"
    by (auto simp: scalar_text_def)
  have utf8: "\<forall>c \<in> set cs. utf8_char c" using cs(1) scalar_char_utf8 by blast
  have "length (concat (escaped cs)) < 2 ^ 32" using escaped_length [OF cs(1)] cs(2,3) by simp
  moreover have "length (escaped cs) \<le> length (concat (escaped cs))"
    using escaped_utf8 [OF cs(1)] by (intro length_concat_chars) auto
  ultimately show ?thesis
    using text_bytes_length [of "escaped cs"] chars_concat [OF utf8] cs(2) by (simp add: string_repr_def sent_chars_def)
qed

definition A_name :: "nat \<Rightarrow> bytes" where
  "A_name i = ascii ''com.caucho.hessian.test.A'' @ decimal i"

lemma decimal_inj: "decimal i = decimal j \<longleftrightarrow> i = j"
proof
  have val: "foldl (\<lambda>a b. 10 * a + (unat b - 0x30)) 0 (decimal n) = n" for n
  proof (induction n rule: decimal.induct)
    case (1 n)
    have "unat (of_nat (0x30 + n mod 10) :: u8) = 0x30 + n mod 10"
      by (simp add: unat_of_nat del: of_nat_add)
    moreover have "n < 10 \<Longrightarrow> unat (of_nat (0x30 + n) :: u8) = 0x30 + n"
      by (simp add: unat_of_nat del: of_nat_add)
    ultimately show ?case using 1 by (subst decimal.simps) (simp del: of_nat_add)
  qed
  show "i = j" if "decimal i = decimal j" using val [of i] val [of j] that by argo
qed simp

lemma A_name_simps:
  "A_name i = A_name j \<longleftrightarrow> i = j"
  "i < 1000 \<Longrightarrow> encode_string True (A_name i) e = (Ret True, emit (string_repr True (A_name i)) e)"
  using encodesD [OF encode_string_encodes [OF numbered_type_ok [of i True]]]
  by (simp_all add: A_name_def decimal_inj)

lemma A_name_length: "i < 1000 \<Longrightarrow> length (string_repr True (A_name i)) < 2 ^ 35"
  unfolding A_name_def using numbered_type_text [of i] by (rule string_repr_length) simp_all

lemma long_list_answer:
  "hd (written (Of_object A0_to_A16)) \<noteq> 0x43" "length (written (Of_object A0_to_A16)) < 2 ^ 63"
proof -
  note eval = A0_to_A16_def up_to_16 A_name_simps A_name_def [symmetric] written_def encode_same_def encoded_def
     encode_untyped_list_def encode_class_instance_def register_def encode_raw_definition_def getDefRef_def
     encode_def_fuel_numeral and_then_run Let_def emplace_def encode_i32_def
  show "hd (written (Of_object A0_to_A16)) \<noteq> 0x43" by (simp add: eval)
  show "length (written (Of_object A0_to_A16)) < 2 ^ 63"
    using A_name_length [of 0] A_name_length [of 1] A_name_length [of 2] A_name_length [of 3] A_name_length [of 4]
      A_name_length [of 5] A_name_length [of 6] A_name_length [of 7] A_name_length [of 8] A_name_length [of 9]
      A_name_length [of 10] A_name_length [of 11] A_name_length [of 12] A_name_length [of 13] A_name_length [of 14]
      A_name_length [of 15] A_name_length [of 16]
    by (simp add: eval)
qed

lemma good_instances: "list_all good DecoderJavaTestCaseForClassInstance"
proof -
  note nil = value_text_values_text_entries_text.values_nil
    and leaf_values = value_text_values_text_entries_text.values_cons [OF value_text_values_text_entries_text.leaf]
  have 0: "good (n, Of_object (A0 0), ignored)" for n ignored
    unfolding A0_def
    by (rule good_instance [OF _ _ _ nil]) (simp_all add: repr_written ascii_ok, simp_all add: instance_of_def eval_reply i32_repr_def)
  have 1: "good (n, Of_object (test_object 0 0), ignored)" for n ignored
    unfolding test_object_def
    by (rule good_instance [OF _ _ _ leaf_values [OF i32_repr_leaf nil]])
       (simp_all add: repr_written ascii_ok, simp_all add: instance_of_def eval_reply i32_repr_def)
  have ref: "count_text [0x90] 0" using count_repr [of 0] by (simp add: i32_repr_def)
  have "value_text True (append_entry (\<lambda>_. 0)) (with_def df) (0x51 # [0x90]) (Ref_Obj (t_vals (with_def df) ! 0)) (with_def df)" for df
    by (rule value_text_values_text_entries_text.ref [OF ref]) (simp add: with_def_def add_value_def)
  then have self: "value_text True (append_entry (\<lambda>_. 0)) (with_def df) [0x51, 0x90] (Ref_Obj 0) (with_def df)" for df
    by (simp add: with_def_def add_value_def no_tables_def)
  have 3: "good (n, Of_object test_cons, ignored)" for n ignored
    unfolding test_cons_def
    by (rule good_instance [OF _ _ _ leaf_values [OF string_repr_leaf [OF ascii_ok]
          value_text_values_text_entries_text.values_cons [OF self nil]]])
       (simp_all add: repr_written ascii_ok, simp_all add: instance_of_def eval_reply i32_repr_def)
  have 16: "good (n, Of_object A0_to_A16, ignored)" for n ignored
    by (rule good_object [OF sendable_A0_to_A16 _ long_list_answer]) (simp add: A0_to_A16_def)
  have 2: "good (n, Of_object (Untyped_List 0 [test_object 1 0, p]), ignored)"
    if "p \<in> {test_object 2 1, Ref_Obj 1, test_object 2 0}" for n p ignored
  proof (rule good_object)
    show "sendable True (\<lambda>_. 0) (Of_object (Untyped_List 0 [test_object 1 0, p]))"
      using sendable_instances [of True "\<lambda>_. 0"] that by (auto simp: EncoderJavaTestCaseForClassInstance_def argument_instances_def)
    show "hd (written (Of_object (Untyped_List 0 [test_object 1 0, p]))) \<noteq> 0x43"
      "length (written (Of_object (Untyped_List 0 [test_object 1 0, p]))) < 2 ^ 63"
      using that by (elim insertE emptyE; simp add: test_object_def instance_of_def eval_reply)+
  qed simp
  show ?thesis
    unfolding DecoderJavaTestCaseForClassInstance_def list.pred_inject
    by (intro conjI list.pred_inject(1) 0 1 2 3 16) simp_all
qed

text \<open>The other tests of dates read the same answers in other units.\<close>

lemma date_replies:
  assumes "(n, Of_milliseconds t, False) \<in> set date_answers" and "denotes (\<lambda>_. 0) False (Date_Obj t) w" and "date_ok (sint t)"
  shows "java_replies example_java True (\<lambda>_. 0) (n, w, False)"
proof -
  have "leaf_text True (written (Of_milliseconds t)) (Date_Obj t)"
    using date_repr_leaf [OF assms(3)] by (simp add: written_values)
  then have "reply_text True (append_entry (\<lambda>_. 0)) (written (Of_milliseconds t)) (Date_Obj t)" by (rule leaf_reply)
  moreover have "example_java (decoder_command n) = Some (written (Of_milliseconds t))"
    using answers_name [OF example_names, of n _ False] assms(1) by (simp add: example_java_def example_answers_def)
  ultimately show ?thesis
    using assms(2) written_short(5) [of t] by (auto simp: java_replies_def)
qed

lemma example_dates: "list_all (java_replies example_java True (\<lambda>_. 0)) DecoderJavaTestCaseForDate"
proof -
  have "java_replies example_java True (\<lambda>_. 0) (''replyDate_0'', w, False)" if "denotes (\<lambda>_. 0) False (Date_Obj 0) w" for w
    by (rule date_replies [OF _ that]) (simp_all add: date_answers_def date_ok_def)
  moreover have "java_replies example_java True (\<lambda>_. 0) (''replyDate_1'', w, False)"
    if "denotes (\<lambda>_. 0) False (Date_Obj 894621091000) w" for w
    by (rule date_replies [OF _ that]) (simp_all add: date_answers_def date_ok_def)
  moreover have "java_replies example_java True (\<lambda>_. 0) (''replyDate_2'', w, False)"
    if "denotes (\<lambda>_. 0) False (Date_Obj 894621060000) w" for w
    by (rule date_replies [OF _ that]) (simp_all add: date_answers_def date_ok_def)
  ultimately show ?thesis by (simp add: DecoderJavaTestCaseForDate_def denotes_def tdiv_def)
qed

lemma example_java_replies: "list_all (java_replies example_java True (\<lambda>_. 0)) (decoder_tests True (\<lambda>_. 0))"
proof -
  have "list_all (java_replies example_java True (\<lambda>_. 0)) example_answers"
    using good_values good_lists good_maps good_instances good_replies
    unfolding example_answers_def list_all_append by (auto simp: list_all_iff example_answers_def)
  then show ?thesis using example_dates by (simp add: example_answers_def decoder_tests_def)
qed

lemma accepting_java_accepts: "list_all (java_accepts accepting_java ''err'' ''out'' True (\<lambda>_. 0)) (encoder_tests (\<lambda>_. 0))"
  by (auto simp: list_all_iff java_accepts_def accepting_java_def)


end
