(* ===== verification/Spec2Isabelle.thy ===== *)
theory Spec2Isabelle
  imports Byte_Order Reader Writer Codec Bool_Codec Number_Codec Double_Codec Date_Codec
    Byte_Codec String_Codec String_Surrogates Ref_Codec Object_Model List_Codec Map_Codec Object_Codec Object_Safety
    Object_Grammar Object_Round_Trip Object_Evaluation Object_Invariant Object_Weight Object_Properties
    Object_Dispatch Object_Aborts Object_Reports Custom_Type Examples Number_Tests Object_Tests Codec_Tests String_Tests Reader_Writer_Tests
    Model_Tests Java_Framework Java_Replies Java_Tests Java_Tests_Pass
begin

text \<open>
  A verification development for hessian2-codec, a C++ library that writes and reads the binary
  serialisation format Hessian 2.0.

  \<^bold>\<open>The program.\<close> A \<open>Decoder\<close> (src/hessian2/codec.hpp) owns a \<open>Reader\<close> over a buffer and three
  tables, of the types, of the class definitions and of the objects it has seen; an \<open>Encoder\<close> owns a
  \<open>Writer\<close> and the three tables of the other side. \<open>decode<T>\<close> and \<open>encode<T>\<close> have a
  specialisation for every type of the format (src/hessian2/basic_codec); the one for \<open>Object\<close>
  dispatches on the first byte, or on the class of the object, to the others, which call it back for
  the elements of lists, maps and class instances. A repeated type name or definition travels as its
  index in a table, a shared object as a back reference. The two sides agree only as long as their
  tables stay in step: that, with the many encodings of one value, is what there is to prove.

  \<^bold>\<open>Theories and code\<close> (paths under src/hessian2).
  Prelude: the machine types; \<open>result\<close>, the outcome of a call (\<open>Ret v\<close>; \<open>Null\<close>, a null pointer;
  \<open>Abort\<close>, an assertion, an exception or a read outside of the buffer; \<open>Hang\<close>, no return) and its state
  monad \<open>comp\<close>.
  Byte_Order: byte_order.h. Reader: reader.hpp, reader.cc, string_reader.hpp and the reader of
  example/reader_writer.cc, two interpretations of the interface \<open>reader_impl\<close>. Writer: writer.hpp,
  string_writer.hpp and the writer of that example, behind an interface as well. Codec: codec.hpp, the
  records \<open>decoder\<close> and \<open>encoder\<close>, their primitive steps and the contract \<open>value_codec\<close> of a pair of
  specialisations without tables, which Bool_Codec, Number_Codec, Double_Codec, Date_Codec, Byte_Codec,
  String_Codec and Custom_Type interpret.
  Bool_Codec to String_Codec: bool_codec.cc, number_codec.cc with number_codec.hpp, date_codec.cc,
  byte_codec.cc and string_codec.cc; String_Surrogates: its splitting of four-byte characters.
  Ref_Codec: type_ref_codec.cc, def_ref_codec.cc, ref_object_codec.cc and the streaming operations of
  codec.cc; the contract \<open>table_codec\<close> of a pair that keeps tables.
  Object_Model: object.hpp and ../common/common.h: the datatype \<open>obj\<close> with a constructor for each
  subclass, type tags, accessors, equality, hash values, lookups, setters, debug strings. A container
  carries its address. The hash table of the abseil library is a function that inserts into a list of
  entries, with the contract \<open>emplace_contract\<close>.
  List_Codec, Map_Codec, Object_Codec: list_codec.cc, map_codec.cc, class_instance_codec.cc and
  object_codec.cc, composed as the code composes them.
  Custom_Type and Examples: \<open>decode<T>\<close> for a type of the user, the programs of ../example and ../demo.
  Number_Tests, Object_Tests, Codec_Tests and String_Tests: the unit tests under basic_codec;
  Reader_Writer_Tests: string_reader_unittests.cc and string_writer_unittests.cc; Model_Tests:
  object_unittests.cc. A test is a proposition, named after it.
  Java_Framework and Java_Tests: the fixtures of test_framework, and the tests that send texts to a Java
  program or compare with its answers, each the list of its cases.

  \<^bold>\<open>What the lemmas show.\<close>
  Values without tables: every encoder writes the shortest form (\<open>i32_repr\<close>, \<open>string_repr\<close>), every
  decoder gives back the value and stops right after it; the decoders accept every other form of the
  grammar too. String_Surrogates: with the flag for the Java implementation, a string of Unicode scalar
  values survives being split into surrogates of three bytes and joined again. The reader refuses what is not in its buffer, with the exception found for \<open>peek\<close>.
  Tables: \<open>reads\<close> and \<open>writes\<close> of Ref_Codec say what a step does to bytes and tables at once, so that a
  sequence of encoders and the sequence of the decoders stay in step.
  Objects: Object_Grammar defines the texts of objects inductively (\<open>value_text\<close>) and shows that the
  decoder reads every one of them; Object_Round_Trip that the encoder writes one, which gives the round
  trip of objects and of streams of objects, of maps in any order of the hash table, and of objects
  to themselves when that order is the one of insertion. Object_Safety: the decoder ends on every
  input and stays in its buffer. Object_Invariant: on every
  input its tables only grow and hold the addresses it has given out, and what it decodes is well typed
  over them. Object_Weight: a decoded object is no larger than the bytes it was read from.
  Object_Dispatch: its class is the one the documentation names for the first byte. Object_Aborts: it
  aborts for two reasons only, a negative field count and a reference among the keys of a map.
  Object_Reports: the encoder of objects always returns, but reports only what is wrong with the object
  itself, nothing about its parts. Object_Evaluation and Object_Properties: the behaviours on inputs that no
  encoder writes, equality against hash values, debug strings.
  Tests: the model passes the unit tests of the repository that run without Java, which ties it to the
  behaviour of the code; those of hash values, exactly when the hash functions separate the values.
  Java_Replies and Java_Tests_Pass: it passes those with Java, if Java conforms to the grammar, that is,
  answers with some text for an object equal to the expected one and accepts every text for the value
  of the test.

  \<^bold>\<open>Bounds and fuel.\<close> Positions are 64 bits wide; a buffer is shorter than 2 ^ 63 bytes. The indices of the
  encoder's tables are \<open>uint16_t\<close> and looked up as \<open>int16_t\<close>, hence the limit of 32768 containers,
  types and definitions in the round trips. The chunk loops take the number of unread bytes plus one as
  fuel, and so does \<open>decode_object\<close>: each round and each nested call consumes a byte, and
  Object_Safety shows that more fuel changes nothing. A definition is written with fuel 2, the depth of
  the call of the encoder to itself. Only the debug string of a cyclic object has no sufficient fuel,
  as the code never returns there.

  \<^bold>\<open>Parameters.\<close> \<open>java_lite\<close>: the build flag COMPATIBLE_WITH_JAVA_HESSIAN_LITE. \<open>oor\<close>: the conversion of a
  double that does not fit \<open>int32_t\<close>. \<open>emp\<close> and \<open>hsh\<close>: insertion into the hash table and the hash of
  its keys. \<open>hashers\<close>, \<open>fmt\<close>, \<open>str_format\<close>: the hash functions of the libraries and the formatter.
  \<open>popen\<close>: what a command prints, or does with the bytes it is sent.

  \<^bold>\<open>Not modelled.\<close> Stack overflow by deep nesting and failing allocation; a decoder used again after a
  failed call (its table may hold pointers to objects that were destroyed); the reuse of addresses; mutable
  accessors and iterators; the hash of a reference key that changes when its target is filled later;
  logging, macros and the compile-time choice of a specialisation; the Java program of the tests, most
  of which is in a library outside of the repository.
\<close>

end
